(* ===== verification/Prelude.thy ===== *)
theory Prelude
  imports
    Main
    "HOL-Library.Word"
    "HOL-Library.Char_ord"
    "HOL-Library.List_Lexorder"
    "HOL-Library.Product_Lexorder"
    "HOL-Library.Sublist"
begin

text \<open>
  Shared material of the development: the C++ machine types and the parts of the C++
  standard library the sources use (character classes, \<^verbatim>\<open>std::string\<close> searching, number
  formatting and parsing, \<^verbatim>\<open>std::map\<close>), with the lemmas the components rest on.
  Strings are byte strings (\<^typ>\<open>string\<close>), as \<^verbatim>\<open>std::string\<close> is.
\<close>

section \<open>Machine types\<close>

type_synonym c_int = "32 word"
type_synonym c_long = "64 word"
type_synonym c_double = "64 word"  \<comment> \<open>the bit pattern of an IEEE double\<close>

text \<open>
  What \<^verbatim>\<open>std::stoi\<close>, \<^verbatim>\<open>std::stol\<close> and \<^verbatim>\<open>std::stoul\<close> throw, and signed overflow, which the
  C++ standard leaves undefined and the model therefore keeps apart as an error.
\<close>

datatype cxx_error = InvalidArgument | OutOfRange | SignedOverflow

named_theorems str_simps \<open>facts on strings, searching and number formatting\<close>
named_theorems map_simps \<open>facts on ordered maps\<close>

section \<open>Characters\<close>

abbreviation (input) LF :: char where "LF \<equiv> CHR 0x0A"
abbreviation (input) CR :: char where "CR \<equiv> CHR 0x0D"
abbreviation (input) TAB :: char where "TAB \<equiv> CHR 0x09"
abbreviation (input) NUL :: char where "NUL \<equiv> CHR 0x00"
abbreviation (input) CRLF :: string where "CRLF \<equiv> [CR, LF]"

text \<open>\<^verbatim>\<open>isspace\<close>, \<^verbatim>\<open>isdigit\<close> and \<^verbatim>\<open>isalnum\<close> of the C locale.\<close>

definition is_space :: "char \<Rightarrow> bool" where
  "is_space c \<longleftrightarrow> c = CHR '' '' \<or> (9 \<le> (of_char c :: nat) \<and> (of_char c :: nat) \<le> 13)"

definition is_digit :: "char \<Rightarrow> bool" where
  "is_digit c \<longleftrightarrow> 48 \<le> (of_char c :: nat) \<and> (of_char c :: nat) \<le> 57"

definition is_alnum :: "char \<Rightarrow> bool" where
  "is_alnum c \<longleftrightarrow> is_digit c
     \<or> 65 \<le> (of_char c :: nat) \<and> (of_char c :: nat) \<le> 90
     \<or> 97 \<le> (of_char c :: nat) \<and> (of_char c :: nat) \<le> 122"

definition digit_char :: "nat \<Rightarrow> char" where
  "digit_char d = char_of (48 + d)"

definition digit_val :: "char \<Rightarrow> nat" where
  "digit_val c = of_char c - 48"

section \<open>Searching in strings\<close>

text \<open>
  \<^verbatim>\<open>s.find(c)\<close>, \<^verbatim>\<open>s.find_last_of(c)\<close> and \<^verbatim>\<open>s.find(pat)\<close>; \<^const>\<open>None\<close> stands for
  \<^verbatim>\<open>std::string::npos\<close>. \<^verbatim>\<open>s.substr(0, n)\<close> is \<^term>\<open>take n s\<close> and \<^verbatim>\<open>s.substr(n)\<close> is
  \<^term>\<open>drop n s\<close> for every \<open>n\<close> within the string, which is how the sources call it.
\<close>

fun find_char :: "char \<Rightarrow> string \<Rightarrow> nat option" where
  "find_char c [] = None"
| "find_char c (x # xs) = (if x = c then Some 0 else map_option Suc (find_char c xs))"

definition find_last :: "char \<Rightarrow> string \<Rightarrow> nat option" where
  "find_last c s = map_option (\<lambda>i. length s - Suc i) (find_char c (rev s))"

fun find_sub :: "string \<Rightarrow> string \<Rightarrow> nat option" where
  "find_sub pat [] = (if pat = [] then Some 0 else None)"
| "find_sub pat (x # xs) =
     (if prefix pat (x # xs) then Some 0 else map_option Suc (find_sub pat xs))"

section \<open>Numbers to and from text\<close>

text \<open>\<^verbatim>\<open>std::to_string\<close> on the integer types, and \<^verbatim>\<open>operator<<\<close> on them.\<close>

fun show_nat :: "nat \<Rightarrow> string" where
  "show_nat n = (if n < 10 then [digit_char n] else show_nat (n div 10) @ [digit_char (n mod 10)])"

declare show_nat.simps [simp del]

definition show_int :: "int \<Rightarrow> string" where
  "show_int i = (if i < 0 then CHR ''-'' # show_nat (nat (- i)) else show_nat (nat i))"

definition digits_val :: "string \<Rightarrow> nat" where
  "digits_val s = foldl (\<lambda>acc c. acc * 10 + digit_val c) 0 s"

text \<open>
  The common part of \<^verbatim>\<open>strtol\<close> and \<^verbatim>\<open>strtoul\<close> in base 10: leading white space, an optional
  sign, then the longest run of digits; what follows is ignored. No digits is
  \<^verbatim>\<open>std::invalid_argument\<close>.
\<close>

definition scan_sign :: "string \<Rightarrow> bool \<times> string" where
  "scan_sign s = (case s of
     [] \<Rightarrow> (False, [])
   | c # cs \<Rightarrow> if c = CHR ''-'' then (True, cs) else if c = CHR ''+'' then (False, cs) else (False, s))"

definition scan_number :: "string \<Rightarrow> cxx_error + bool \<times> nat" where
  "scan_number s =
     (let (neg, rest) = scan_sign (dropWhile is_space s); ds = takeWhile is_digit rest
      in if ds = [] then Inl InvalidArgument else Inr (neg, digits_val ds))"

definition signed_of :: "bool \<times> nat \<Rightarrow> int" where
  "signed_of p = (if fst p then - int (snd p) else int (snd p))"

definition stoi :: "string \<Rightarrow> cxx_error + int" where
  "stoi s = (case scan_number s of Inl e \<Rightarrow> Inl e
     | Inr p \<Rightarrow> if - (2 ^ 31) \<le> signed_of p \<and> signed_of p < 2 ^ 31
                then Inr (signed_of p) else Inl OutOfRange)"

definition stol :: "string \<Rightarrow> cxx_error + int" where
  "stol s = (case scan_number s of Inl e \<Rightarrow> Inl e
     | Inr p \<Rightarrow> if - (2 ^ 63) \<le> signed_of p \<and> signed_of p < 2 ^ 63
                then Inr (signed_of p) else Inl OutOfRange)"

text \<open>\<^verbatim>\<open>strtoul\<close> accepts a minus sign and negates modulo \<open>2 ^ 64\<close>.\<close>

definition stoul :: "string \<Rightarrow> cxx_error + nat" where
  "stoul s = (case scan_number s of Inl e \<Rightarrow> Inl e
     | Inr (neg, m) \<Rightarrow> if m < 2 ^ 64 then Inr (if neg then (2 ^ 64 - m) mod 2 ^ 64 else m)
                        else Inl OutOfRange)"

text \<open>A \<^verbatim>\<open>const char*\<close> made with \<^verbatim>\<open>c_str()\<close> ends at the first NUL byte.\<close>

definition c_str :: "string \<Rightarrow> string" where
  "c_str s = takeWhile (\<lambda>c. c \<noteq> NUL) s"

section \<open>std::map\<close>

text \<open>
  A \<^verbatim>\<open>std::map\<close> is the list of its entries in key order, which is the order in which the
  sources iterate over it. \<open>om_put\<close> is \<^verbatim>\<open>m[k] = v\<close> (and \<^verbatim>\<open>emplace\<close> on an absent key),
  \<open>om_erase\<close> is \<^verbatim>\<open>erase\<close>, \<open>om_find\<close> is \<^verbatim>\<open>find\<close>.
\<close>

type_synonym ('k, 'v) omap = "('k \<times> 'v) list"

fun om_find :: "('k, 'v) omap \<Rightarrow> 'k \<Rightarrow> 'v option" where
  "om_find [] k = None"
| "om_find ((k', v) # m) k = (if k = k' then Some v else om_find m k)"

fun om_put :: "'k::linorder \<Rightarrow> 'v \<Rightarrow> ('k, 'v) omap \<Rightarrow> ('k, 'v) omap" where
  "om_put k v [] = [(k, v)]"
| "om_put k v ((k', v') # m) =
     (if k = k' then (k, v) # m
      else if k < k' then (k, v) # (k', v') # m
      else (k', v') # om_put k v m)"

definition om_erase :: "'k \<Rightarrow> ('k, 'v) omap \<Rightarrow> ('k, 'v) omap" where
  "om_erase k m = filter (\<lambda>e. fst e \<noteq> k) m"

definition om_ok :: "('k::linorder, 'v) omap \<Rightarrow> bool" where
  "om_ok m \<longleftrightarrow> sorted_wrt (<) (map fst m)"

text \<open>\<^verbatim>\<open>++m[k]\<close> on a map of counters: an absent key starts at zero.\<close>

definition om_incr :: "'k::linorder \<Rightarrow> ('k, int) omap \<Rightarrow> ('k, int) omap" where
  "om_incr k m = om_put k (case om_find m k of None \<Rightarrow> 1 | Some n \<Rightarrow> n + 1) m"

definition om_total :: "('k, int) omap \<Rightarrow> int" where
  "om_total m = sum_list (map snd m)"

section \<open>Lemmas on characters and numbers\<close>

lemma is_digit_digit_char [str_simps]: "d < 10 \<Longrightarrow> is_digit (digit_char d)"
  by (simp add: is_digit_def digit_char_def)

lemma digit_val_digit_char [str_simps]: "d < 10 \<Longrightarrow> digit_val (digit_char d) = d"
  by (simp add: digit_val_def digit_char_def)

lemma digit_not_space [str_simps]: "is_digit c \<Longrightarrow> \<not> is_space c"
  by (auto simp: is_digit_def is_space_def)

lemma digit_alnum [str_simps]: "is_digit c \<Longrightarrow> is_alnum c"
  by (simp add: is_alnum_def)

lemma digits_val_snoc [str_simps]: "digits_val (ds @ [c]) = digits_val ds * 10 + digit_val c"
  by (simp add: digits_val_def)

lemma show_nat_ne [simp]: "show_nat n \<noteq> []"
  by (subst show_nat.simps) simp

lemma show_nat_digits: "list_all is_digit (show_nat n)"
proof (induction n rule: show_nat.induct)
  case (1 n)
  then show ?case
    by (subst show_nat.simps) (simp add: str_simps)
qed

lemma digits_val_show_nat [str_simps]: "digits_val (show_nat n) = n"
proof (induction n rule: show_nat.induct)
  case (1 n)
  then show ?case
    by (subst show_nat.simps) (simp add: str_simps, simp add: digits_val_def str_simps)
qed

lemma show_nat_inj: "show_nat m = show_nat n \<longleftrightarrow> m = n"
  by (metis digits_val_show_nat)

lemma takeWhile_digits_show_nat [str_simps]: "takeWhile is_digit (show_nat n) = show_nat n"
  using show_nat_digits by (simp add: list_all_iff)

lemma hd_show_nat_digit: "is_digit (hd (show_nat n))"
  using show_nat_digits [of n] by (cases "show_nat n") auto

lemma show_nat_Cons: "\<exists>c cs. show_nat n = c # cs \<and> is_digit c"
  using show_nat_digits [of n] by (cases "show_nat n") auto

lemma digit_not_sign: "is_digit c \<Longrightarrow> c \<noteq> CHR ''-'' \<and> c \<noteq> CHR ''+''"
  by (auto simp: is_digit_def)

lemma scan_number_digits:
  assumes "takeWhile is_digit s = d # ds"
  shows "scan_number s = Inr (False, digits_val (d # ds))"
proof -
  obtain c cs where s: "s = c # cs" and c: "is_digit c"
    using assms by (cases s) (auto split: if_splits)
  have "dropWhile is_space s = s" using s c by (simp add: digit_not_space)
  moreover have "scan_sign s = (False, s)"
    using s digit_not_sign [OF c] by (simp add: scan_sign_def)
  ultimately show ?thesis using assms by (simp add: scan_number_def)
qed

lemma scan_number_show_int: "scan_number (show_int i) = Inr (i < 0, nat \<bar>i\<bar>)"
proof (cases "i < 0")
  case True
  then have "dropWhile is_space (show_int i) = show_int i"
    and "scan_sign (show_int i) = (True, show_nat (nat (- i)))"
    by (simp_all add: show_int_def is_space_def scan_sign_def)
  with True show ?thesis
    by (simp add: scan_number_def str_simps)
next
  case False
  obtain c cs where "show_nat (nat i) = c # cs" using show_nat_Cons by blast
  then have "takeWhile is_digit (show_int i) = c # cs"
    using False takeWhile_digits_show_nat [of "nat i"] by (simp add: show_int_def)
  from scan_number_digits [OF this] False show ?thesis
    using \<open>show_nat (nat i) = c # cs\<close> digits_val_show_nat [of "nat i"] by simp
qed

lemma signed_of_show: "signed_of (i < 0, nat \<bar>i\<bar>) = i"
  by (simp add: signed_of_def)

lemma stol_show_int:
  "- (2 ^ 63) \<le> i \<Longrightarrow> i < 2 ^ 63 \<Longrightarrow> stol (show_int i) = Inr i"
  by (simp add: stol_def scan_number_show_int signed_of_show)

lemma stoi_show_int:
  "- (2 ^ 31) \<le> i \<Longrightarrow> i < 2 ^ 31 \<Longrightarrow> stoi (show_int i) = Inr i"
  by (simp add: stoi_def scan_number_show_int signed_of_show)

lemma stoi_range: "stoi s = Inr i \<Longrightarrow> - (2 ^ 31) \<le> i \<and> i < 2 ^ 31"
  by (auto simp: stoi_def split: sum.splits if_splits)

lemma show_int_inj: "show_int i = show_int j \<longleftrightarrow> i = j"
  by (metis scan_number_show_int signed_of_show sum.inject(2))

section \<open>Lemmas on searching\<close>

lemma find_char_None: "find_char c s = None \<longleftrightarrow> c \<notin> set s"
  by (induction s) auto

lemma find_char_append:
  "c \<notin> set u \<Longrightarrow> find_char c (u @ c # v) = Some (length u)"
  by (induction u) auto

lemma find_last_append:
  assumes "c \<notin> set v"
  shows "find_last c (u @ c # v) = Some (length u)"
proof -
  have "find_char c (rev v @ c # rev u) = Some (length v)"
    using assms find_char_append [of c "rev v" "rev u"] by simp
  then show ?thesis by (simp add: find_last_def)
qed

lemma find_last_None: "find_last c s = None \<longleftrightarrow> c \<notin> set s"
  by (simp add: find_last_def find_char_None)

lemma find_sub_Some_prefix:
  "find_sub pat s = Some i \<Longrightarrow> prefix pat (drop i s) \<and> i \<le> length s"
  by (induction s arbitrary: i) (auto split: if_splits)

lemma all_le_Suc: "(\<forall>i \<le> Suc n. P i) \<longleftrightarrow> P 0 \<and> (\<forall>i \<le> n. P (Suc i))"
  by (metis Suc_le_mono le0 not0_implies_Suc)

lemma find_sub_None_iff: "find_sub pat s = None \<longleftrightarrow> (\<forall>i \<le> length s. \<not> prefix pat (drop i s))"
  by (induction s) (simp_all add: all_le_Suc)

lemma find_sub_least:
  "find_sub pat s = Some i \<Longrightarrow> j < i \<Longrightarrow> \<not> prefix pat (drop j s)"
proof (induction s arbitrary: i j)
  case Nil
  then show ?case by (simp split: if_splits)
next
  case (Cons x xs)
  then show ?case
    by (cases j) (auto split: if_splits)
qed

section \<open>Lemmas on ordered maps\<close>

lemma om_ok_Nil [simp]: "om_ok []"
  by (simp add: om_ok_def)

lemma om_ok_Cons [simp]: "om_ok ((k, v) # m) \<longleftrightarrow> (\<forall>j \<in> fst ` set m. k < j) \<and> om_ok m"
  by (auto simp: om_ok_def)

lemma om_find_put [map_simps]: "om_find (om_put k v m) j = (if j = k then Some v else om_find m j)"
  by (induction k v m rule: om_put.induct) auto

lemma om_find_erase [map_simps]: "om_find (om_erase k m) j = (if j = k then None else om_find m j)"
  by (induction m) (auto simp: om_erase_def)

lemma om_put_keys [map_simps]: "fst ` set (om_put k v m) = insert k (fst ` set m)"
  by (induction k v m rule: om_put.induct) auto

lemma om_ok_put [map_simps]: "om_ok m \<Longrightarrow> om_ok (om_put k v m)"
proof (induction k v m rule: om_put.induct)
  case (2 k v k' v' m)
  then show ?case
    by (cases k k' rule: linorder_cases) (simp_all add: om_put_keys del: ball_simps image_iff, auto)
qed simp

lemma om_ok_erase [map_simps]: "om_ok m \<Longrightarrow> om_ok (om_erase k m)"
  by (induction m) (auto simp: om_erase_def)

lemma om_find_in: "om_find m k = Some v \<Longrightarrow> (k, v) \<in> set m"
  by (induction m) (auto split: if_splits)

lemma om_in_find: "om_ok m \<Longrightarrow> (k, v) \<in> set m \<Longrightarrow> om_find m k = Some v"
  by (induction m) force+

lemma om_find_None: "om_find m k = None \<longleftrightarrow> k \<notin> fst ` set m"
  by (induction m) (auto split: if_splits)

lemma om_ok_distinct: "om_ok m \<Longrightarrow> distinct (map fst m)"
  unfolding om_ok_def by (simp add: strict_sorted_iff)

lemma om_ext:
  fixes m n :: "('k::linorder, 'v) omap"
  assumes "om_ok m" "om_ok n" "\<And>k. om_find m k = om_find n k"
  shows "m = n"
proof -
  have keys: "fst ` set m = fst ` set n" using om_find_None [of m] om_find_None [of n] assms(3) by (metis subsetI subset_antisym)
  have "sorted (map fst m)" "sorted (map fst n)" "distinct (map fst m)" "distinct (map fst n)"
    using assms(1,2) by (simp_all add: om_ok_def strict_sorted_iff)
  then have eq: "map fst m = map fst n" using keys by (intro sorted_distinct_set_unique) simp_all
  have tab: "l = map (\<lambda>k. (k, the (om_find l k))) (map fst l)" if "om_ok l" for l :: "('k, 'v) omap"
    unfolding map_map by (rule map_idI [symmetric]) (use om_in_find [OF that] in \<open>auto simp: comp_def\<close>)
  show ?thesis using tab [OF assms(1)] tab [OF assms(2)] unfolding eq assms(3) by simp
qed

lemma om_ok_filter: "om_ok m \<Longrightarrow> om_ok (filter P m)"
  by (induction m) auto

lemma om_find_filter:
  "om_ok m \<Longrightarrow> om_find (filter (\<lambda>e. P (snd e)) m) k =
    (case om_find m k of None \<Rightarrow> None | Some v \<Rightarrow> if P v then Some v else None)"
proof (induction m)
  case (Cons e m)
  obtain j v where e: "e = (j, v)" by (cases e)
  have "om_find m j = None" if "om_ok ((j, v) # m)"
    using that by (auto simp: om_find_None)
  with Cons e show ?case by (auto split: option.splits)
qed simp

lemma om_total_put:
  "om_ok m \<Longrightarrow>
    om_total (om_put k v m) = om_total m + v - (case om_find m k of None \<Rightarrow> 0 | Some w \<Rightarrow> w)"
proof (induction k v m rule: om_put.induct)
  case (2 k v k' v' m)
  show ?case
  proof (cases "k = k' \<or> k > k'")
    case True
    with 2 show ?thesis by (auto simp: om_total_def)
  next
    case False
    with "2.prems" have "k \<notin> fst ` set m" by auto
    then have "om_find m k = None" by (simp add: om_find_None)
    with False show ?thesis by (auto simp: om_total_def)
  qed
qed (simp add: om_total_def)

text \<open>The interface a client of \<^verbatim>\<open>std::map\<close> relies on, and what it gives.\<close>

locale std_map =
  fixes find :: "'m \<Rightarrow> 'k \<Rightarrow> 'v option"
    and put :: "'k \<Rightarrow> 'v \<Rightarrow> 'm \<Rightarrow> 'm"
    and erase :: "'k \<Rightarrow> 'm \<Rightarrow> 'm"
    and entries :: "'m \<Rightarrow> ('k \<times> 'v) list"
    and ok :: "'m \<Rightarrow> bool"
  assumes find_put: "find (put k v m) j = (if j = k then Some v else find m j)"
    and find_erase: "find (erase k m) j = (if j = k then None else find m j)"
    and find_entries: "ok m \<Longrightarrow> find m k = Some v \<longleftrightarrow> (k, v) \<in> set (entries m)"
    and distinct_entries: "ok m \<Longrightarrow> distinct (map fst (entries m))"
    and ok_put: "ok m \<Longrightarrow> ok (put k v m)"
    and ok_erase: "ok m \<Longrightarrow> ok (erase k m)"
begin

lemma keys_eq_dom: "ok m \<Longrightarrow> fst ` set (entries m) = dom (find m)"
  by (force simp: find_entries dom_def)

lemma size_eq_card: "ok m \<Longrightarrow> length (entries m) = card (dom (find m))"
  using distinct_card [OF distinct_entries [of m]] by (simp add: keys_eq_dom)

lemma finite_dom: "ok m \<Longrightarrow> finite (dom (find m))"
  using keys_eq_dom [of m] by (metis finite_imageI List.finite_set)

lemma dom_put: "dom (find (put k v m)) = insert k (dom (find m))"
  by (auto simp: find_put dom_def)

lemma dom_erase: "dom (find (erase k m)) = dom (find m) - {k}"
  by (auto simp: find_erase dom_def)

lemma size_put:
  "ok m \<Longrightarrow> length (entries (put k v m)) = length (entries m) + (if find m k = None then 1 else 0)"
  using finite_dom [of m] by (simp add: size_eq_card ok_put dom_put card_insert_if domIff)

lemma size_erase:
  "ok m \<Longrightarrow> length (entries (erase k m)) = length (entries m) - (if find m k = None then 0 else 1)"
  using finite_dom [of m] by (simp add: size_eq_card ok_erase dom_erase card_Diff_singleton_if domIff)

lemma all_put: "ok m \<Longrightarrow> (\<And>j w. find m j = Some w \<Longrightarrow> P w) \<Longrightarrow> P v \<Longrightarrow>
    find (put k v m) j = Some w \<Longrightarrow> P w"
  by (auto simp: find_put split: if_splits)

end

interpretation om: std_map om_find om_put om_erase "\<lambda>m. m" om_ok
  by unfold_locales
    (auto simp: map_simps om_ok_distinct dest: om_find_in om_in_find)

text \<open>A counter map is a \<^verbatim>\<open>std::map\<close> to integers that is only ever incremented.\<close>

lemma om_find_incr [map_simps]:
  "om_find (om_incr k m) j =
     (if j = k then Some (case om_find m k of None \<Rightarrow> 1 | Some n \<Rightarrow> n + 1) else om_find m j)"
  by (simp add: om_incr_def om_find_put)

lemma om_ok_incr [map_simps]: "om_ok m \<Longrightarrow> om_ok (om_incr k m)"
  by (simp add: om_incr_def om_ok_put)

lemma om_total_incr [map_simps]: "om_ok m \<Longrightarrow> om_total (om_incr k m) = om_total m + 1"
  by (simp add: om_incr_def om_total_put split: option.splits)

lemma show_nat_times_ten: "0 < n \<Longrightarrow> show_nat (n * 10 ^ j) = show_nat n @ replicate j (CHR ''0'')"
proof (induction j)
  case (Suc j)
  have "\<not> n * 10 ^ Suc j < 10" using Suc.prems by simp
  moreover have "n * 10 ^ Suc j div 10 = n * 10 ^ j" "n * 10 ^ Suc j mod 10 = 0" by simp_all
  moreover have "digit_char 0 = CHR ''0''" by code_simp
  ultimately have "show_nat (n * 10 ^ Suc j) = show_nat (n * 10 ^ j) @ [CHR ''0'']"
    by (subst show_nat.simps) simp
  with Suc show ?case by (simp add: replicate_append_same)
qed simp

lemma show_nat_length_bounds: "0 < n \<Longrightarrow> 10 ^ (length (show_nat n) - 1) \<le> n \<and> n < 10 ^ length (show_nat n)"
proof (induction n rule: show_nat.induct)
  case (1 n)
  show ?case
  proof (cases "n < 10")
    case True
    then show ?thesis using "1.prems" by (simp add: show_nat.simps [of n])
  next
    case False
    then have "0 < n div 10" by simp
    with "1.IH" False have IH: "10 ^ (length (show_nat (n div 10)) - 1) \<le> n div 10" "n div 10 < 10 ^ length (show_nat (n div 10))" by blast+
    obtain l where l: "length (show_nat (n div 10)) = Suc l" by (metis length_greater_0_conv gr0_implies_Suc show_nat_ne)
    have "show_nat n = show_nat (n div 10) @ [digit_char (n mod 10)]" using False by (simp add: show_nat.simps [of n])
    then have "length (show_nat n) = Suc (Suc l)" by (simp add: l)
    with IH show ?thesis unfolding l by auto
  qed
qed

end
