(* ===== verification/World.thy ===== *)
theory World
  imports Prelude
begin

text \<open>
  The outside of the control plane. Everything the code asks of the operating system is an
  \<^emph>\<open>effect\<close>, and the \<^emph>\<open>world\<close> holds the history of the effects so far together with the
  process-wide static variable of \<^verbatim>\<open>kubernetes_client.cpp\<close>. An \<^emph>\<open>environment\<close> answers each
  effect from the history before it, so it stands for any Docker daemon, any cluster, any
  network and any clock: a theorem for all environments is a theorem for all of them.
  An answer that the environment never gives (a socket that blocks for ever) is part of
  the model, see \<open>recv_result\<close>.
\<close>

datatype effect =
    Shell string                \<comment> \<open>\<^verbatim>\<open>popen\<close> of a command line, read to its end and \<^verbatim>\<open>pclose\<close>d\<close>
  | Connect string int "(int \<times> int) option"
      \<comment> \<open>an outgoing TCP connection to a host and port, with its socket timeout (seconds,
         microseconds) if one was set\<close>
  | Send string                 \<comment> \<open>the bytes given to \<^verbatim>\<open>send\<close> on the last connection\<close>
  | SleepMs int                 \<comment> \<open>\<^verbatim>\<open>std::this_thread::sleep_for\<close>\<close>
  | ClockRead                   \<comment> \<open>\<^verbatim>\<open>std::chrono::steady_clock::now\<close>\<close>

text \<open>
  What \<^verbatim>\<open>popen\<close>, the \<^verbatim>\<open>fread\<close>s on the pipe and \<^verbatim>\<open>pclose\<close> give: no pipe, or the blocks read in
  order and the wait status (the exit code, or that the command did not exit normally).
\<close>

datatype wait_status = Exited int | NotExited

datatype popen_result = PopenFailed | PopenOk "string list" wait_status

text \<open>
  One \<^verbatim>\<open>recv\<close> on a connected socket: some bytes (no bytes is the end of the stream), an
  error of the connection, or nothing at all because the peer is silent. What a silent peer
  means to the caller depends on whether it set a receive timeout.
\<close>

datatype recv_result = Bytes string | RecvError | Silent

text \<open>
  How the other side of one outgoing connection behaves, call by call, in the order in
  which \<^verbatim>\<open>Client::request\<close> makes them. The bytes received may depend on the request sent.
\<close>

record peer =
  p_socket :: bool                                \<comment> \<open>\<^verbatim>\<open>socket(...) >= 0\<close>\<close>
  p_pton :: bool                                  \<comment> \<open>\<^verbatim>\<open>inet_pton(...) == 1\<close>\<close>
  p_resolve :: bool                               \<comment> \<open>\<^verbatim>\<open>gethostbyname\<close> gave an address\<close>
  p_connect :: bool                               \<comment> \<open>\<^verbatim>\<open>connect(...) >= 0\<close>\<close>
  p_send :: "string \<Rightarrow> bool"                      \<comment> \<open>\<^verbatim>\<open>send(...) >= 0\<close>\<close>
  p_recv :: "string \<Rightarrow> nat \<Rightarrow> recv_result"        \<comment> \<open>the \<open>n\<close>-th \<^verbatim>\<open>recv\<close>\<close>

record env =
  e_popen :: "effect list \<Rightarrow> string \<Rightarrow> popen_result"
  e_peer :: "effect list \<Rightarrow> string \<Rightarrow> int \<Rightarrow> peer"
  e_now :: "effect list \<Rightarrow> int"                   \<comment> \<open>nanoseconds of the steady clock\<close>

record world =
  hist :: "effect list"
  pod_counter :: int

definition init_world :: world where
  "init_world = \<lparr>hist = [], pod_counter = 0\<rparr>"

definition emit :: "effect \<Rightarrow> world \<Rightarrow> world" where
  "emit e w = w\<lparr>hist := hist w @ [e]\<rparr>"

text \<open>\<^verbatim>\<open>std::chrono::steady_clock::now()\<close> and \<^verbatim>\<open>std::this_thread::sleep_for\<close>.\<close>

definition steady_now :: "env \<Rightarrow> world \<Rightarrow> int \<times> world" where
  "steady_now env w = (e_now env (hist w), emit ClockRead w)"

definition sleep_ms :: "int \<Rightarrow> world \<Rightarrow> world" where
  "sleep_ms n w = emit (SleepMs n) w"

text \<open>
  \<^verbatim>\<open>duration_cast<milliseconds>\<close> of a nanosecond count: division that truncates towards zero.
\<close>

definition ms_of_ns :: "int \<Rightarrow> int" where
  "ms_of_ns d = (if d < 0 then - ((- d) div 1000000) else d div 1000000)"

text \<open>The clock is steady: a later reading is never smaller.\<close>

definition steady :: "env \<Rightarrow> bool" where
  "steady env \<longleftrightarrow> (\<forall>h h'. prefix h h' \<longrightarrow> e_now env h \<le> e_now env h')"

text \<open>One world extends another when effects were only added to its history.\<close>

definition extends :: "world \<Rightarrow> world \<Rightarrow> bool" where
  "extends w w' \<longleftrightarrow> prefix (hist w) (hist w')"

text \<open>The effects between two worlds.\<close>

definition new_effects :: "world \<Rightarrow> world \<Rightarrow> effect list" where
  "new_effects w w' = drop (length (hist w)) (hist w')"

named_theorems world_simps \<open>how the primitives act on the world\<close>

lemma hist_emit [world_simps, simp]: "hist (emit e w) = hist w @ [e]"
  by (simp add: emit_def)

lemma pod_counter_emit [world_simps, simp]: "pod_counter (emit e w) = pod_counter w"
  by (simp add: emit_def)

lemma steady_now_simps [world_simps, simp]:
  "fst (steady_now env w) = e_now env (hist w)"
  "hist (snd (steady_now env w)) = hist w @ [ClockRead]"
  "pod_counter (snd (steady_now env w)) = pod_counter w"
  by (simp_all add: steady_now_def)

lemma hist_sleep_ms [world_simps, simp]: "hist (sleep_ms n w) = hist w @ [SleepMs n]"
  by (simp add: sleep_ms_def)

lemma extends_refl [intro, simp]: "extends w w"
  by (simp add: extends_def)

lemma extends_trans [trans]: "extends u v \<Longrightarrow> extends v w \<Longrightarrow> extends u w"
  by (auto simp: extends_def)

lemma extends_emit [intro, simp]: "extends w (emit e w)"
  by (simp add: extends_def)

lemma extends_sleep [intro, simp]: "extends w (sleep_ms n w)"
  by (simp add: extends_def)

lemma extends_now [intro, simp]: "extends w (snd (steady_now env w))"
  by (simp add: extends_def)

lemma extends_hist_mono: "extends w w' \<Longrightarrow> e \<in> set (hist w) \<Longrightarrow> e \<in> set (hist w')"
  by (auto simp: extends_def dest: set_mono_prefix)

lemma new_effects_trans:
  "extends u v \<Longrightarrow> extends v w \<Longrightarrow> new_effects u w = new_effects u v @ new_effects v w"
  by (auto simp: extends_def new_effects_def elim!: prefixE)

lemma new_effects_left: "extends u v \<Longrightarrow> extends v w \<Longrightarrow> e \<in> set (new_effects u v) \<Longrightarrow> e \<in> set (new_effects u w)"
  using new_effects_trans [of u v w] by simp

lemma new_effects_right: "extends u v \<Longrightarrow> extends v w \<Longrightarrow> e \<in> set (new_effects v w) \<Longrightarrow> e \<in> set (new_effects u w)"
  using new_effects_trans [of u v w] by simp

lemma new_effects_hist: "e \<in> set (new_effects u v) \<Longrightarrow> e \<in> set (hist v)"
  by (auto simp: new_effects_def dest: in_set_dropD)

lemma steady_mono: "steady env \<Longrightarrow> extends w w' \<Longrightarrow> e_now env (hist w) \<le> e_now env (hist w')"
  by (simp add: steady_def extends_def)

lemma ms_of_ns_nonneg: "0 \<le> d \<Longrightarrow> 0 \<le> ms_of_ns d"
  by (simp add: ms_of_ns_def)

lemma ms_of_ns_mono: "a \<le> b \<Longrightarrow> ms_of_ns a \<le> ms_of_ns b"
  by (auto simp: ms_of_ns_def zdiv_mono1 intro: order_trans [of _ 0])

end
