(* ===== verification/Shell_Exec.thy ===== *)
theory Shell_Exec
  imports World
begin

text \<open>
  \<^verbatim>\<open>control-plane/src/shell_exec.cpp\<close>: running a command line and capturing its output,
  trimming it, taking its first line, and the check that guards every value that is pasted
  into a command line. The code waits for a command without a timeout; a command that never
  ends, or whose output never does, keeps its caller for ever and has no answer here: the
  theorems are about runs in which the commands end.
\<close>

section \<open>Definitions\<close>

record exec_result =
  exit_code :: int
  exec_output :: string

text \<open>The \<^verbatim>\<open>while ((n = fread(...)) > 0)\<close> loop: blocks are appended until one is empty.\<close>

fun read_pipe :: "string list \<Rightarrow> string \<Rightarrow> string" where
  "read_pipe [] out = out"
| "read_pipe (b # bs) out = (if b = [] then out else read_pipe bs (out @ b))"

definition exec_capture :: "env \<Rightarrow> string \<Rightarrow> world \<Rightarrow> exec_result \<times> world" where
  "exec_capture env command w =
     (let full = command @ '' 2>&1''; w' = emit (Shell full) w
      in case e_popen env (hist w) full of
        PopenFailed \<Rightarrow> (\<lparr>exit_code = - 1, exec_output = ''failed to start command: '' @ command\<rparr>, w')
      | PopenOk blocks status \<Rightarrow>
          (\<lparr>exit_code = (case status of Exited c \<Rightarrow> c | NotExited \<Rightarrow> - 1),
            exec_output = read_pipe blocks []\<rparr>, w'))"

definition is_blank :: "char \<Rightarrow> bool" where
  "is_blank c \<longleftrightarrow> c = CHR '' '' \<or> c = TAB \<or> c = CR \<or> c = LF"

text \<open>\<^verbatim>\<open>find_first_not_of\<close> and \<^verbatim>\<open>find_last_not_of\<close> for the set of blanks.\<close>

fun first_not_blank :: "string \<Rightarrow> nat option" where
  "first_not_blank [] = None"
| "first_not_blank (c # s) = (if is_blank c then map_option Suc (first_not_blank s) else Some 0)"

definition last_not_blank :: "string \<Rightarrow> nat option" where
  "last_not_blank s = map_option (\<lambda>i. length s - Suc i) (first_not_blank (rev s))"

definition trim :: "string \<Rightarrow> string" where
  "trim s = (case first_not_blank s of
     None \<Rightarrow> ''''
   | Some start \<Rightarrow> (case last_not_blank s of
       None \<Rightarrow> ''''
     | Some end_pos \<Rightarrow> take (end_pos - start + 1) (drop start s)))"

definition first_line :: "string \<Rightarrow> string" where
  "first_line s = (case find_char LF s of None \<Rightarrow> s | Some pos \<Rightarrow> take pos s)"

definition safe_char :: "char \<Rightarrow> bool" where
  "safe_char c \<longleftrightarrow> is_alnum c \<or> c = CHR ''-'' \<or> c = CHR ''_'' \<or> c = CHR ''.'' \<or> c = CHR '':'' \<or> c = CHR ''/''"

fun all_safe :: "string \<Rightarrow> bool" where
  "all_safe [] = True"
| "all_safe (c # s) = (if \<not> safe_char c then False else all_safe s)"

definition is_safe_token :: "string \<Rightarrow> bool" where
  "is_safe_token token = (if token = [] then False else all_safe token)"

section \<open>Lemmas\<close>

lemma all_safe_iff: "all_safe s \<longleftrightarrow> list_all safe_char s"
  by (induction s) auto

lemma is_safe_token_iff: "is_safe_token t \<longleftrightarrow> t \<noteq> [] \<and> (\<forall>c \<in> set t. safe_char c)"
  by (simp add: is_safe_token_def all_safe_iff list_all_iff)

lemma is_safe_token_append:
  "is_safe_token s \<Longrightarrow> is_safe_token t \<Longrightarrow> is_safe_token (s @ t)"
  by (auto simp: is_safe_token_iff)

lemma digits_safe: "list_all is_digit s \<Longrightarrow> c \<in> set s \<Longrightarrow> safe_char c"
  by (auto simp: list_all_iff safe_char_def digit_alnum)

lemma show_int_safe: "is_safe_token (show_int i)"
proof -
  have d: "c \<in> set (show_nat n) \<Longrightarrow> safe_char c" for c n
    using digits_safe [OF show_nat_digits] .
  then show ?thesis
    by (auto simp: is_safe_token_iff show_int_def safe_char_def)
qed

lemma read_pipe_acc: "read_pipe bs out = out @ concat (takeWhile (\<lambda>b. b \<noteq> []) bs)"
  by (induction bs arbitrary: out) auto

lemma exec_capture_hist [world_simps, simp]:
  "hist (snd (exec_capture env c w)) = hist w @ [Shell (c @ '' 2>&1'')]"
  by (simp add: exec_capture_def Let_def split: popen_result.split)

lemma exec_capture_pod_counter [world_simps, simp]:
  "pod_counter (snd (exec_capture env c w)) = pod_counter w"
  by (simp add: exec_capture_def Let_def split: popen_result.split)

lemma extends_exec [intro, simp]: "extends w (snd (exec_capture env c w))"
  by (simp add: extends_def)

lemma first_not_blank_dropWhile:
  "first_not_blank s = (if dropWhile is_blank s = [] then None
     else Some (length s - length (dropWhile is_blank s)))"
proof (induction s)
  case (Cons c s)
  have "length (dropWhile is_blank s) \<le> length s" by (rule length_dropWhile_le)
  with Cons show ?case by (auto simp: Suc_diff_le)
qed simp

lemma drop_first_not_blank: "first_not_blank s = Some i \<Longrightarrow> drop i s = dropWhile is_blank s"
  by (induction s arbitrary: i) (auto split: if_splits)

lemma first_not_blank_less: "first_not_blank s = Some i \<Longrightarrow> i < length s \<and> \<not> is_blank (s ! i)"
  by (induction s arbitrary: i) (auto split: if_splits)

text \<open>The index arithmetic of \<^verbatim>\<open>trim\<close> removes exactly the blanks at both ends.\<close>

lemma trim_split:
  assumes "\<not> is_blank x" "\<not> is_blank (last (x # m))"
    and "list_all is_blank a" "list_all is_blank b"
  shows "trim (a @ (x # m) @ b) = x # m"
proof -
  let ?s = "a @ (x # m) @ b"
  have f: "first_not_blank (u @ y # v) = Some (length u)"
    if "list_all is_blank u" "\<not> is_blank y" for u y v
    using that by (induction u) auto
  obtain l r where lr: "x # m = l @ [r]" by (metis rev_exhaust list.distinct(1))
  have "rev ?s = rev b @ r # (rev l @ rev a)" by (simp add: lr)
  moreover have "\<not> is_blank r" using assms(2) lr by simp
  ultimately have "first_not_blank (rev ?s) = Some (length b)"
    using f [of "rev b" r] assms(4) by (simp add: list_all_rev)
  then have "last_not_blank ?s = Some (length a + length m)"
    by (simp add: last_not_blank_def)
  moreover have "first_not_blank ?s = Some (length a)"
    using f [of a x "m @ b"] assms(1,3) by simp
  ultimately show ?thesis by (simp add: trim_def)
qed

lemma first_line_prefix: "first_line s = takeWhile (\<lambda>c. c \<noteq> LF) s"
proof (cases "find_char LF s")
  case None
  then have "LF \<notin> set s" by (simp add: find_char_None)
  then have "takeWhile (\<lambda>c. c \<noteq> LF) s = s" by (auto simp: takeWhile_eq_all_conv)
  with None show ?thesis by (simp add: first_line_def del: takeWhile_eq_all_conv)
next
  case (Some i)
  have "find_char LF s = Some i \<Longrightarrow> take i s = takeWhile (\<lambda>c. c \<noteq> LF) s"
    by (induction s arbitrary: i) (auto split: if_splits)
  with Some show ?thesis by (simp add: first_line_def)
qed

end
