(* ===== verification/Container_Backend.thy ===== *)
theory Container_Backend
  imports Shell_Exec
begin

text \<open>
  \<^verbatim>\<open>control-plane/include/faas/container_backend.hpp\<close>: the abstract class behind which Docker
  and Kubernetes stand. A \<open>backend\<close> record is an object of the class (its virtual
  functions); the locale \<open>container_backend\<close> is the contract the runtime manager relies on,
  and both implementations are proved to keep it.
\<close>

section \<open>Definitions\<close>

record run_result =
  rr_ok :: bool
  rr_id :: string
  rr_error :: string

definition default_run_result :: run_result where
  "default_run_result = \<lparr>rr_ok = False, rr_id = '''', rr_error = ''''\<rparr>"

record backend =
  run_container :: "string \<Rightarrow> int \<Rightarrow> world \<Rightarrow> run_result \<times> world"
  get_host_port :: "string \<Rightarrow> int \<Rightarrow> world \<Rightarrow> int \<times> world"
  remove_container :: "string \<Rightarrow> world \<Rightarrow> bool \<times> world"

text \<open>
  How \<^verbatim>\<open>sh\<close> reads a command line without quotes: words separated by blanks. A character is
  special to the shell when it would do more than stand for itself in such a word.
\<close>

fun words_of :: "string \<Rightarrow> string list" where
  "words_of [] = []"
| "words_of (c # s) =
     (if c = CHR '' '' then words_of s
      else (case s of
          [] \<Rightarrow> [[c]]
        | d # s' \<Rightarrow> if d = CHR '' '' then [c] # words_of s'
                    else (case words_of s of [] \<Rightarrow> [[c]] | w # ws \<Rightarrow> (c # w) # ws)))"

definition shell_special :: "char \<Rightarrow> bool" where
  "shell_special c \<longleftrightarrow> is_space c \<or> c = NUL
     \<or> c \<in> set [CHR '';'', CHR ''&'', CHR ''|'', CHR ''<'', CHR ''>'', CHR ''('', CHR '')'', CHR ''$'',
         CHR 0x60, CHR 0x5C, CHR 0x22, CHR 0x27, CHR ''*'', CHR ''?'', CHR ''['', CHR '']'', CHR ''#'',
         CHR ''~'', CHR ''='', CHR ''%'', CHR ''!'', CHR ''{'', CHR ''}'', CHR ''^'']"

section \<open>Command lines\<close>

text \<open>
  A value that passes \<open>is_safe_token\<close> can do nothing but stand for itself: it has no
  character the shell treats specially.
\<close>

lemma safe_char_not_special: "safe_char c \<Longrightarrow> \<not> shell_special c"
proof (cases "is_alnum c")
  case True
  then show ?thesis
    by (auto simp: is_alnum_def is_digit_def shell_special_def is_space_def)
next
  case False
  assume "safe_char c"
  with False consider "c = CHR ''-''" | "c = CHR ''_''" | "c = CHR ''.''" | "c = CHR '':''" | "c = CHR ''/''"
    by (auto simp: safe_char_def)
  then show ?thesis
    by cases (simp_all add: shell_special_def is_space_def)
qed

lemma safe_token_no_special: "is_safe_token t \<Longrightarrow> c \<in> set t \<Longrightarrow> \<not> shell_special c"
  by (simp add: is_safe_token_iff safe_char_not_special)

lemma safe_token_no_blank: "is_safe_token t \<Longrightarrow> CHR '' '' \<notin> set t"
  using safe_token_no_special [of t "CHR '' ''"] by (auto simp: shell_special_def is_space_def)

text \<open>Words put together with single blanks are read back by the shell.\<close>

lemma words_of_blank: "words_of (CHR '' '' # s) = words_of s"
  by simp

lemma words_of_word:
  "w \<noteq> [] \<Longrightarrow> CHR '' '' \<notin> set w \<Longrightarrow> words_of w = [w]"
proof (induction w)
  case (Cons c w)
  then show ?case by (cases w) auto
qed simp

lemma words_of_cons_word:
  "w \<noteq> [] \<Longrightarrow> CHR '' '' \<notin> set w \<Longrightarrow> words_of (w @ CHR '' '' # s) = w # words_of s"
proof (induction w)
  case (Cons c w)
  then show ?case by (cases w) auto
qed simp

lemma safe_token_ne: "is_safe_token t \<Longrightarrow> t \<noteq> []"
  by (simp add: is_safe_token_iff)

lemmas safe_word = safe_token_ne safe_token_no_blank

lemma rr_ok_default [simp]: "\<not> rr_ok default_run_result"
  by (simp add: default_run_result_def)

section \<open>The contract\<close>

text \<open>
  \<open>rm_line\<close> is the command line that destroys a runtime. The contract: effects are only
  added; a token that is not safe never reaches the shell and makes the operation fail;
  removing a safe id runs \<open>rm_line\<close> on it; a port is an \<^verbatim>\<open>int\<close>; and a failed run reports no
  id.
\<close>

locale container_backend =
  fixes run :: "string \<Rightarrow> int \<Rightarrow> world \<Rightarrow> run_result \<times> world"
    and port :: "string \<Rightarrow> int \<Rightarrow> world \<Rightarrow> int \<times> world"
    and remove :: "string \<Rightarrow> world \<Rightarrow> bool \<times> world"
    and rm_line :: "string \<Rightarrow> string"
  assumes run_extends: "extends w (snd (run img p w))"
    and port_extends: "extends w (snd (port i p w))"
    and remove_extends: "extends w (snd (remove i w))"
    and run_unsafe: "\<not> is_safe_token img \<Longrightarrow> hist (snd (run img p w)) = hist w \<and> \<not> rr_ok (fst (run img p w))"
    and port_unsafe: "\<not> is_safe_token i \<Longrightarrow> port i p w = (- 1, w)"
    and remove_unsafe: "\<not> is_safe_token i \<Longrightarrow> remove i w = (False, w)"
    and remove_issues: "is_safe_token i \<Longrightarrow> Shell (rm_line i) \<in> set (new_effects w (snd (remove i w)))"
    and port_range: "- (2 ^ 31) \<le> fst (port i p w) \<and> fst (port i p w) < 2 ^ 31"
    and run_failed_no_id: "\<not> rr_ok (fst (run img p w)) \<Longrightarrow> rr_id (fst (run img p w)) = ''''"
begin

text \<open>What a client concludes: a removal with a safe id leaves its trace after the state it began in.\<close>

lemma remove_after:
  "extends u w \<Longrightarrow> is_safe_token i \<Longrightarrow> Shell (rm_line i) \<in> set (new_effects u (snd (remove i w)))"
  using remove_issues remove_extends by (blast intro: new_effects_right)

lemma port_positive_safe: "0 < fst (port i p w) \<Longrightarrow> is_safe_token i"
  using port_unsafe [of i p w] by (cases "is_safe_token i") auto

end

end
