(* ===== verification/Docker_Client.thy ===== *)
theory Docker_Client
  imports Container_Backend
begin

text \<open>
  \<^verbatim>\<open>control-plane/src/docker_client.cpp\<close>: the Docker implementation of the backend, by way of
  the \<^verbatim>\<open>docker\<close> command line.
\<close>

section \<open>Definitions\<close>

definition docker_run_line :: "string \<Rightarrow> int \<Rightarrow> string" where
  "docker_run_line img container_port =
     ''docker run -d -p '' @ show_int container_port @ '' '' @ img"

definition docker_port_line :: "string \<Rightarrow> int \<Rightarrow> string" where
  "docker_port_line container_id container_port =
     ''docker port '' @ container_id @ '' '' @ show_int container_port"

definition docker_rm_line :: "string \<Rightarrow> string" where
  "docker_rm_line container_id = ''docker rm -f '' @ container_id"

definition docker_run_container :: "env \<Rightarrow> string \<Rightarrow> int \<Rightarrow> world \<Rightarrow> run_result \<times> world" where
  "docker_run_container env img container_port w =
     (if \<not> is_safe_token img
      then (default_run_result\<lparr>rr_error := ''invalid image name: '' @ img\<rparr>, w)
      else let (exec, w1) = exec_capture env (docker_run_line img container_port) w in
        if exit_code exec \<noteq> 0
        then (default_run_result\<lparr>rr_error := trim (exec_output exec)\<rparr>, w1)
        else (default_run_result\<lparr>rr_ok := True, rr_id := trim (first_line (exec_output exec))\<rparr>, w1))"

definition docker_get_host_port :: "env \<Rightarrow> string \<Rightarrow> int \<Rightarrow> world \<Rightarrow> int \<times> world" where
  "docker_get_host_port env container_id container_port w =
     (if \<not> is_safe_token container_id then (- 1, w)
      else let (exec, w1) = exec_capture env (docker_port_line container_id container_port) w in
        if exit_code exec \<noteq> 0 then (- 1, w1)
        else let line = trim (first_line (exec_output exec)) in
          (case find_last (CHR '':'') line of
             None \<Rightarrow> (- 1, w1)
           | Some colon \<Rightarrow> (case stoi (drop (colon + 1) line) of
               Inl _ \<Rightarrow> (- 1, w1)
             | Inr p \<Rightarrow> (p, w1))))"

definition docker_remove_container :: "env \<Rightarrow> string \<Rightarrow> world \<Rightarrow> bool \<times> world" where
  "docker_remove_container env container_id w =
     (if \<not> is_safe_token container_id then (False, w)
      else let (exec, w1) = exec_capture env (docker_rm_line container_id) w in
        (exit_code exec = 0, w1))"

definition docker_backend :: "env \<Rightarrow> backend" where
  "docker_backend env =
     \<lparr>run_container = docker_run_container env,
      get_host_port = docker_get_host_port env,
      remove_container = docker_remove_container env\<rparr>"

section \<open>The contract is kept\<close>

abbreviation (input) docker_rm_cmd :: "string \<Rightarrow> string" where
  "docker_rm_cmd i \<equiv> docker_rm_line i @ '' 2>&1''"

lemma docker_port_range:
  "- (2 ^ 31) \<le> fst (docker_get_host_port env i p w) \<and> fst (docker_get_host_port env i p w) < 2 ^ 31"
  by (auto simp: docker_get_host_port_def Let_def case_prod_beta dest: stoi_range
      split: option.splits sum.splits)

lemma docker_extends:
  "extends w (snd (docker_run_container env img p w))"
  "extends w (snd (docker_get_host_port env i p w))"
  "extends w (snd (docker_remove_container env i w))"
  by (auto simp: docker_run_container_def docker_get_host_port_def docker_remove_container_def
      Let_def case_prod_beta split: option.splits sum.splits)

lemma docker_unsafe:
  "\<not> is_safe_token img \<Longrightarrow> docker_run_container env img p w =
     (default_run_result\<lparr>rr_error := ''invalid image name: '' @ img\<rparr>, w)"
  "\<not> is_safe_token i \<Longrightarrow> docker_get_host_port env i p w = (- 1, w)"
  "\<not> is_safe_token i \<Longrightarrow> docker_remove_container env i w = (False, w)"
  by (simp_all add: docker_run_container_def docker_get_host_port_def docker_remove_container_def)

interpretation docker: container_backend
  "docker_run_container env" "docker_get_host_port env" "docker_remove_container env"
  "\<lambda>i. docker_rm_line i @ '' 2>&1''" for env
proof unfold_locales
  show "is_safe_token i \<Longrightarrow> Shell (docker_rm_line i @ '' 2>&1'')
      \<in> set (new_effects w (snd (docker_remove_container env i w)))" for i w
    by (simp add: docker_remove_container_def case_prod_beta new_effects_def)
  show "\<not> rr_ok (fst (docker_run_container env img p w)) \<Longrightarrow>
      rr_id (fst (docker_run_container env img p w)) = ''''" for img p w
    by (auto simp: docker_run_container_def default_run_result_def case_prod_beta Let_def split: if_splits)
qed (use docker_port_range in \<open>simp_all add: docker_extends docker_unsafe\<close>)

end
