(* ===== verification/Kubernetes_Client.thy ===== *)
theory Kubernetes_Client
  imports Container_Backend
begin

text \<open>
  \<^verbatim>\<open>control-plane/src/kubernetes_client.cpp\<close>: the Kubernetes implementation of the backend, by
  way of \<^verbatim>\<open>kubectl\<close>. A runtime is a pod and a service of the same generated name; the name
  is made from the clock and a process-wide counter.
\<close>

section \<open>Definitions\<close>

text \<open>C++'s remainder takes the sign of the dividend.\<close>

definition c_rem :: "int \<Rightarrow> int \<Rightarrow> int" where
  "c_rem a b = (if a < 0 then - ((- a) mod \<bar>b\<bar>) else a mod \<bar>b\<bar>)"

definition pod_name :: "int \<Rightarrow> int \<Rightarrow> string" where
  "pod_name now_ms counter = ''faas-'' @ show_int (c_rem now_ms 10000000) @ ''-'' @ show_int counter"

definition generate_pod_name :: "env \<Rightarrow> world \<Rightarrow> string \<times> world" where
  "generate_pod_name env w =
     (let (now, w1) = steady_now env w; counter = pod_counter w1 + 1
      in (pod_name (ms_of_ns now) counter, w1\<lparr>pod_counter := counter\<rparr>))"

definition kubectl_run_line :: "string \<Rightarrow> string \<Rightarrow> int \<Rightarrow> string" where
  "kubectl_run_line nm img container_port =
     ''kubectl run '' @ nm @ '' --image='' @ img @ '' --port='' @ show_int container_port
       @ '' --image-pull-policy=IfNotPresent --restart=Never''"

definition kubectl_wait_line :: "string \<Rightarrow> string" where
  "kubectl_wait_line nm = ''kubectl wait --for=condition=Ready pod/'' @ nm @ '' --timeout=60s''"

definition kubectl_expose_line :: "string \<Rightarrow> int \<Rightarrow> string" where
  "kubectl_expose_line nm container_port =
     ''kubectl expose pod '' @ nm @ '' --port='' @ show_int container_port
       @ '' --name='' @ nm @ '' --type=NodePort''"

definition kubectl_delete_pod_line :: "string \<Rightarrow> string" where
  "kubectl_delete_pod_line nm = ''kubectl delete pod '' @ nm @ '' --ignore-not-found --wait=false''"

definition kubectl_delete_svc_line :: "string \<Rightarrow> string" where
  "kubectl_delete_svc_line nm = ''kubectl delete svc '' @ nm @ '' --ignore-not-found --wait=false''"

definition kubectl_get_port_line :: "string \<Rightarrow> string" where
  "kubectl_get_port_line nm = ''kubectl get svc '' @ nm @ '' -o jsonpath={.spec.ports[0].nodePort}''"

definition k8s_run_container :: "env \<Rightarrow> string \<Rightarrow> int \<Rightarrow> world \<Rightarrow> run_result \<times> world" where
  "k8s_run_container env img container_port w =
     (if \<not> is_safe_token img
      then (default_run_result\<lparr>rr_error := ''invalid image name: '' @ img\<rparr>, w)
      else let (nm, w0) = generate_pod_name env w;
               (run_exec, w1) = exec_capture env (kubectl_run_line nm img container_port) w0 in
        if exit_code run_exec \<noteq> 0
        then (default_run_result\<lparr>rr_error := ''failed to create pod: '' @ trim (exec_output run_exec)\<rparr>, w1)
        else let (wait_exec, w2) = exec_capture env (kubectl_wait_line nm) w1 in
          if exit_code wait_exec \<noteq> 0
          then let (_, w3) = exec_capture env (kubectl_delete_pod_line nm) w2 in
            (default_run_result\<lparr>rr_error := ''pod did not become ready: '' @ trim (exec_output wait_exec)\<rparr>, w3)
          else let (expose_exec, w3) = exec_capture env (kubectl_expose_line nm container_port) w2 in
            if exit_code expose_exec \<noteq> 0
            then let (_, w4) = exec_capture env (kubectl_delete_pod_line nm) w3 in
              (default_run_result\<lparr>rr_error := ''failed to expose pod: '' @ trim (exec_output expose_exec)\<rparr>, w4)
            else (default_run_result\<lparr>rr_ok := True, rr_id := nm\<rparr>, w3))"

definition k8s_get_host_port :: "env \<Rightarrow> string \<Rightarrow> int \<Rightarrow> world \<Rightarrow> int \<times> world" where
  "k8s_get_host_port env i container_port w =
     (if \<not> is_safe_token i then (- 1, w)
      else let (exec, w1) = exec_capture env (kubectl_get_port_line i) w in
        if exit_code exec \<noteq> 0 then (- 1, w1)
        else (case stoi (trim (exec_output exec)) of Inl _ \<Rightarrow> (- 1, w1) | Inr p \<Rightarrow> (p, w1)))"

definition k8s_remove_container :: "env \<Rightarrow> string \<Rightarrow> world \<Rightarrow> bool \<times> world" where
  "k8s_remove_container env i w =
     (if \<not> is_safe_token i then (False, w)
      else let (_, w1) = exec_capture env (kubectl_delete_svc_line i) w;
               (exec, w2) = exec_capture env (kubectl_delete_pod_line i) w1 in
        (exit_code exec = 0, w2))"

definition kubernetes_backend :: "env \<Rightarrow> backend" where
  "kubernetes_backend env =
     \<lparr>run_container = k8s_run_container env,
      get_host_port = k8s_get_host_port env,
      remove_container = k8s_remove_container env\<rparr>"

section \<open>Generated names\<close>

lemma pod_name_safe: "is_safe_token (pod_name a c)"
proof -
  have "is_safe_token ''faas-''" "is_safe_token ''-''"
    by (simp_all add: is_safe_token_def safe_char_def is_alnum_def is_digit_def)
  then show ?thesis
    unfolding pod_name_def by (intro is_safe_token_append show_int_safe)
qed

lemma dash_not_in_show_nat: "CHR ''-'' \<notin> set (show_nat n)"
  using show_nat_digits [of n] by (auto simp: list_all_iff is_digit_def)

lemma pod_name_inj:
  assumes "0 \<le> c" "0 \<le> c'" "pod_name a c = pod_name a' c'"
  shows "c = c'"
proof -
  have split: "pod_name b d = (''faas-'' @ show_int (c_rem b 10000000)) @ CHR ''-'' # show_nat (nat d)"
    if "0 \<le> d" for b d
    using that by (simp add: pod_name_def show_int_def)
  have last: "find_last (CHR ''-'') (pod_name b d) = Some (length (''faas-'' @ show_int (c_rem b 10000000)))"
    if "0 \<le> d" for b d
    unfolding split [OF that] by (rule find_last_append) (rule dash_not_in_show_nat)
  have len: "length (''faas-'' @ show_int (c_rem a 10000000)) = length (''faas-'' @ show_int (c_rem a' 10000000))"
    using last [OF assms(1), of a] last [OF assms(2), of a'] assms(3) by simp
  have "show_nat (nat c) = show_nat (nat c')"
    using assms(3) len by (simp add: split [OF assms(1)] split [OF assms(2)])
  then show ?thesis using assms(1,2) by (simp add: show_nat_inj)
qed

lemma generate_pod_name_simps [simp]:
  "fst (generate_pod_name env w) = pod_name (ms_of_ns (e_now env (hist w))) (pod_counter w + 1)"
  "pod_counter (snd (generate_pod_name env w)) = pod_counter w + 1"
  "hist (snd (generate_pod_name env w)) = hist w @ [ClockRead]"
  by (simp_all add: generate_pod_name_def Let_def case_prod_beta)

section \<open>The contract is kept\<close>

lemmas k8s_defs = k8s_run_container_def k8s_get_host_port_def k8s_remove_container_def

lemma k8s_unsafe:
  "\<not> is_safe_token img \<Longrightarrow> k8s_run_container env img p w =
     (default_run_result\<lparr>rr_error := ''invalid image name: '' @ img\<rparr>, w)"
  "\<not> is_safe_token i \<Longrightarrow> k8s_get_host_port env i p w = (- 1, w)"
  "\<not> is_safe_token i \<Longrightarrow> k8s_remove_container env i w = (False, w)"
  by (simp_all add: k8s_defs)

lemma k8s_port_range:
  "- (2 ^ 31) \<le> fst (k8s_get_host_port env i p w) \<and> fst (k8s_get_host_port env i p w) < 2 ^ 31"
  by (auto simp: k8s_get_host_port_def Let_def case_prod_beta dest: stoi_range split: sum.splits)

lemma k8s_extends:
  "extends w (snd (k8s_run_container env img p w))"
  "extends w (snd (k8s_get_host_port env i p w))"
  "extends w (snd (k8s_remove_container env i w))"
  by (auto simp: extends_def k8s_defs Let_def case_prod_beta split: sum.splits)

lemma k8s_run_ok_name:
  "rr_ok (fst (k8s_run_container env img p w)) \<Longrightarrow>
     rr_id (fst (k8s_run_container env img p w)) = pod_name (ms_of_ns (e_now env (hist w))) (pod_counter w + 1)"
  by (auto simp: k8s_run_container_def Let_def case_prod_beta split: if_splits)

lemma k8s_run_counter:
  "pod_counter (snd (k8s_run_container env img p w)) =
     (if is_safe_token img then pod_counter w + 1 else pod_counter w)"
  by (auto simp: k8s_run_container_def Let_def case_prod_beta)

interpretation k8s: container_backend
  "k8s_run_container env" "k8s_get_host_port env" "k8s_remove_container env"
  "\<lambda>i. kubectl_delete_pod_line i @ '' 2>&1''" for env
proof unfold_locales
  show "is_safe_token i \<Longrightarrow> Shell (kubectl_delete_pod_line i @ '' 2>&1'')
      \<in> set (new_effects w (snd (k8s_remove_container env i w)))" for i w
    by (simp add: k8s_remove_container_def case_prod_beta Let_def new_effects_def)
  show "\<not> rr_ok (fst (k8s_run_container env img p w)) \<Longrightarrow>
      rr_id (fst (k8s_run_container env img p w)) = ''''" for img p w
    by (auto simp: k8s_run_container_def default_run_result_def case_prod_beta Let_def split: if_splits)
qed (use k8s_port_range in \<open>simp_all add: k8s_extends k8s_unsafe\<close>)

end
