(* ===== verification/Runtime_Backend.thy ===== *)
theory Runtime_Backend
  imports Docker_Client Kubernetes_Client
begin

text \<open>
  \<^verbatim>\<open>make_runtime_backend\<close> of \<^verbatim>\<open>control-plane/src/main.cpp\<close>: which backend the control plane runs
  on, from the value of the environment variable \<^verbatim>\<open>FAAS_RUNTIME_BACKEND\<close>. Whatever the choice,
  the backend keeps the contract.
\<close>

definition is_kubernetes :: "string option \<Rightarrow> bool" where
  "is_kubernetes kind_env =
     (let kind = (case kind_env of None \<Rightarrow> ''docker'' | Some v \<Rightarrow> v)
      in kind = ''kubernetes'' \<or> kind = ''k8s'')"

definition make_runtime_backend :: "string option \<Rightarrow> env \<Rightarrow> backend" where
  "make_runtime_backend kind_env env =
     (if is_kubernetes kind_env then kubernetes_backend env else docker_backend env)"

text \<open>The command line with which the chosen backend destroys a runtime.\<close>

definition rm_command :: "string option \<Rightarrow> string \<Rightarrow> string" where
  "rm_command kind_env i =
     (if is_kubernetes kind_env then kubectl_delete_pod_line i else docker_rm_line i) @ '' 2>&1''"

locale managed_backend = container_backend "run_container be" "get_host_port be" "remove_container be" rm_line
  for be :: backend and rm_line

interpretation chosen: managed_backend "make_runtime_backend kind_env env" "rm_command kind_env" for kind_env env
proof (cases "is_kubernetes kind_env")
  case True
  then have "rm_command kind_env = (\<lambda>i. kubectl_delete_pod_line i @ '' 2>&1'')"
    by (simp add: rm_command_def fun_eq_iff)
  then show "managed_backend (make_runtime_backend kind_env env) (rm_command kind_env)"
    using True k8s.container_backend_axioms
    by (simp add: managed_backend_def make_runtime_backend_def kubernetes_backend_def)
next
  case False
  then have "rm_command kind_env = (\<lambda>i. docker_rm_line i @ '' 2>&1'')"
    by (simp add: rm_command_def fun_eq_iff)
  then show "managed_backend (make_runtime_backend kind_env env) (rm_command kind_env)"
    using False docker.container_backend_axioms
    by (simp add: managed_backend_def make_runtime_backend_def docker_backend_def)
qed

end
