(* ===== verification/Http_Text.thy ===== *)
theory Http_Text
  imports Prelude
begin

text \<open>
  The parts of \<^verbatim>\<open>std::istream\<close> the HTTP client and server use to take a message apart
  (\<^verbatim>\<open>std::getline\<close>, \<^verbatim>\<open>operator>>\<close>), and lemmas on messages that are a sequence of lines
  ended by CR LF, an empty line and a body.
\<close>

section \<open>Definitions\<close>

text \<open>
  The lines that repeated \<^verbatim>\<open>std::getline\<close> calls give: everything up to the next line feed,
  until nothing is left.
\<close>

function get_lines :: "string \<Rightarrow> string list" where
  "get_lines [] = []"
| "get_lines (c # s) = takeWhile (\<lambda>x. x \<noteq> LF) (c # s) # get_lines (drop 1 (dropWhile (\<lambda>x. x \<noteq> LF) (c # s)))"
  by pat_completeness auto
termination
proof (relation "measure length")
  show "(drop 1 (dropWhile (\<lambda>x. x \<noteq> LF) (c # s)), c # s) \<in> measure length" for c s
    using length_dropWhile_le [of "\<lambda>x. x \<noteq> LF" "c # s"] by simp
qed simp

text \<open>\<^verbatim>\<open>if (!line.empty() && line.back() == '\r') line.pop_back();\<close>\<close>

definition strip_cr :: "string \<Rightarrow> string" where
  "strip_cr line = (if line \<noteq> [] \<and> last line = CR then butlast line else line)"

text \<open>\<^verbatim>\<open>stream >> word\<close>: the next word and what is left.\<close>

definition read_word :: "string \<Rightarrow> string \<times> string" where
  "read_word s = (let t = dropWhile is_space s
     in (takeWhile (\<lambda>c. \<not> is_space c) t, dropWhile (\<lambda>c. \<not> is_space c) t))"

text \<open>
  \<^verbatim>\<open>stream >> n\<close> for an \<^verbatim>\<open>int\<close>: 0 when there is no number, the nearest bound when it is out
  of range.
\<close>

definition read_int :: "string \<Rightarrow> int" where
  "read_int s = (case scan_number s of Inl _ \<Rightarrow> 0
     | Inr p \<Rightarrow> max (- (2 ^ 31)) (min (2 ^ 31 - 1) (signed_of p)))"

text \<open>\<^verbatim>\<open>while (!value.empty() && value.front() == ' ') value.erase(value.begin());\<close>\<close>

fun drop_spaces :: "string \<Rightarrow> string" where
  "drop_spaces [] = []"
| "drop_spaces (c # s) = (if c = CHR '' '' then drop_spaces s else c # s)"

abbreviation (input) CRLF2 :: string where "CRLF2 \<equiv> [CR, LF, CR, LF]"

section \<open>Messages made of lines\<close>

definition crlf_lines :: "string list \<Rightarrow> string" where
  "crlf_lines ls = concat (map (\<lambda>l. l @ CRLF) ls)"

definition plain_line :: "string \<Rightarrow> bool" where
  "plain_line l \<longleftrightarrow> l \<noteq> [] \<and> CR \<notin> set l \<and> LF \<notin> set l"

lemma crlf_lines_simps [simp]:
  "crlf_lines [] = []" "crlf_lines (l # ls) = l @ CR # LF # crlf_lines ls"
  by (simp_all add: crlf_lines_def)

lemma find_sub_skip:
  assumes "CR \<notin> set l"
  shows "find_sub CRLF2 (l @ s) = map_option (\<lambda>n. n + length l) (find_sub CRLF2 s)"
  using assms
proof (induction l)
  case Nil
  then show ?case by (simp add: option.map_ident)
next
  case (Cons c l)
  then have "\<not> prefix CRLF2 (c # l @ s)" by auto
  with Cons show ?case by (simp add: option.map_comp o_def)
qed

lemma find_sub_crlf_line:
  assumes "plain_line l"
  shows "find_sub CRLF2 (CR # LF # l @ s) = map_option (\<lambda>n. n + length l + 2) (find_sub CRLF2 s)"
proof -
  from assms obtain c l' where l: "l = c # l'" "c \<noteq> CR" "CR \<notin> set l"
    by (cases l) (auto simp: plain_line_def)
  then have "\<not> prefix CRLF2 (CR # LF # l @ s)" "\<not> prefix CRLF2 (LF # l @ s)" by auto
  then have "find_sub CRLF2 (CR # LF # l @ s) = map_option (\<lambda>n. n + 2) (find_sub CRLF2 (l @ s))"
    by (simp add: option.map_comp o_def del: append_Cons)
  then show ?thesis
    using l(3) by (simp add: find_sub_skip option.map_comp o_def)
qed

lemma find_sub_message_tail:
  assumes "list_all plain_line ls"
  shows "find_sub CRLF2 (CR # LF # crlf_lines ls @ CR # LF # body) = Some (length (crlf_lines ls))"
  using assms
proof (induction ls)
  case Nil
  then show ?case by simp
next
  case (Cons l ls)
  have eq: "CR # LF # crlf_lines (l # ls) @ CR # LF # body
      = CR # LF # l @ (CR # LF # crlf_lines ls @ CR # LF # body)" by simp
  from Cons have "plain_line l" by simp
  from find_sub_crlf_line [OF this, of "CR # LF # crlf_lines ls @ CR # LF # body"] Cons
  show ?case unfolding eq by simp
qed

text \<open>The header terminator of a message is where its lines end.\<close>

lemma find_sub_message:
  assumes "plain_line l" "list_all plain_line ls"
  shows "find_sub CRLF2 (crlf_lines (l # ls) @ CRLF @ body) = Some (length l + length (crlf_lines ls))"
  using find_sub_skip [of l "CR # LF # crlf_lines ls @ CR # LF # body"] find_sub_message_tail [OF assms(2), of body]
    assms(1) by (simp add: plain_line_def add.commute)

lemma get_lines_step:
  assumes "LF \<notin> set l"
  shows "get_lines (l @ LF # s) = l # get_lines s"
proof -
  have "takeWhile (\<lambda>x. x \<noteq> LF) (l @ LF # s) = l" "dropWhile (\<lambda>x. x \<noteq> LF) (l @ LF # s) = LF # s"
    using assms by (auto simp: takeWhile_append dropWhile_append)
  then show ?thesis by (cases l) simp_all
qed

lemma get_lines_single: "l \<noteq> [] \<Longrightarrow> LF \<notin> set l \<Longrightarrow> get_lines l = [l]"
proof -
  assume a: "l \<noteq> []" "LF \<notin> set l"
  then have "takeWhile (\<lambda>x. x \<noteq> LF) l = l" "dropWhile (\<lambda>x. x \<noteq> LF) l = []"
    by (auto simp: takeWhile_eq_all_conv dropWhile_eq_Nil_conv)
  with a show ?thesis by (cases l) simp_all
qed

text \<open>
  The block before the terminator: every line but the last keeps its CR, which is stripped
  afterwards.
\<close>

definition header_block :: "string \<Rightarrow> string list \<Rightarrow> string" where
  "header_block l ls = take (length l + length (crlf_lines ls)) (crlf_lines (l # ls))"

lemma header_block_simps:
  "header_block l [] = l"
  "header_block l (k # ls) = l @ CR # LF # header_block k ls"
  by (simp_all add: header_block_def)

lemma strip_cr_snoc [simp]: "strip_cr (l @ [CR]) = l"
  by (simp add: strip_cr_def)

lemma strip_cr_plain [simp]: "plain_line l \<Longrightarrow> strip_cr l = l"
  by (auto simp: strip_cr_def plain_line_def dest: last_in_set)

lemma get_lines_header_block:
  "plain_line l \<Longrightarrow> list_all plain_line ls \<Longrightarrow> map strip_cr (get_lines (header_block l ls)) = l # ls"
proof (induction ls arbitrary: l)
  case Nil
  then have "get_lines l = [l]" by (simp add: plain_line_def get_lines_single)
  with Nil show ?case by (simp add: header_block_simps)
next
  case (Cons k ls)
  from Cons.prems have "LF \<notin> set (l @ [CR])" by (simp add: plain_line_def)
  from get_lines_step [OF this, of "header_block k ls"] Cons show ?case
    by (simp add: header_block_simps)
qed

lemma drop_spaces_dropWhile: "drop_spaces s = dropWhile (\<lambda>c. c = CHR '' '') s"
  by (induction s) auto

lemma read_word_plain:
  assumes "w \<noteq> []" "list_all (\<lambda>c. \<not> is_space c) w" "s = [] \<or> is_space (hd s)"
  shows "read_word (w @ s) = (w, s)"
proof -
  from assms(1,2) have "dropWhile is_space (w @ s) = w @ s"
    by (cases w) auto
  moreover have "takeWhile (\<lambda>c. \<not> is_space c) (w @ s) = w"
    using assms(2,3) by (cases s) (auto simp: list_all_iff takeWhile_append takeWhile_eq_all_conv)
  moreover have "dropWhile (\<lambda>c. \<not> is_space c) (w @ s) = s"
    using assms(2,3) by (cases s) (auto simp: list_all_iff dropWhile_append)
  ultimately show ?thesis by (simp add: read_word_def)
qed

lemma read_word_blank: "is_space b \<Longrightarrow> read_word (b # s) = read_word s"
  by (simp add: read_word_def)

lemma read_int_show:
  assumes "0 \<le> n" "n < 2 ^ 31" "s = [] \<or> \<not> is_digit (hd s)" "is_space b"
  shows "read_int (b # show_int n @ s) = n"
proof -
  obtain c cs where sn: "show_nat (nat n) = c # cs" using show_nat_Cons by blast
  have "takeWhile is_digit (show_nat (nat n) @ s) = show_nat (nat n)"
    using assms(3) show_nat_digits [of "nat n"]
    by (cases s) (auto simp: list_all_iff takeWhile_append takeWhile_eq_all_conv)
  then have "scan_number (show_nat (nat n) @ s) = Inr (False, nat n)"
    using scan_number_digits [of "show_nat (nat n) @ s" c cs] sn digits_val_show_nat [of "nat n"] by simp
  moreover have "scan_number (b # show_nat (nat n) @ s) = scan_number (show_nat (nat n) @ s)"
    using assms(4) by (simp add: scan_number_def)
  ultimately show ?thesis
    using assms(1,2) by (simp add: read_int_def show_int_def signed_of_def)
qed

end
