(* ===== verification/Http_Client.thy ===== *)
theory Http_Client
  imports World Http_Text
begin

text \<open>
  \<^verbatim>\<open>common/src/http_client.cpp\<close>: one HTTP request over a fresh connection. The other side is
  the \<open>peer\<close> the environment gives for the connection. A call that blocks for ever does
  not return: \<open>request\<close> is \<^const>\<open>None\<close> then.
\<close>

section \<open>Definitions\<close>

record client_response =
  cr_status :: int
  cr_headers :: "(string, string) omap"
  cr_body :: string
  cr_ok :: bool
  cr_timed_out :: bool
  cr_error :: string

definition default_response :: client_response where
  "default_response = \<lparr>cr_status = 0, cr_headers = [], cr_body = '''', cr_ok = False,
     cr_timed_out = False, cr_error = ''''\<rparr>"

text \<open>The \<^verbatim>\<open>timeval\<close> of a timeout, set for receiving and sending when it is positive.\<close>

definition timeval_of :: "int \<Rightarrow> (int \<times> int) option" where
  "timeval_of timeout_ms =
     (if timeout_ms > 0 then Some (timeout_ms div 1000, (timeout_ms mod 1000) * 1000) else None)"

definition request_bytes :: "string \<Rightarrow> string \<Rightarrow> string \<Rightarrow> string \<Rightarrow> string \<Rightarrow> string" where
  "request_bytes host method path body content_type =
     method @ '' '' @ path @ '' HTTP/1.1'' @ CRLF
     @ ''Host: '' @ host @ CRLF
     @ ''Connection: close'' @ CRLF
     @ (if body \<noteq> [] then
          ''Content-Type: '' @ content_type @ CRLF
          @ ''Content-Length: '' @ show_nat (length body) @ CRLF
        else [])
     @ CRLF @ body"

text \<open>
  The receive loop: bytes are appended until the stream ends or fails; the flag is
  \<^verbatim>\<open>recv_timed_out\<close>. With no timeout a silent peer blocks the caller for ever.
\<close>

partial_function (option) recv_all ::
  "(nat \<Rightarrow> recv_result) \<Rightarrow> bool \<Rightarrow> nat \<Rightarrow> string \<Rightarrow> (string \<times> bool) option" where
  "recv_all r has_timeout i data =
     (case r i of
        Bytes bs \<Rightarrow> if bs = [] then Some (data, False) else recv_all r has_timeout (Suc i) (data @ bs)
      | RecvError \<Rightarrow> Some (data, False)
      | Silent \<Rightarrow> if has_timeout then Some (data, True) else None)"

declare recv_all.simps [code]

fun client_headers :: "string list \<Rightarrow> (string, string) omap \<Rightarrow> (string, string) omap" where
  "client_headers [] hs = hs"
| "client_headers (line # ls) hs =
     (let header_line = strip_cr line in
      case find_char (CHR '':'') header_line of
        None \<Rightarrow> client_headers ls hs
      | Some colon \<Rightarrow>
          client_headers ls
            (om_put (take colon header_line) (drop_spaces (drop (colon + 1) header_line)) hs))"

text \<open>What is made of the bytes received, once the loop has ended without a timeout.\<close>

definition parse_response :: "string \<Rightarrow> client_response" where
  "parse_response data =
     (if data = [] then default_response\<lparr>cr_error := ''empty response from server''\<rparr>
      else case find_sub CRLF2 data of
        None \<Rightarrow> default_response\<lparr>cr_error := ''malformed response''\<rparr>
      | Some header_end \<Rightarrow>
          let lines = get_lines (take header_end data);
              status_line = (case lines of [] \<Rightarrow> [] | l # _ \<Rightarrow> l);
              (version, rest) = read_word status_line
          in default_response
               \<lparr>cr_status := (if version = [] then 0 else read_int rest),
                cr_headers := client_headers (drop 1 lines) [],
                cr_body := drop (header_end + 4) data,
                cr_ok := True\<rparr>)"

definition request ::
  "env \<Rightarrow> string \<Rightarrow> int \<Rightarrow> string \<Rightarrow> string \<Rightarrow> string \<Rightarrow> string \<Rightarrow> int \<Rightarrow> world \<Rightarrow> (client_response \<times> world) option" where
  "request env host port method path body content_type timeout_ms w =
     (let peer = e_peer env (hist w) host (port mod 65536);
          fail = (\<lambda>msg w. Some (default_response\<lparr>cr_error := msg\<rparr>, w))
      in if \<not> p_socket peer then fail ''failed to create socket'' w
      else if \<not> p_pton peer \<and> \<not> p_resolve peer then fail (''could not resolve host: '' @ host) w
      else let w1 = emit (Connect host (port mod 65536) (timeval_of timeout_ms)) w in
        if \<not> p_connect peer then fail (''connection refused at '' @ host @ '':'' @ show_int port) w1
        else let req = request_bytes host method path body content_type; w2 = emit (Send req) w1 in
          if \<not> p_send peer req then fail ''failed to send request'' w2
          else case recv_all (p_recv peer req) (timeval_of timeout_ms \<noteq> None) 0 [] of
            None \<Rightarrow> None
          | Some (data, recv_timed_out) \<Rightarrow>
              if recv_timed_out
              then Some (default_response\<lparr>cr_timed_out := True,
                     cr_error := ''request timed out after '' @ show_int timeout_ms @ ''ms''\<rparr>, w2)
              else Some (parse_response data, w2))"

definition client_get :: "env \<Rightarrow> string \<Rightarrow> int \<Rightarrow> string \<Rightarrow> int \<Rightarrow> world \<Rightarrow> (client_response \<times> world) option" where
  "client_get env host port path timeout_ms w = request env host port ''GET'' path '''' '''' timeout_ms w"

definition client_post ::
  "env \<Rightarrow> string \<Rightarrow> int \<Rightarrow> string \<Rightarrow> string \<Rightarrow> string \<Rightarrow> int \<Rightarrow> world \<Rightarrow> (client_response \<times> world) option" where
  "client_post env host port path body content_type timeout_ms w =
     request env host port ''POST'' path body content_type timeout_ms w"

definition client_del :: "env \<Rightarrow> string \<Rightarrow> int \<Rightarrow> string \<Rightarrow> int \<Rightarrow> world \<Rightarrow> (client_response \<times> world) option" where
  "client_del env host port path timeout_ms w = request env host port ''DELETE'' path '''' '''' timeout_ms w"

section \<open>The receive loop\<close>

text \<open>The \<open>n\<close>-th \<^verbatim>\<open>recv\<close> ends the loop.\<close>

definition stops :: "bool \<Rightarrow> recv_result \<Rightarrow> bool" where
  "stops has_timeout x = (case x of Bytes bs \<Rightarrow> bs = [] | RecvError \<Rightarrow> True | Silent \<Rightarrow> has_timeout)"

lemma recv_all_Some_stops:
  assumes "recv_all r t i data = Some x"
  shows "\<exists>n \<ge> i. stops t (r n)"
proof (rule recv_all.raw_induct [where P = "\<lambda>r t i data x. \<exists>n \<ge> i. stops t (r n)", OF _ assms])
  fix f r t i data x
  assume IH: "\<And>r t i data x. f r t i data = Some x \<Longrightarrow> \<exists>n \<ge> i. stops t (r n)"
    and eq: "(case r i of
        Bytes bs \<Rightarrow> if bs = [] then Some (data, False) else f r t (Suc i) (data @ bs)
      | RecvError \<Rightarrow> Some (data, False)
      | Silent \<Rightarrow> if t then Some (data, True) else None) = Some x"
  show "\<exists>n \<ge> i. stops t (r n)"
  proof (cases "stops t (r i)")
    case False
    with eq obtain bs where "f r t (Suc i) (data @ bs) = Some x"
      by (auto simp: stops_def split: recv_result.splits if_splits)
    from IH [OF this] show ?thesis by (metis Suc_leD)
  qed blast
qed

lemma recv_all_chunks:
  assumes "\<And>j. j < length bss \<Longrightarrow> r (i + j) = Bytes (bss ! j)" "list_all (\<lambda>b. b \<noteq> []) bss"
  shows "recv_all r t i data = recv_all r t (i + length bss) (data @ concat bss)"
  using assms
proof (induction bss arbitrary: i data)
  case (Cons b bss)
  from Cons.prems(1) [of 0] have "r i = Bytes b" by simp
  with Cons.prems(2) have "recv_all r t i data = recv_all r t (Suc i) (data @ b)"
    by (subst recv_all.simps) simp
  also have "\<dots> = recv_all r t (Suc i + length bss) ((data @ b) @ concat bss)"
  proof (rule Cons.IH)
    show "r (Suc i + j) = Bytes (bss ! j)" if "j < length bss" for j
      using Cons.prems(1) [of "Suc j"] that by simp
  qed (use Cons.prems(2) in simp)
  finally show ?case by simp
qed simp

lemma recv_all_timed_returns:
  "stops True (r (i + n)) \<Longrightarrow> recv_all r True i data \<noteq> None"
proof (induction n arbitrary: i data)
  case 0
  then show ?case
    by (subst recv_all.simps) (auto simp: stops_def split: recv_result.splits)
next
  case (Suc n)
  then have "recv_all r True (Suc i) d \<noteq> None" for d by simp
  then show ?case
    by (subst recv_all.simps) (auto split: recv_result.splits)
qed

lemma recv_all_timed_returns_iff: "recv_all r True 0 data \<noteq> None \<longleftrightarrow> (\<exists>n. stops True (r n))"
  using recv_all_Some_stops [of r True 0 data] recv_all_timed_returns [of r 0 _ data] by auto

text \<open>The whole stream in one piece, then its end, an error, or silence.\<close>

lemma recv_all_stream:
  assumes "\<And>j. j < length bss \<Longrightarrow> r j = Bytes (bss ! j)" "list_all (\<lambda>b. b \<noteq> []) bss"
    and "stops t (r (length bss))"
  shows "recv_all r t 0 [] = Some (concat bss, r (length bss) = Silent)"
proof -
  have "recv_all r t 0 [] = recv_all r t (length bss) (concat bss)"
    using recv_all_chunks [of bss r 0 t "[]"] assms(1,2) by simp
  also have "\<dots> = Some (concat bss, r (length bss) = Silent)"
    using assms(3) by (subst recv_all.simps) (auto simp: stops_def split: recv_result.splits)
  finally show ?thesis .
qed

section \<open>Outcomes of a request\<close>

lemma request_world:
  assumes "request env host port m path body ct t w = Some (r, w')"
  shows "extends w w'" and "pod_counter w' = pod_counter w"
  using assms
  by (auto simp: request_def extends_def Let_def split: if_splits option.splits prod.splits)

lemma request_ok_hist:
  assumes "request env host port m path body ct t w = Some (r, w')" "cr_ok r"
  shows "hist w' = hist w @ [Connect host (port mod 65536) (timeval_of t), Send (request_bytes host m path body ct)]"
  using assms
  by (auto simp: request_def Let_def default_response_def split: if_splits option.splits prod.splits)

text \<open>A response is complete, or timed out, or carries an error: never two of them.\<close>

definition outcome_ok :: "client_response \<Rightarrow> bool" where
  "outcome_ok r \<longleftrightarrow> (cr_ok r \<longrightarrow> \<not> cr_timed_out r) \<and> (cr_ok r \<longleftrightarrow> cr_error r = '''')"

lemma parse_response_outcome: "outcome_ok (parse_response d)"
  by (auto simp: outcome_ok_def parse_response_def default_response_def Let_def case_prod_beta split: option.split)

lemma request_outcome:
  assumes "request env host port m path body ct t w = Some (r, w')"
  shows "outcome_ok r"
proof -
  have "outcome_ok (default_response\<lparr>cr_error := e\<rparr>)" if "e \<noteq> ''''" for e
    using that by (simp add: outcome_ok_def default_response_def)
  moreover have "outcome_ok (default_response\<lparr>cr_timed_out := True, cr_error := e\<rparr>)" if "e \<noteq> ''''" for e
    using that by (simp add: outcome_ok_def default_response_def)
  ultimately show ?thesis
    using assms parse_response_outcome
    by (auto simp: request_def Let_def split: if_splits option.splits prod.splits)
qed

text \<open>
  A peer that does not keep sending for ever: with a timeout set, the request returns.
\<close>

definition finite_peer :: "peer \<Rightarrow> bool" where
  "finite_peer p \<longleftrightarrow> (\<forall>req. \<exists>n. stops True (p_recv p req n))"

lemma request_returns:
  assumes "t > 0" "finite_peer (e_peer env (hist w) host (port mod 65536))"
  shows "request env host port m path body ct t w \<noteq> None"
proof -
  let ?p = "e_peer env (hist w) host (port mod 65536)"
  have "recv_all (p_recv ?p req) (timeval_of t \<noteq> None) 0 [] \<noteq> None" for req
    using assms recv_all_timed_returns_iff [of "p_recv ?p req" "[]"]
    by (simp add: timeval_of_def finite_peer_def)
  then obtain d b where "recv_all (p_recv ?p (request_bytes host m path body ct))
      (timeval_of t \<noteq> None) 0 [] = Some (d, b)"
    by (metis not_None_eq surj_pair)
  then show ?thesis
    by (simp add: request_def Let_def)
qed

text \<open>With a timeout, a silent peer that accepts the request makes the call time out.\<close>

lemma request_times_out:
  assumes "t > 0" and p: "p = e_peer env (hist w) host (port mod 65536)"
    and up: "p_socket p" "p_pton p" "p_connect p" "p_send p (request_bytes host m path body ct)"
    and silent: "p_recv p (request_bytes host m path body ct) 0 = Silent"
  shows "\<exists>r w'. request env host port m path body ct t w = Some (r, w') \<and> cr_timed_out r \<and> \<not> cr_ok r"
proof -
  have "recv_all (p_recv p (request_bytes host m path body ct)) True 0 [] = Some ([], True)"
    using silent by (subst recv_all.simps) simp
  then show ?thesis
    using assms by (simp add: request_def Let_def timeval_of_def default_response_def)
qed

section \<open>When a request returns\<close>

text \<open>The loop ends at the first \<^verbatim>\<open>recv\<close> that is not a piece of the stream, if that ends it.\<close>

definition piece :: "recv_result \<Rightarrow> bool" where
  "piece x = (case x of Bytes bs \<Rightarrow> bs \<noteq> [] | _ \<Rightarrow> False)"

definition bytes_of :: "recv_result \<Rightarrow> string" where
  "bytes_of x = (case x of Bytes bs \<Rightarrow> bs | _ \<Rightarrow> [])"

lemma recv_all_SomeD:
  assumes "recv_all r t i data = Some x"
  shows "\<exists>n \<ge> i. stops t (r n) \<and> (\<forall>j. i \<le> j \<and> j < n \<longrightarrow> piece (r j))"
proof (rule recv_all.raw_induct [where P = "\<lambda>r t i data x. \<exists>n \<ge> i. stops t (r n) \<and> (\<forall>j. i \<le> j \<and> j < n \<longrightarrow> piece (r j))", OF _ assms])
  fix f r t i data x
  assume IH: "\<And>r t i data x. f r t i data = Some x \<Longrightarrow> \<exists>n \<ge> i. stops t (r n) \<and> (\<forall>j. i \<le> j \<and> j < n \<longrightarrow> piece (r j))"
    and eq: "(case r i of
        Bytes bs \<Rightarrow> if bs = [] then Some (data, False) else f r t (Suc i) (data @ bs)
      | RecvError \<Rightarrow> Some (data, False)
      | Silent \<Rightarrow> if t then Some (data, True) else None) = Some x"
  show "\<exists>n \<ge> i. stops t (r n) \<and> (\<forall>j. i \<le> j \<and> j < n \<longrightarrow> piece (r j))"
  proof (cases "stops t (r i)")
    case False
    with eq obtain bs where bs: "f r t (Suc i) (data @ bs) = Some x" "piece (r i)"
      by (auto simp: stops_def piece_def split: recv_result.splits if_splits)
    from IH [OF bs(1)] obtain n where n: "n \<ge> Suc i" "stops t (r n)" "\<forall>j. Suc i \<le> j \<and> j < n \<longrightarrow> piece (r j)"
      by blast
    with bs(2) have "\<forall>j. i \<le> j \<and> j < n \<longrightarrow> piece (r j)" by (metis Suc_leI le_neq_implies_less)
    with n show ?thesis by (metis Suc_leD)
  next
    case True
    then show ?thesis by (metis leD order_refl)
  qed
qed

lemma recv_all_returns:
  assumes "stops t (r n)" "\<forall>j < n. piece (r j)"
  shows "recv_all r t 0 [] = Some (concat (map (\<lambda>j. bytes_of (r j)) [0..<n]), r n = Silent)"
proof -
  let ?bss = "map (\<lambda>j. bytes_of (r j)) [0..<n]"
  have "r j = Bytes (?bss ! j)" if "j < length ?bss" for j
    using assms(2) that by (auto simp: piece_def bytes_of_def split: recv_result.splits)
  moreover have "list_all (\<lambda>b. b \<noteq> []) ?bss"
    using assms(2) by (auto simp: list_all_iff piece_def bytes_of_def split: recv_result.splits)
  ultimately show ?thesis using recv_all_stream [of ?bss r t] assms(1) by simp
qed

lemma recv_all_iff:
  "recv_all r t 0 [] \<noteq> None \<longleftrightarrow> (\<exists>n. stops t (r n) \<and> (\<forall>j < n. piece (r j)))"
  using recv_all_SomeD [of r t 0 "[]"] recv_all_returns [of t r] by fastforce

end
