(* ===== verification/Double.thy ===== *)
theory Double
  imports Complex_Main Prelude
begin

text \<open>
  What the program uses of \<^verbatim>\<open>double\<close>: the bit patterns of IEEE binary64, the conversion from
  text (\<^verbatim>\<open>std::stod\<close>) and to text (\<^verbatim>\<open>operator<<\<close> of a stream with its default precision). Both
  conversions go through exact ratios of integers, so they are computed and not approximated.
\<close>

section \<open>Definitions\<close>

fun bit_len :: "int \<Rightarrow> nat" where
  "bit_len n = (if n \<le> 0 then 0 else Suc (bit_len (n div 2)))"

declare bit_len.simps [simp del]

text \<open>Rounding half to even of \<open>a / d\<close>.\<close>

definition div_half_even :: "int \<Rightarrow> int \<Rightarrow> int" where
  "div_half_even a d =
     (let q = a div d; r = a mod d
      in if d < 2 * r \<or> (2 * r = d \<and> odd q) then q + 1 else q)"

subsection \<open>Bit patterns\<close>

definition dbl_neg :: "c_double \<Rightarrow> bool" where
  "dbl_neg x \<longleftrightarrow> 2 ^ 63 \<le> uint x"

definition dbl_mag :: "c_double \<Rightarrow> int" where
  "dbl_mag x = uint x mod 2 ^ 63"

text \<open>Significand and exponent of the magnitude with the given 63 bits.\<close>

definition mag_parts :: "int \<Rightarrow> int \<times> int" where
  "mag_parts n =
     (if n div 2 ^ 52 = 0 then (n, - 1074) else (2 ^ 52 + n mod 2 ^ 52, n div 2 ^ 52 - 1075))"

definition kInfinity :: int where "kInfinity = 2047 * 2 ^ 52"

definition dbl_finite :: "c_double \<Rightarrow> bool" where
  "dbl_finite x \<longleftrightarrow> dbl_mag x < kInfinity"

definition dbl_ratio :: "c_double \<Rightarrow> int \<times> int" where
  "dbl_ratio x = (let (m, k) = mag_parts (dbl_mag x) in (m * 2 ^ nat k, 2 ^ nat (- k)))"

definition dbl_of_bits :: "bool \<Rightarrow> int \<Rightarrow> c_double" where
  "dbl_of_bits neg n = word_of_int (if neg then n + 2 ^ 63 else n)"

subsection \<open>Rounding a ratio\<close>

text \<open>\<open>a / (b * 2 ^ q)\<close> as a ratio, the integer part of the logarithm, and the exponent of the last place.\<close>

definition over_power :: "int \<Rightarrow> int \<Rightarrow> int \<Rightarrow> int \<times> int" where
  "over_power a b q = (a * 2 ^ nat (- q), b * 2 ^ nat q)"

definition log2_floor :: "int \<Rightarrow> int \<Rightarrow> int" where
  "log2_floor a b =
     (let g = int (bit_len a) - int (bit_len b); (a', b') = over_power a b g
      in if b' \<le> a' then g else g - 1)"

definition last_place :: "int \<Rightarrow> int \<Rightarrow> int" where
  "last_place a b = max (log2_floor a b - 52) (- 1074)"

definition round_bits :: "int \<Rightarrow> int \<Rightarrow> int" where
  "round_bits a b =
     (if a = 0 then 0
      else let q = last_place a b; (a', b') = over_power a b q
        in div_half_even a' b' + (q + 1074) * 2 ^ 52)"

definition rounds_exactly :: "int \<Rightarrow> int \<Rightarrow> bool" where
  "rounds_exactly a b \<longleftrightarrow> a = 0 \<or> (let (a', b') = over_power a b (last_place a b) in a' mod b' = 0)"

text \<open>
  \<^verbatim>\<open>strtod\<close> reports a range error for a result that is too large, and for one that is too small
  to be a normal number and not exact (which C leaves to the implementation; this is what
  glibc does).
\<close>

definition double_of_ratio :: "bool \<Rightarrow> int \<Rightarrow> int \<Rightarrow> cxx_error + c_double" where
  "double_of_ratio neg a b =
     (let n = round_bits a b in
      if kInfinity \<le> n then Inl OutOfRange
      else if n < 2 ^ 52 \<and> \<not> rounds_exactly a b then Inl OutOfRange
      else Inr (dbl_of_bits neg n))"

subsection \<open>From text\<close>

definition to_lower :: "char \<Rightarrow> char" where
  "to_lower c = (if 65 \<le> (of_char c :: nat) \<and> (of_char c :: nat) \<le> 90 then char_of ((of_char c :: nat) + 32) else c)"

definition is_hex :: "char \<Rightarrow> bool" where
  "is_hex c \<longleftrightarrow> is_digit c \<or> 97 \<le> (of_char (to_lower c) :: nat) \<and> (of_char (to_lower c) :: nat) \<le> 102"

definition hex_val :: "char \<Rightarrow> nat" where
  "hex_val c = (if is_digit c then digit_val c else of_char (to_lower c) - 87)"

definition hexes_val :: "string \<Rightarrow> nat" where
  "hexes_val s = foldl (\<lambda>acc c. acc * 16 + hex_val c) 0 s"

text \<open>Digits before and after the point, and what follows.\<close>

definition scan_mantissa :: "(char \<Rightarrow> bool) \<Rightarrow> string \<Rightarrow> string \<times> string \<times> string" where
  "scan_mantissa dig s =
     (let ip = takeWhile dig s; r = dropWhile dig s in
      case r of
        [] \<Rightarrow> (ip, [], [])
      | c # t \<Rightarrow> if c = CHR ''.'' then (ip, takeWhile dig t, dropWhile dig t) else (ip, [], r))"

text \<open>An exponent counts only with its marker and at least one digit.\<close>

definition scan_exponent :: "char \<Rightarrow> string \<Rightarrow> int" where
  "scan_exponent mark s =
     (case s of
        [] \<Rightarrow> 0
      | c # t \<Rightarrow>
          if to_lower c = mark
          then (let (neg, u) = scan_sign t; ds = takeWhile is_digit u
                in if ds = [] then 0 else signed_of (neg, digits_val ds))
          else 0)"

datatype float_text = NoNumber | Infinite bool | NotANumber bool | Ratio bool int int

definition scan_hex :: "bool \<Rightarrow> string \<Rightarrow> float_text" where
  "scan_hex neg s =
     (let (ip, fp, r) = scan_mantissa is_hex s; e = scan_exponent (CHR ''p'') r - 4 * int (length fp)
      in if ip @ fp = [] then NoNumber
         else Ratio neg (int (hexes_val (ip @ fp)) * 2 ^ nat e) (2 ^ nat (- e)))"

definition scan_decimal :: "bool \<Rightarrow> string \<Rightarrow> float_text" where
  "scan_decimal neg s =
     (let (ip, fp, r) = scan_mantissa is_digit s; e = scan_exponent (CHR ''e'') r - int (length fp)
      in if ip @ fp = [] then NoNumber
         else Ratio neg (int (digits_val (ip @ fp)) * 10 ^ nat e) (10 ^ nat (- e)))"

definition scan_float :: "string \<Rightarrow> float_text" where
  "scan_float s =
     (let (neg, t) = scan_sign (dropWhile is_space s); l = map to_lower t in
      if prefix ''inf'' l then Infinite neg
      else if prefix ''nan'' l then NotANumber neg
      else if prefix ''0x'' l \<and> scan_hex neg (drop 2 t) \<noteq> NoNumber then scan_hex neg (drop 2 t)
      else scan_decimal neg t)"

text \<open>
  \<^verbatim>\<open>std::stod\<close>; characters after the number are ignored. The payload of a NaN is not modelled:
  the program only hands the value to the JSON library, which writes every NaN as \<^verbatim>\<open>null\<close>.
\<close>

definition stod :: "string \<Rightarrow> cxx_error + c_double" where
  "stod s =
     (case scan_float s of
        NoNumber \<Rightarrow> Inl InvalidArgument
      | Infinite neg \<Rightarrow> Inr (dbl_of_bits neg kInfinity)
      | NotANumber neg \<Rightarrow> Inr (dbl_of_bits neg (kInfinity + 2 ^ 51))
      | Ratio neg a b \<Rightarrow> double_of_ratio neg a b)"

subsection \<open>To text\<close>

text \<open>
  The format \<^verbatim>\<open>%.6g\<close>: six significant digits \<open>q\<close> with decimal exponent \<open>X\<close>, in positional
  notation for \<open>-4 \<le> X < 6\<close> and in exponent notation otherwise, without trailing zeros.
\<close>

definition strip_zeros :: "string \<Rightarrow> string" where
  "strip_zeros s = rev (dropWhile (\<lambda>c. c = CHR ''0'') (rev s))"

definition log10_floor :: "int \<Rightarrow> int \<Rightarrow> int" where
  "log10_floor a b =
     (if b \<le> a then int (length (show_int (a div b))) - 1 else - int (length (show_int ((b - 1) div a))))"

definition six_digits :: "int \<Rightarrow> int \<Rightarrow> int \<times> int" where
  "six_digits a b =
     (let e = log10_floor a b; q = div_half_even (a * 10 ^ nat (5 - e)) (b * 10 ^ nat (e - 5))
      in if q = 10 ^ 6 then (10 ^ 5, e + 1) else (q, e))"

definition with_point :: "string \<Rightarrow> string \<Rightarrow> string" where
  "with_point i f = (let g = strip_zeros f in i @ (if g = [] then [] else CHR ''.'' # g))"

definition show_exponent :: "int \<Rightarrow> string" where
  "show_exponent x =
     ''e'' @ (if x < 0 then ''-'' else ''+'') @ (if \<bar>x\<bar> < 10 then ''0'' else '''') @ show_int \<bar>x\<bar>"

definition show_ratio :: "int \<Rightarrow> int \<Rightarrow> string" where
  "show_ratio a b =
     (let (q, x) = six_digits a b; ds = show_int q in
      if 0 \<le> x \<and> x < 6 then with_point (take (nat x + 1) ds) (drop (nat x + 1) ds)
      else if - 4 \<le> x \<and> x < 0 then with_point ''0'' (replicate (nat (- x) - 1) (CHR ''0'') @ ds)
      else with_point [hd ds] (tl ds) @ show_exponent x)"

definition double_text :: "c_double \<Rightarrow> string" where
  "double_text x =
     (if dbl_neg x then ''-'' else '''')
     @ (if dbl_mag x = kInfinity then ''inf''
        else if kInfinity < dbl_mag x then ''nan''
        else let (a, b) = dbl_ratio x in if a = 0 then ''0'' else show_ratio a b)"

section \<open>Values\<close>

definition mag_value :: "int \<Rightarrow> real" where
  "mag_value n = of_int (fst (mag_parts n)) * 2 powi snd (mag_parts n)"

definition dbl_value :: "c_double \<Rightarrow> real" where
  "dbl_value x = (if dbl_neg x then - mag_value (dbl_mag x) else mag_value (dbl_mag x))"

lemma dbl_of_bits_fields:
  assumes "0 \<le> n" "n < 2 ^ 63"
  shows "dbl_neg (dbl_of_bits neg n) = neg" "dbl_mag (dbl_of_bits neg n) = n"
  using assms by (simp_all add: dbl_neg_def dbl_mag_def dbl_of_bits_def uint_word_of_int mod_pos_pos_trivial)

lemma kInfinity_bound: "kInfinity < 2 ^ 63"
  by (simp add: kInfinity_def)

lemma mag_value_nonneg: "0 \<le> n \<Longrightarrow> 0 \<le> mag_value n"
  by (simp add: mag_value_def mag_parts_def)

text \<open>A finite magnitude is a significand of at most 53 bits times a power of two not below \<open>-1074\<close>.\<close>

lemma mag_parts_bounds:
  assumes "0 \<le> n"
  shows "0 \<le> fst (mag_parts n) \<and> fst (mag_parts n) < 2 ^ 53 \<and> - 1074 \<le> snd (mag_parts n)"
proof (cases "n div 2 ^ 52 = 0")
  case True
  then have "n < 2 ^ 52" using assms by (auto simp: zdiv_eq_0_iff)
  with True assms show ?thesis by (simp add: mag_parts_def)
next
  case False
  have "0 \<le> n div 2 ^ 52" using assms by (simp add: pos_imp_zdiv_nonneg_iff)
  with False have "1 \<le> n div 2 ^ 52" by linarith
  moreover have "n mod 2 ^ 52 < 2 ^ 52" "0 \<le> n mod 2 ^ 52" by simp_all
  ultimately have "0 \<le> 2 ^ 52 + n mod 2 ^ 52" "2 ^ 52 + n mod 2 ^ 52 < 2 ^ 53" "- 1074 \<le> n div 2 ^ 52 - 1075"
    by simp_all
  moreover have "mag_parts n = (2 ^ 52 + n mod 2 ^ 52, n div 2 ^ 52 - 1075)"
    using False unfolding mag_parts_def by argo
  ultimately show ?thesis by (simp only: fst_conv snd_conv)
qed

text \<open>Which number a rounded significand and its exponent are, carries included.\<close>

lemma mag_value_bits:
  assumes "0 \<le> m" "m \<le> 2 ^ 53" "- 1074 \<le> q" "- 1074 < q \<Longrightarrow> 2 ^ 52 \<le> m"
  shows "mag_value (m + (q + 1074) * 2 ^ 52) = of_int m * 2 powi q"
proof -
  consider "m < 2 ^ 52" "q = - 1074" | "2 ^ 52 \<le> m" "m < 2 ^ 53" | "m = 2 ^ 53"
    using assms by linarith
  then show ?thesis
  proof cases
    case 1
    then have "(m + (q + 1074) * 2 ^ 52) div 2 ^ 52 = 0" using assms(1) by simp
    then show ?thesis using 1 by (simp add: mag_value_def mag_parts_def)
  next
    case 2
    define f where "f = m - 2 ^ 52"
    have f: "0 \<le> f" "f < 2 ^ 52" using 2 by (simp_all add: f_def)
    have n: "m + (q + 1074) * 2 ^ 52 = f + (q + 1075) * 2 ^ 52" by (simp add: f_def algebra_simps)
    have "(f + e * d) div d = e \<and> (f + e * d) mod d = f" if "f < d" for d e :: int
      using f(1) that by simp
    from this [OF f(2), of "q + 1075"]
    have "(f + (q + 1075) * 2 ^ 52) div 2 ^ 52 = q + 1075" "(f + (q + 1075) * 2 ^ 52) mod 2 ^ 52 = f"
      by blast+
    then show ?thesis unfolding n using assms(3) by (simp add: mag_value_def mag_parts_def f_def)
  next
    case 3
    have n: "m + (q + 1074) * 2 ^ 52 = (q + 1076) * 2 ^ 52" using 3 by simp
    have "(q + 1076) * 2 ^ 52 div 2 ^ 52 = q + 1076" "(q + 1076) * 2 ^ 52 mod 2 ^ 52 = 0"
      by simp_all
    then show ?thesis unfolding n using assms(3) 3
      by (simp add: mag_value_def mag_parts_def power_int_add)
  qed
qed

section \<open>Correct rounding\<close>

lemma div_half_even_nearest:
  assumes "0 < d"
  shows "\<bar>of_int (div_half_even a d) - of_int a / of_int d\<bar> \<le> \<bar>of_int k - of_int a / (of_int d :: real)\<bar>"
proof -
  define q r where "q = a div d" and "r = a mod d"
  have r: "0 \<le> r" "r < d" using assms by (simp_all add: r_def)
  have a: "of_int a / (of_int d :: real) = of_int q + of_int r / of_int d"
    using assms by (simp add: q_def r_def field_simps flip: of_int_mult of_int_add)
  define t :: real where "t = of_int r / of_int d"
  have t: "0 \<le> t" "t < 1" using r assms by (simp_all add: t_def)
  have half: "d < 2 * r \<longleftrightarrow> 1 < 2 * t" "2 * r = d \<longleftrightarrow> 2 * t = 1"
    using assms by (simp_all add: t_def field_simps flip: of_int_mult of_int_less_iff of_int_eq_iff) (auto simp flip: of_int_less_iff of_int_eq_iff)
  have k: "k \<le> q \<or> q + 1 \<le> k" by linarith
  then have "of_int k \<le> (of_int q :: real) \<or> of_int q + 1 \<le> (of_int k :: real)"
    by (metis of_int_1 of_int_add of_int_le_iff)
  then show ?thesis
  proof
    assume "of_int k \<le> (of_int q :: real)"
    then show ?thesis
      unfolding a t_def [symmetric] div_half_even_def Let_def q_def [symmetric] r_def [symmetric] half
      using t by (auto simp: abs_if)
  next
    assume "of_int q + 1 \<le> (of_int k :: real)"
    then show ?thesis
      unfolding a t_def [symmetric] div_half_even_def Let_def q_def [symmetric] r_def [symmetric] half
      using t by (auto simp: abs_if)
  qed
qed

lemma nearest_int_bounds:
  fixes m :: int and x :: real
  assumes near: "\<And>k :: int. \<bar>of_int m - x\<bar> \<le> \<bar>of_int k - x\<bar>"
  shows "of_int i \<le> x \<Longrightarrow> i \<le> m" and "x \<le> of_int i \<Longrightarrow> m \<le> i"
proof -
  have less: "(of_int a :: real) + 1 \<le> of_int b" if "a < b" for a b :: int
    using that by (metis of_int_1 of_int_add of_int_le_iff zless_imp_add1_zle)
  show "i \<le> m" if "of_int i \<le> x"
  proof (rule ccontr)
    assume "\<not> i \<le> m"
    then show False using near [of i] less [of m i] that by simp
  qed
  show "m \<le> i" if "x \<le> of_int i"
  proof (rule ccontr)
    assume "\<not> m \<le> i"
    then show False using near [of i] less [of i m] that by simp
  qed
qed

lemma bit_len_bounds: "0 < n \<Longrightarrow> 2 ^ (bit_len n - 1) \<le> n \<and> n < 2 ^ bit_len n \<and> 0 < bit_len n"
proof (induction n rule: bit_len.induct)
  case (1 n)
  have step: "bit_len n = Suc (bit_len (n div 2))" using "1.prems" by (simp add: bit_len.simps [of n])
  show ?case
  proof (cases "n div 2 = 0")
    case True
    then have "n = 1" "bit_len n = 1" using "1.prems" step by (simp_all add: bit_len.simps [of 0])
    then show ?thesis by simp
  next
    case False
    with "1.prems" have p: "0 < n div 2" by linarith
    from "1.IH" "1.prems" p have IH: "2 ^ (bit_len (n div 2) - 1) \<le> n div 2" "n div 2 < 2 ^ bit_len (n div 2)" "0 < bit_len (n div 2)"
      by auto
    then obtain j where j: "bit_len (n div 2) = Suc j" by (cases "bit_len (n div 2)") auto
    then show ?thesis using IH unfolding step by (auto simp: j)
  qed
qed

lemma over_power_ratio:
  assumes "over_power a b q = (a', b')" "0 < b"
  shows "of_int a' / of_int b' = (of_int a / of_int b / 2 powi q :: real)" "0 < b'"
proof -
  have e: "a' = a * 2 ^ nat (- q)" "b' = b * 2 ^ nat q" using assms(1) by (simp_all add: over_power_def)
  show "0 < b'" using assms(2) by (simp add: e)
  show "of_int a' / of_int b' = (of_int a / of_int b / 2 powi q :: real)"
    by (cases "0 \<le> q") (simp_all add: e power_int_def field_simps)
qed

lemma log2_floor_bounds:
  assumes "0 < a" "0 < b"
  shows "2 powi log2_floor a b \<le> (of_int a / of_int b :: real)" "(of_int a / of_int b :: real) < 2 powi (log2_floor a b + 1)"
proof -
  let ?v = "of_int a / of_int b :: real"
  define g where "g = int (bit_len a) - int (bit_len b)"
  obtain a' b' where o: "over_power a b g = (a', b')" by fastforce
  note r = over_power_ratio [OF o assms(2)]
  have A: "2 ^ (bit_len a - 1) \<le> (of_int a :: real)" "(of_int a :: real) < 2 ^ bit_len a" "0 < bit_len a"
    and B: "2 ^ (bit_len b - 1) \<le> (of_int b :: real)" "(of_int b :: real) < 2 ^ bit_len b" "0 < bit_len b"
    using bit_len_bounds [OF assms(1)] bit_len_bounds [OF assms(2)]
    by (metis of_int_le_iff of_int_less_iff of_int_numeral of_int_power)+
  have pw: "2 powi g = (2 ^ bit_len a / 2 ^ bit_len b :: real)"
    by (simp add: g_def power_int_diff power_int_of_nat flip: power_int_of_nat)
  have up: "?v < 2 powi (g + 1)"
  proof -
    have "?v < 2 ^ bit_len a / 2 ^ (bit_len b - 1)"
      using A B assms by (intro frac_less) (simp_all)
    also have "\<dots> = 2 powi (g + 1)" using B(3) by (simp add: pw power_int_add power_diff)
    finally show ?thesis .
  qed
  have low: "2 powi (g - 1) \<le> ?v"
  proof -
    have "2 powi (g - 1) = (2 ^ (bit_len a - 1) / 2 ^ bit_len b :: real)"
      using A(3) by (simp add: pw power_int_diff power_diff)
    also have "\<dots> \<le> ?v" using A B assms by (intro frac_le) simp_all
    finally show ?thesis .
  qed
  have iff: "b' \<le> a' \<longleftrightarrow> 2 powi g \<le> ?v"
  proof -
    have "b' \<le> a' \<longleftrightarrow> 1 \<le> (of_int a' / of_int b' :: real)" using r(2) by simp
    then show ?thesis unfolding r(1) by (simp only: le_divide_eq_1_pos zero_less_power_int zero_less_numeral)
  qed
  have eq: "log2_floor a b = (if b' \<le> a' then g else g - 1)"
    using o by (simp add: log2_floor_def g_def [symmetric] Let_def)
  show "2 powi log2_floor a b \<le> ?v" "?v < 2 powi (log2_floor a b + 1)"
    using up low iff by (auto simp: eq)
qed

text \<open>What \<open>round_bits\<close> computes: the nearest multiple of the last place.\<close>

lemma round_bits_value:
  assumes "0 < a" "0 < b" "q = last_place a b"
  obtains m where "round_bits a b = m + (q + 1074) * 2 ^ 52" "0 \<le> m" "- 1074 \<le> q" "- 1074 < q \<Longrightarrow> 2 ^ 52 \<le> m"
    "m \<le> 2 ^ 53" "2 powi (52 + q) \<le> (of_int a / of_int b :: real) \<Longrightarrow> 2 ^ 52 \<le> m"
    "mag_value (round_bits a b) = of_int m * 2 powi q"
    "\<And>k. \<bar>of_int m * 2 powi q - of_int a / of_int b\<bar> \<le> \<bar>of_int k * 2 powi q - of_int a / (of_int b :: real)\<bar>"
proof -
  let ?v = "of_int a / of_int b :: real"
  obtain a' b' where o: "over_power a b q = (a', b')" by fastforce
  note r = over_power_ratio [OF o assms(2)]
  define m where "m = div_half_even a' b'"
  have near: "\<bar>of_int m - ?v / 2 powi q\<bar> \<le> \<bar>of_int k - ?v / 2 powi q\<bar>" for k
    using div_half_even_nearest [OF r(2), of a' k] by (simp add: m_def r(1))
  have p: "0 < (2 powi q :: real)" by simp
  have q: "- 1074 \<le> q" "log2_floor a b - 52 \<le> q" by (simp_all add: assms(3) last_place_def)
  have v: "0 \<le> ?v" using assms by simp
  have "2 powi (log2_floor a b + 1) \<le> (2 powi (53 + q) :: real)" using q(2) by (intro power_int_increasing) simp_all
  then have "?v < 2 ^ 53 * 2 powi q"
    using log2_floor_bounds(2) [OF assms(1,2)] by (simp add: power_int_add)
  then have hi: "?v / 2 powi q < 2 ^ 53" using p by (simp only: pos_divide_less_eq)
  have m0: "0 \<le> m"
    using nearest_int_bounds(1) [OF near, of 0] divide_nonneg_pos [OF v p] by simp
  have m53: "m \<le> 2 ^ 53"
    using nearest_int_bounds(2) [OF near, of "2 ^ 53"] hi by simp
  have big: "2 ^ 52 \<le> m" if "2 powi (52 + q) \<le> ?v"
  proof -
    have "2 ^ 52 * 2 powi q \<le> ?v" using that by (simp add: power_int_add)
    then have "2 ^ 52 \<le> ?v / 2 powi q" using p by (simp only: pos_le_divide_eq)
    then show ?thesis using nearest_int_bounds(1) [OF near, of "2 ^ 52"] by simp
  qed
  have m52: "2 ^ 52 \<le> m" if "- 1074 < q"
  proof (rule big)
    have "q = log2_floor a b - 52" using that by (simp add: assms(3) last_place_def)
    then show "2 powi (52 + q) \<le> ?v" using log2_floor_bounds(1) [OF assms(1,2)] by simp
  qed
  have eq: "round_bits a b = m + (q + 1074) * 2 ^ 52"
    using assms(1) o by (simp add: round_bits_def assms(3) [symmetric] m_def Let_def)
  have nearest: "\<bar>of_int m * 2 powi q - ?v\<bar> \<le> \<bar>of_int k * 2 powi q - ?v\<bar>" for k
  proof -
    have scale: "\<bar>x * 2 powi q - ?v\<bar> = \<bar>x - ?v / 2 powi q\<bar> * 2 powi q" for x :: real
      using abs_mult [of "x - ?v / 2 powi q" "2 powi q"] p by (simp add: left_diff_distrib)
    show ?thesis unfolding scale using near [of k] p by (intro mult_right_mono) simp_all
  qed
  show thesis
    by (rule that [OF eq m0 q(1) m52 m53 big]) (use mag_value_bits [OF m0 m53 q(1) m52] eq nearest in simp_all)
qed

text \<open>No finite magnitude is nearer to the ratio than the rounded one.\<close>

lemma multiple_or_small:
  assumes "0 \<le> n"
  shows "(\<exists>k. mag_value n = of_int k * 2 powi q) \<or> (- 1074 < q \<and> mag_value n < 2 powi (q + 52))"
proof -
  obtain m e where me: "mag_parts n = (m, e)" by fastforce
  then have b: "0 \<le> m" "m < 2 ^ 53" "- 1074 \<le> e" using mag_parts_bounds [OF assms] by simp_all
  have v: "mag_value n = of_int m * 2 powi e" by (simp add: mag_value_def me)
  show ?thesis
  proof (cases "q \<le> e")
    case True
    then have "2 powi (e - q) = (of_int (2 ^ nat (e - q)) :: real)" by (simp add: power_int_def)
    moreover have "(2 powi e :: real) = 2 powi (e - q) * 2 powi q" by (simp flip: power_int_add)
    ultimately have "(2 powi e :: real) = of_int (2 ^ nat (e - q)) * 2 powi q" by (simp only:)
    then have "mag_value n = of_int (m * 2 ^ nat (e - q)) * 2 powi q" by (simp add: v)
    then show ?thesis by blast
  next
    case False
    have "(of_int m :: real) < 2 ^ 53" using b(2) by (metis of_int_less_iff of_int_numeral of_int_power)
    then have "mag_value n < 2 ^ 53 * 2 powi e" by (simp add: v)
    also have "\<dots> = 2 powi (e + 53)" by (simp add: power_int_add)
    also have "\<dots> \<le> 2 powi (q + 52)" using False by (intro power_int_increasing) simp_all
    finally show ?thesis using False b(3) by simp
  qed
qed

lemma round_bits_nearest:
  assumes "0 \<le> a" "0 < b" "0 \<le> n"
  shows "\<bar>mag_value (round_bits a b) - of_int a / of_int b\<bar> \<le> \<bar>mag_value n - of_int a / of_int b\<bar>"
proof (cases "a = 0")
  case True
  then show ?thesis by (simp add: round_bits_def mag_value_def mag_parts_def)
next
  case False
  with assms(1) have a: "0 < a" by simp
  let ?v = "of_int a / of_int b :: real"
  define q where "q = last_place a b"
  obtain m where m: "mag_value (round_bits a b) = of_int m * 2 powi q"
    "\<And>k. \<bar>of_int m * 2 powi q - ?v\<bar> \<le> \<bar>of_int k * 2 powi q - ?v\<bar>"
    using round_bits_value [OF a assms(2) q_def] by metis
  from multiple_or_small [OF assms(3), of q] show ?thesis
  proof
    assume "\<exists>k. mag_value n = of_int k * 2 powi q"
    then show ?thesis using m by auto
  next
    assume s: "- 1074 < q \<and> mag_value n < 2 powi (q + 52)"
    then have "q = log2_floor a b - 52" unfolding q_def last_place_def by linarith
    then have "2 powi (q + 52) \<le> ?v" using log2_floor_bounds(1) [OF a assms(2)] by simp
    with s have "\<bar>2 powi (q + 52) - ?v\<bar> \<le> \<bar>mag_value n - ?v\<bar>" by simp
    moreover have "(2 powi (q + 52) :: real) = of_int (2 ^ 52) * 2 powi q" by (simp add: power_int_add)
    ultimately show ?thesis using m(1) m(2) [of "2 ^ 52"] by simp
  qed
qed

lemma round_bits_nonneg: "0 \<le> a \<Longrightarrow> 0 < b \<Longrightarrow> 0 \<le> round_bits a b"
proof (cases "a = 0")
  case False
  assume "0 \<le> a" "0 < b"
  with False have "0 < a" by simp
  from round_bits_value [OF this \<open>0 < b\<close> refl] show ?thesis by (metis add_nonneg_nonneg diff_ge_0_iff_ge diff_minus_eq_add mult_nonneg_nonneg zero_le_numeral zero_le_power)
qed (simp add: round_bits_def)

text \<open>The number a text stands for.\<close>

definition signed_ratio :: "bool \<Rightarrow> int \<Rightarrow> int \<Rightarrow> real" where
  "signed_ratio neg a b = (if neg then - (of_int a / of_int b) else of_int a / of_int b)"

lemma scan_float_ratio:
  "scan_float s = Ratio neg a b \<Longrightarrow> 0 \<le> a \<and> 0 < b"
  by (auto simp: scan_float_def scan_hex_def scan_decimal_def Let_def split: prod.splits if_splits)

lemma double_of_ratio_nearest:
  assumes "double_of_ratio neg a b = Inr x" "0 \<le> a" "0 < b"
  shows "dbl_finite x" "dbl_finite y \<Longrightarrow> \<bar>dbl_value x - signed_ratio neg a b\<bar> \<le> \<bar>dbl_value y - signed_ratio neg a b\<bar>"
proof -
  let ?n = "round_bits a b"
  have n: "0 \<le> ?n" "?n < kInfinity" "x = dbl_of_bits neg ?n"
    using assms round_bits_nonneg [OF assms(2,3)] by (auto simp: double_of_ratio_def Let_def split: if_splits)
  then have f: "dbl_neg x = neg" "dbl_mag x = ?n"
    using dbl_of_bits_fields [of ?n neg] kInfinity_bound by simp_all
  show "dbl_finite x" using n(2) by (simp add: dbl_finite_def f)
  have y: "0 \<le> dbl_mag y" by (simp add: dbl_mag_def)
  have v: "0 \<le> (of_int a / of_int b :: real)" using assms by simp
  have "\<bar>mag_value ?n - of_int a / of_int b\<bar> \<le> \<bar>(if dbl_neg y = neg then mag_value (dbl_mag y) else - mag_value (dbl_mag y)) - of_int a / of_int b\<bar>"
  proof (cases "dbl_neg y = neg")
    case True
    then show ?thesis using round_bits_nearest [OF assms(2,3) y] by simp
  next
    case False
    have "\<bar>mag_value ?n - of_int a / of_int b\<bar> \<le> \<bar>mag_value 0 - of_int a / of_int b\<bar>"
      using assms by (intro round_bits_nearest) simp_all
    moreover have "mag_value 0 = 0" by (simp add: mag_value_def mag_parts_def)
    ultimately show ?thesis using False v mag_value_nonneg [OF y] by simp
  qed
  then show "\<bar>dbl_value x - signed_ratio neg a b\<bar> \<le> \<bar>dbl_value y - signed_ratio neg a b\<bar>"
    by (simp add: dbl_value_def signed_ratio_def f abs_if split: if_splits)
qed

lemma div_half_even_one: "div_half_even a 1 = a"
  by (simp add: div_half_even_def)

lemma div_half_even_scale: "0 < c \<Longrightarrow> div_half_even (a * c) (d * c) = div_half_even a d"
proof -
  assume c: "0 < c"
  have "a * c mod (d * c) = a mod d * c" "a * c div (d * c) = a div d"
    using c by (simp_all add: mult_mod_left)
  moreover have "2 * (a mod d * c) = d * c \<longleftrightarrow> 2 * (a mod d) = d" "d * c < 2 * (a mod d * c) \<longleftrightarrow> d < 2 * (a mod d)"
    using c mult_cancel_right [of "2 * (a mod d)" c d] mult_less_cancel_right_pos [OF c, of d "2 * (a mod d)"]
    by (simp_all add: mult.assoc)
  ultimately show ?thesis unfolding div_half_even_def Let_def by (simp only:)
qed

lemma show_ratio_scale:
  assumes "0 < c" "b \<le> a"
  shows "show_ratio (a * c) (b * c) = show_ratio a b"
proof -
  have "log10_floor (a * c) (b * c) = log10_floor a b" using assms by (simp add: log10_floor_def)
  moreover have "div_half_even (a * c * x) (b * c * y) = div_half_even (a * x) (b * y)" for x y
    using div_half_even_scale [OF assms(1), of "a * x" "b * y"] by (simp add: ac_simps)
  ultimately have "six_digits (a * c) (b * c) = six_digits a b" by (simp add: six_digits_def)
  then show ?thesis by (simp add: show_ratio_def)
qed

text \<open>The ratio of an integral double is its integer over one, up to a common factor.\<close>

lemma dbl_ratio_value:
  assumes "dbl_ratio x = (a, b)"
  shows "0 < b \<and> mag_value (dbl_mag x) = of_int a / of_int b"
proof -
  obtain m k where mk: "mag_parts (dbl_mag x) = (m, k)" by fastforce
  then have "a = m * 2 ^ nat k" "b = 2 ^ nat (- k)" using assms by (simp_all add: dbl_ratio_def)
  then show ?thesis by (cases "0 \<le> k") (simp_all add: mag_value_def mk power_int_def field_simps)
qed

section \<open>Decimal numbers\<close>

lemma round_bits_range:
  assumes "0 < a" "0 < b" "2 powi (- 1022) \<le> (of_int a / of_int b :: real)" "(of_int a / of_int b :: real) < 2 powi 1023"
  shows "2 ^ 52 \<le> round_bits a b" "round_bits a b < kInfinity"
proof -
  let ?v = "of_int a / of_int b :: real"
  define q where "q = last_place a b"
  obtain m where m: "round_bits a b = m + (q + 1074) * 2 ^ 52" "- 1074 \<le> q" "- 1074 < q \<Longrightarrow> 2 ^ 52 \<le> m" "m \<le> 2 ^ 53"
    "2 powi (52 + q) \<le> ?v \<Longrightarrow> 2 ^ 52 \<le> m"
    using round_bits_value [OF assms(1,2) q_def] by metis
  have "2 ^ 52 \<le> m"
    using m assms(3) by (cases "q = - 1074") simp_all
  then show "2 ^ 52 \<le> round_bits a b" using m(1,2) by simp
  have "(2 powi log2_floor a b :: real) < 2 powi 1023"
    using log2_floor_bounds(1) [OF assms(1,2)] assms(4) by linarith
  then have "log2_floor a b < 1023" using power_int_increasing [of 1023 "log2_floor a b" "2 :: real"] by fastforce
  then have "q \<le> 970" by (simp add: q_def last_place_def)
  then have "(q + 1074) * 2 ^ 52 \<le> 2044 * 2 ^ 52" by simp
  then show "round_bits a b < kInfinity" using m(1,4) by (simp add: kInfinity_def)
qed

lemma digits_val_less: "list_all is_digit s \<Longrightarrow> digits_val s < 10 ^ length s"
proof (induction s rule: rev_induct)
  case (snoc c s)
  then have "digits_val s < 10 ^ length s" "digit_val c < 10" by (auto simp: is_digit_def digit_val_def)
  then show ?case by (simp add: digits_val_def)
qed (simp add: digits_val_def)

lemma digit_no_letter: "is_digit c \<Longrightarrow> to_lower c = c \<and> c \<noteq> CHR ''i'' \<and> c \<noteq> CHR ''n'' \<and> c \<noteq> CHR ''x'' \<and> c \<noteq> CHR ''.''
    \<and> c \<noteq> CHR ''-'' \<and> c \<noteq> CHR ''+'' \<and> \<not> is_space c"
  by (auto simp: is_digit_def to_lower_def is_space_def)

text \<open>A number written with a point means its digits over a power of ten.\<close>

lemma scan_float_decimal:
  assumes "list_all is_digit ip" "list_all is_digit fp" "ip @ fp \<noteq> []"
  shows "scan_float (ip @ ''.'' @ fp) = Ratio False (int (digits_val (ip @ fp))) (10 ^ length fp)"
proof -
  let ?s = "ip @ ''.'' @ fp"
  have dot: "\<not> is_digit (CHR ''.'')" "to_lower (CHR ''.'') = CHR ''.''" "\<not> is_space (CHR ''.'')"
    by (simp_all add: is_digit_def to_lower_def is_space_def)
  have sp: "dropWhile is_space ?s = ?s \<and> scan_sign ?s = (False, ?s)"
  proof (cases ip)
    case (Cons c cs)
    with assms(1) digit_no_letter [of c] show ?thesis by (simp add: scan_sign_def)
  qed (simp add: dot scan_sign_def)
  have low: "map to_lower ?s = ?s"
    using assms(1,2) digit_no_letter by (auto simp: list_all_iff dot intro!: map_idI)
  have pre: "\<not> prefix ''inf'' ?s" "\<not> prefix ''nan'' ?s" "\<not> prefix ''0x'' ?s"
  proof -
    have "hd ?s \<noteq> CHR ''i'' \<and> hd ?s \<noteq> CHR ''n''" using assms(1) digit_no_letter by (cases ip) auto
    then show "\<not> prefix ''inf'' ?s" "\<not> prefix ''nan'' ?s" by (auto simp: prefix_def)
    have "?s ! 1 \<noteq> CHR ''x''" if "ip \<noteq> []"
    proof (cases "tl ip")
      case Nil
      with that show ?thesis by (cases ip) simp_all
    next
      case (Cons c cs)
      with that obtain d where ip: "ip = d # c # cs" by (cases ip) simp_all
      with assms(1) digit_no_letter [of c] show ?thesis by (simp add: ip)
    qed
    then show "\<not> prefix ''0x'' ?s" by (cases ip) (auto simp: prefix_def)
  qed
  have "takeWhile is_digit ?s = ip" "dropWhile is_digit ?s = ''.'' @ fp" "takeWhile is_digit fp = fp" "dropWhile is_digit fp = []"
    using assms(1,2) dot by (auto simp: list_all_iff takeWhile_append takeWhile_eq_all_conv dropWhile_append dropWhile_eq_Nil_conv)
  then have man: "scan_mantissa is_digit ?s = (ip, fp, [])" by (simp add: scan_mantissa_def)
  have "scan_float s = scan_decimal False s"
    if "dropWhile is_space s = s \<and> scan_sign s = (False, s)" "map to_lower s = s"
      "\<not> prefix ''inf'' s" "\<not> prefix ''nan'' s" "\<not> prefix ''0x'' s" for s
    using that by (simp add: scan_float_def)
  from this [OF sp low pre] show ?thesis using assms(3) by (simp add: scan_decimal_def man [simplified] scan_exponent_def Let_def)
qed

text \<open>Numbers of everyday size are read without an error, and as the nearest double.\<close>

lemma stod_decimal:
  assumes "list_all is_digit ip" "list_all is_digit fp" "ip @ fp \<noteq> []" "length ip \<le> 300" "length fp \<le> 300"
  shows "\<exists>x. stod (ip @ ''.'' @ fp) = Inr x \<and> double_of_ratio False (int (digits_val (ip @ fp))) (10 ^ length fp) = Inr x"
proof -
  let ?a = "int (digits_val (ip @ fp))" and ?b = "10 ^ length fp :: int"
  have "\<exists>x. double_of_ratio False ?a ?b = Inr x"
  proof (cases "?a = 0")
    case True
    then show ?thesis by (simp add: double_of_ratio_def round_bits_def rounds_exactly_def kInfinity_def)
  next
    case False
    then have a: "0 < ?a" by linarith
    have "digits_val (ip @ fp) < 10 ^ length (ip @ fp)" using assms(1,2) by (intro digits_val_less) simp
    then have "real_of_int ?a < 10 ^ length ip * 10 ^ length fp"
      by (metis length_append of_int_of_nat_eq of_nat_less_iff of_nat_numeral of_nat_power power_add)
    then have "real_of_int ?a / of_int ?b < 10 ^ length ip" by (simp add: pos_divide_less_eq)
    also have "\<dots> \<le> 10 ^ 300" using assms(4) by (intro power_increasing) simp_all
    also have "\<dots> < (2 ^ 1023 :: real)" by simp
    finally have hi: "real_of_int ?a / of_int ?b < 2 powi 1023" by (simp only: power_int_numeral)
    have "(2 powi (- 1022) :: real) \<le> 1 / 10 ^ 300" by (simp add: power_int_minus field_simps)
    also have "\<dots> \<le> 1 / 10 ^ length fp" using assms(5) by (intro divide_left_mono power_increasing) simp_all
    also have "\<dots> \<le> real_of_int ?a / of_int ?b" using a by (simp add: divide_right_mono)
    finally show ?thesis
      using round_bits_range [OF a _ _ hi] by (simp add: double_of_ratio_def Let_def)
  qed
  with scan_float_decimal [OF assms(1-3)] show ?thesis by (simp add: stod_def)
qed

end
