(* ===== verification/Metrics.thy ===== *)
theory Metrics
  imports Double
begin

text \<open>
  \<^verbatim>\<open>control-plane/src/metrics.cpp\<close>: the in-process Prometheus registry.

  The doubles of this component (durations, their sums, the bucket bounds) are integral: a
  duration is a \<^verbatim>\<open>long\<close> converted to \<^verbatim>\<open>double\<close>, the bounds are literals, and a sum of
  integral doubles is integral. They are modelled by the integers they stand for, with the
  rounding of IEEE arithmetic written out (\<open>round53\<close>: nearest, ties to even, 53 bits).
  Counters are \<^verbatim>\<open>long\<close>s that are only incremented; they are unbounded integers here, exact
  until \<open>2 ^ 63\<close> events.
\<close>

section \<open>Definitions\<close>

definition round53 :: "int \<Rightarrow> int" where
  "round53 n =
     (let a = \<bar>n\<bar> in
      if a < 2 ^ 53 then n
      else let d = 2 ^ (bit_len a - 53) in sgn n * (div_half_even a d * d))"

definition double_of_long :: "int \<Rightarrow> int" where
  "double_of_long n = round53 n"

text \<open>
  \<^verbatim>\<open>out << x\<close> for an integral double, with the stream's default precision: up to six
  significant digits, in exponent notation from a million on.
\<close>

definition show_sci :: "int \<Rightarrow> string" where
  "show_sci a =
     (let k = length (show_int a);
          q = div_half_even a (10 ^ (k - 6));
          m = (if q = 10 ^ 6 then 10 ^ 5 else q);
          x = (if q = 10 ^ 6 then k else k - 1);
          ds = show_int m;
          frac = strip_zeros (tl ds)
      in [hd ds] @ (if frac = [] then [] else CHR ''.'' # frac) @ ''e+''
         @ (if x < 10 then CHR ''0'' # show_nat x else show_nat x))"

definition show_double :: "int \<Rightarrow> string" where
  "show_double n =
     (let a = \<bar>n\<bar> in
      if a < 10 ^ 6 then show_int n
      else (if n < 0 then ''-'' else '''') @ show_sci a)"

definition kBucketsMs :: "int list" where
  "kBucketsMs = [1, 5, 10, 25, 50, 100, 250, 500, 1000, 2500, 5000, 10000]"

definition bool_str :: "bool \<Rightarrow> string" where
  "bool_str b = (if b then ''true'' else ''false'')"

record histogram =
  bucket_counts :: "int list"
  h_count :: int
  sum_ms :: int

definition default_histogram :: histogram where
  "default_histogram = \<lparr>bucket_counts = [], h_count = 0, sum_ms = 0\<rparr>"

record metrics =
  invocation_counts :: "(string \<times> bool, int) omap"
  duration_histograms :: "(bool, histogram) omap"
  runtimes_created :: int
  runtimes_terminated :: "(string, int) omap"

definition init_metrics :: metrics where
  "init_metrics = \<lparr>invocation_counts = [], duration_histograms = [], runtimes_created = 0, runtimes_terminated = []\<rparr>"

text \<open>The loop over the buckets: each bound at or above the duration counts it.\<close>

fun bump_buckets :: "int \<Rightarrow> int list \<Rightarrow> int list \<Rightarrow> int list" where
  "bump_buckets d (b # bounds) (n # counts) = (if d \<le> b then n + 1 else n) # bump_buckets d bounds counts"
| "bump_buckets d _ counts = counts"

definition observe :: "int \<Rightarrow> histogram \<Rightarrow> histogram" where
  "observe duration_ms h =
     (let counts = (if bucket_counts h = [] then replicate (length kBucketsMs) 0 else bucket_counts h)
      in \<lparr>bucket_counts = bump_buckets duration_ms kBucketsMs counts,
          h_count = h_count h + 1,
          sum_ms = round53 (sum_ms h + duration_ms)\<rparr>)"

definition record_invocation :: "string \<Rightarrow> bool \<Rightarrow> int \<Rightarrow> metrics \<Rightarrow> metrics" where
  "record_invocation status cold_start duration_ms m =
     (let h = (case om_find (duration_histograms m) cold_start of None \<Rightarrow> default_histogram | Some h \<Rightarrow> h)
      in m\<lparr>invocation_counts := om_incr (status, cold_start) (invocation_counts m),
           duration_histograms := om_put cold_start (observe duration_ms h) (duration_histograms m)\<rparr>)"

definition record_runtime_created :: "metrics \<Rightarrow> metrics" where
  "record_runtime_created m = m\<lparr>runtimes_created := runtimes_created m + 1\<rparr>"

definition record_runtime_terminated :: "string \<Rightarrow> metrics \<Rightarrow> metrics" where
  "record_runtime_terminated reason m =
     m\<lparr>runtimes_terminated := om_incr reason (runtimes_terminated m)\<rparr>"

subsection \<open>Rendering\<close>

abbreviation (input) DQ :: string where "DQ \<equiv> [CHR 0x22]"

definition invocation_line :: "(string \<times> bool) \<times> int \<Rightarrow> string" where
  "invocation_line e = ''faas_invocations_total{status='' @ DQ @ fst (fst e) @ DQ @ '',cold_start=''
     @ DQ @ bool_str (snd (fst e)) @ DQ @ ''} '' @ show_int (snd e) @ [LF]"

definition bucket_line :: "bool \<Rightarrow> string \<Rightarrow> int \<Rightarrow> string" where
  "bucket_line cold_start le n = ''faas_invocation_duration_ms_bucket{cold_start='' @ DQ @ bool_str cold_start @ DQ
     @ '',le='' @ DQ @ le @ DQ @ ''} '' @ show_int n @ [LF]"

fun bucket_lines :: "bool \<Rightarrow> int list \<Rightarrow> int list \<Rightarrow> string" where
  "bucket_lines cold_start (b # bounds) (n # counts) =
     bucket_line cold_start (show_double b) n @ bucket_lines cold_start bounds counts"
| "bucket_lines cold_start _ _ = []"

definition histogram_lines :: "bool \<times> histogram \<Rightarrow> string" where
  "histogram_lines e =
     (let cold_start = fst e; h = snd e in
      bucket_lines cold_start kBucketsMs (bucket_counts h)
      @ bucket_line cold_start ''+Inf'' (h_count h)
      @ ''faas_invocation_duration_ms_sum{cold_start='' @ DQ @ bool_str cold_start @ DQ @ ''} '' @ show_double (sum_ms h) @ [LF]
      @ ''faas_invocation_duration_ms_count{cold_start='' @ DQ @ bool_str cold_start @ DQ @ ''} '' @ show_int (h_count h) @ [LF])"

definition terminated_line :: "string \<times> int \<Rightarrow> string" where
  "terminated_line e = ''faas_runtimes_terminated_total{reason='' @ DQ @ fst e @ DQ @ ''} '' @ show_int (snd e) @ [LF]"

definition render :: "int \<Rightarrow> metrics \<Rightarrow> string" where
  "render active_runtimes m =
     ''# HELP faas_active_runtimes Number of runtimes currently active.'' @ [LF]
     @ ''# TYPE faas_active_runtimes gauge'' @ [LF]
     @ ''faas_active_runtimes '' @ show_int active_runtimes @ [LF]
     @ ''# HELP faas_invocations_total Total invocations by outcome and cold/warm.'' @ [LF]
     @ ''# TYPE faas_invocations_total counter'' @ [LF]
     @ concat (map invocation_line (invocation_counts m))
     @ ''# HELP faas_invocation_duration_ms Invocation duration in milliseconds.'' @ [LF]
     @ ''# TYPE faas_invocation_duration_ms histogram'' @ [LF]
     @ concat (map histogram_lines (duration_histograms m))
     @ ''# HELP faas_runtimes_created_total Total runtimes created (cold starts).'' @ [LF]
     @ ''# TYPE faas_runtimes_created_total counter'' @ [LF]
     @ ''faas_runtimes_created_total '' @ show_int (runtimes_created m) @ [LF]
     @ ''# HELP faas_runtimes_terminated_total Total runtimes stopped, by reason.'' @ [LF]
     @ ''# TYPE faas_runtimes_terminated_total counter'' @ [LF]
     @ concat (map terminated_line (runtimes_terminated m))"

section \<open>Integral doubles\<close>

text \<open>
  The integers of this theory against the doubles they stand for: \<open>round53\<close> is IEEE rounding,
  and the text of an integral double is the one of its integer.
\<close>

lemma round53_exact: "\<bar>n\<bar> < 2 ^ 53 \<Longrightarrow> round53 n = n"
  by (simp add: round53_def Let_def)

lemma last_place_int: "0 < a \<Longrightarrow> last_place a 1 = int (bit_len a) - 53"
proof -
  assume a: "0 < a"
  note b = bit_len_bounds [OF a]
  have one: "bit_len 1 = 1" by (simp add: bit_len.simps [of 1] bit_len.simps [of 0])
  have "nat (int (bit_len a) - 1) = bit_len a - 1" "nat (1 - int (bit_len a)) = 0" using b by simp_all
  then have "log2_floor a 1 = int (bit_len a) - 1"
    using b by (simp add: log2_floor_def over_power_def one Let_def)
  then show ?thesis using b by (simp add: last_place_def)
qed

lemma round53_ieee_pos:
  assumes "0 < a"
  shows "mag_value (round_bits a 1) = of_int (round53 a)"
proof -
  let ?q = "int (bit_len a) - 53"
  note b = bit_len_bounds [OF assms]
  obtain m where m: "round_bits a 1 = m + (?q + 1074) * 2 ^ 52" "mag_value (round_bits a 1) = of_int m * 2 powi ?q"
    using round_bits_value [OF assms zero_less_one last_place_int [OF assms, symmetric]] by metis
  have r: "round_bits a 1 = div_half_even (a * 2 ^ nat (- ?q)) (2 ^ nat ?q) + (?q + 1074) * 2 ^ 52"
    using assms by (simp add: round_bits_def last_place_int over_power_def Let_def)
  show ?thesis
  proof (cases "a < 2 ^ 53")
    case True
    then have "(2 :: int) ^ (bit_len a - 1) < 2 ^ 53" using b by linarith
    then have "bit_len a - 1 < 53" by (simp only: power_strict_increasing_iff one_less_numeral_iff semiring_norm(76))
    then have "?q \<le> 0" by simp
    then have "m = a * 2 ^ nat (- ?q)" using m(1) r by (simp add: div_half_even_one)
    with \<open>?q \<le> 0\<close> True assms show ?thesis
      unfolding m(2) by (simp add: round53_exact power_int_def field_simps)
  next
    case False
    with b have "(2 :: int) ^ 53 < 2 ^ bit_len a" by linarith
    then have "53 < bit_len a" by (simp only: power_strict_increasing_iff one_less_numeral_iff semiring_norm(76))
    then have q: "nat ?q = bit_len a - 53" "nat (- ?q) = 0" "0 \<le> ?q" by simp_all
    then have "m = div_half_even a (2 ^ (bit_len a - 53))" using m(1) r by simp
    then show ?thesis
      unfolding m(2) using False assms q by (simp add: round53_def Let_def power_int_def)
  qed
qed

lemma strip_zeros_replicate: "strip_zeros (replicate j (CHR ''0'')) = []"
  by (simp add: strip_zeros_def)

lemma six_digits_int:
  assumes "0 < a" "k = length (show_int a)"
  shows "six_digits a 1 = (let q = div_half_even (a * 10 ^ (6 - k)) (10 ^ (k - 6)) in
    if q = 10 ^ 6 then (10 ^ 5, int k) else (q, int k - 1))"
proof -
  have "0 < k" unfolding assms(2) using assms(1) by (simp add: show_int_def)
  then have "nat (5 - (int k - 1)) = 6 - k" "nat (int k - 1 - 5) = k - 6" by simp_all
  then show ?thesis using assms by (simp add: six_digits_def log10_floor_def Let_def)
qed

lemma show_int_digits:
  assumes "0 < a" "k = length (show_int a)"
  shows "10 ^ (k - 1) \<le> a" "a < 10 ^ k" "0 < k"
proof -
  have "show_int a = show_nat (nat a)" using assms(1) by (simp add: show_int_def)
  then show "10 ^ (k - 1) \<le> a" "a < 10 ^ k" "0 < k"
    using show_nat_length_bounds [of "nat a"] assms by (simp_all add: nat_less_iff le_nat_iff)
qed

text \<open>Up to six digits the integer is printed as it is, from seven on in scientific notation.\<close>

lemma show_ratio_fixed:
  assumes "0 < a" "a < 10 ^ 6"
  shows "show_ratio a 1 = show_int a"
proof -
  define k where "k = length (show_int a)"
  note kb = show_int_digits [OF assms(1) k_def]
  have "(10 :: int) ^ (k - 1) < 10 ^ 6" using kb assms(2) by linarith
  then have "k - 1 < 6" by (simp only: power_strict_increasing_iff one_less_numeral_iff semiring_norm)
  then have k: "k \<le> 6" by simp
  have "a * 10 ^ (6 - k) < 10 ^ k * 10 ^ (6 - k)" using kb by simp
  then have ne: "a * 10 ^ (6 - k) < 10 ^ 6" using k by (simp flip: power_add)
  then have six: "six_digits a 1 = (a * 10 ^ (6 - k), int k - 1)"
    using six_digits_int [OF assms(1) k_def] k by (simp add: div_half_even_one)
  have "nat (a * 10 ^ (6 - k)) = nat a * 10 ^ (6 - k)" using assms(1) by (simp add: nat_mult_distrib nat_power_eq)
  then have ds: "show_int (a * 10 ^ (6 - k)) = show_int a @ replicate (6 - k) (CHR ''0'')"
    using show_nat_times_ten [of "nat a" "6 - k"] assms(1) mult_nonneg_nonneg [of a "10 ^ (6 - k)"]
    by (simp add: show_int_def not_less [symmetric])
  have "nat (int k - 1) + 1 = k" "0 \<le> int k - 1" "int k - 1 < 6" using kb k by simp_all
  then have "show_ratio a 1 = with_point (take k (show_int a @ replicate (6 - k) (CHR ''0''))) (drop k (show_int a @ replicate (6 - k) (CHR ''0'')))"
    by (simp add: show_ratio_def six ds)
  also have "\<dots> = show_int a" by (simp add: k_def with_point_def strip_zeros_replicate)
  finally show ?thesis .
qed

lemma show_ratio_sci:
  assumes "10 ^ 6 \<le> a"
  shows "show_ratio a 1 = show_sci a"
proof -
  define k where "k = length (show_int a)"
  have a: "0 < a" using assms by simp
  have "(10 :: int) ^ 6 < 10 ^ k" using show_int_digits(2) [OF a k_def] assms by linarith
  then have k: "6 < k" by (simp only: power_strict_increasing_iff one_less_numeral_iff semiring_norm)
  then have six: "six_digits a 1 = (let q = div_half_even a (10 ^ (k - 6)) in
      if q = 10 ^ 6 then (10 ^ 5, int k) else (q, int k - 1))"
    using six_digits_int [OF a k_def] by simp
  have ex: "show_exponent (int x) = ''e+'' @ (if x < 10 then CHR ''0'' # show_nat x else show_nat x)" for x
    by (simp add: show_exponent_def show_int_def)
  define q where "q = div_half_even a (10 ^ (k - 6))"
  define m x where "m = (if q = 10 ^ 6 then 10 ^ 5 else q)" and "x = (if q = 10 ^ 6 then k else k - 1)"
  have mx: "six_digits a 1 = (m, int x)"
    unfolding six Let_def q_def [symmetric] m_def x_def using k by simp
  have "6 \<le> x" using k by (auto simp: x_def)
  then have "show_ratio a 1 = with_point [hd (show_int m)] (tl (show_int m)) @ show_exponent (int x)"
    by (simp add: show_ratio_def mx Let_def)
  also have "\<dots> = show_sci a"
    unfolding show_sci_def Let_def k_def [symmetric] q_def [symmetric] m_def [symmetric] x_def [symmetric]
    by (simp only: ex with_point_def Let_def append_assoc)
  finally show ?thesis .
qed

lemma show_ratio_int: "0 < a \<Longrightarrow> show_ratio a 1 = show_double a"
  using show_ratio_fixed [of a] show_ratio_sci [of a] by (simp add: show_double_def Let_def)

lemma integral_text_pos:
  assumes "mag_value (dbl_mag x) = of_int n" "0 < n" "dbl_ratio x = (a, b)"
  shows "a \<noteq> 0 \<and> show_ratio a b = show_double n"
proof -
  have b: "0 < b" "of_int a / of_int b = (of_int n :: real)" using dbl_ratio_value [OF assms(3)] assms(1) by simp_all
  then have "(of_int a :: real) = of_int (n * b)" by (simp add: field_simps)
  then have "a = n * b" by (simp only: of_int_eq_iff)
  with show_ratio_scale [OF b(1), of 1 n] assms(2) b(1) show_ratio_int [OF assms(2)] show ?thesis by simp
qed

lemma integral_double_text:
  assumes "dbl_finite x" "dbl_value x = of_int n" "n = 0 \<Longrightarrow> \<not> dbl_neg x"
  shows "double_text x = show_double n"
proof -
  have fin: "dbl_mag x \<noteq> kInfinity" "\<not> kInfinity < dbl_mag x" using assms(1) by (simp_all add: dbl_finite_def)
  obtain a b where ab: "dbl_ratio x = (a, b)" by fastforce
  have nn: "0 \<le> mag_value (dbl_mag x)" by (rule mag_value_nonneg) (simp add: dbl_mag_def)
  have zero: "show_int 0 = ''0''" by code_simp
  consider "n = 0" | "0 < n" | "n < 0" by linarith
  then show ?thesis
  proof cases
    case 1
    then have "mag_value (dbl_mag x) = 0" "\<not> dbl_neg x" using assms by (simp_all add: dbl_value_def)
    then have "a = 0" using dbl_ratio_value [OF ab] by simp
    then show ?thesis using 1 fin \<open>\<not> dbl_neg x\<close> ab
      by (simp add: double_text_def show_double_def zero)
  next
    case 2
    then have "\<not> dbl_neg x" using assms(2) nn by (auto simp: dbl_value_def)
    moreover from this have "mag_value (dbl_mag x) = of_int n" using assms(2) by (simp add: dbl_value_def)
    ultimately show ?thesis using integral_text_pos [OF _ 2 ab] fin ab by (simp add: double_text_def)
  next
    case 3
    then have "dbl_neg x" using assms(2) nn by (auto simp: dbl_value_def split: if_splits)
    moreover from this have "mag_value (dbl_mag x) = of_int (- n)" using assms(2) by (simp add: dbl_value_def)
    moreover have "show_double n = ''-'' @ show_double (- n)"
      using 3 by (simp add: show_double_def Let_def show_int_def)
    ultimately show ?thesis using integral_text_pos [of x "- n" a b] 3 fin ab by (simp add: double_text_def)
  qed
qed

section \<open>Histograms\<close>

lemma length_bump [simp]: "length (bump_buckets d bs ns) = length ns"
  by (induction d bs ns rule: bump_buckets.induct) auto

lemma nth_bump:
  "length bs = length ns \<Longrightarrow> i < length ns \<Longrightarrow>
    bump_buckets d bs ns ! i = ns ! i + (if d \<le> bs ! i then 1 else 0)"
proof (induction d bs ns arbitrary: i rule: bump_buckets.induct)
  case (1 d b bounds n counts)
  then show ?case by (cases i) auto
qed auto

text \<open>
  The reference: a histogram is determined by the durations it has seen. The count of a
  bucket is the number of durations at or below its bound (buckets are cumulative).
\<close>

definition hist_of :: "int list \<Rightarrow> histogram" where
  "hist_of ds = foldl (\<lambda>h d. observe d h) default_histogram ds"

lemma hist_of_Nil [simp]: "hist_of [] = default_histogram"
  by (simp add: hist_of_def)

lemma hist_of_snoc: "hist_of (ds @ [d]) = observe d (hist_of ds)"
  by (simp add: hist_of_def)

definition at_most :: "int list \<Rightarrow> int \<Rightarrow> int" where
  "at_most ds b = int (length (filter (\<lambda>d. d \<le> b) ds))"

lemma at_most_snoc: "at_most (ds @ [d]) b = at_most ds b + (if d \<le> b then 1 else 0)"
  by (simp add: at_most_def)

lemma hist_of_count: "h_count (hist_of ds) = int (length ds)"
  by (induction ds rule: rev_induct)
    (simp_all add: hist_of_snoc observe_def Let_def, simp add: hist_of_def default_histogram_def)

lemma hist_of_buckets:
  "ds \<noteq> [] \<Longrightarrow> bucket_counts (hist_of ds) = map (at_most ds) kBucketsMs"
proof (induction ds rule: rev_induct)
  case (snoc d ds)
  let ?old = "if bucket_counts (hist_of ds) = [] then replicate (length kBucketsMs) 0 else bucket_counts (hist_of ds)"
  have old: "?old = map (at_most ds) kBucketsMs"
  proof (cases "ds = []")
    case True
    then show ?thesis by (simp add: hist_of_def default_histogram_def at_most_def kBucketsMs_def)
  next
    case False
    with snoc.IH show ?thesis by (simp add: kBucketsMs_def)
  qed
  have "bucket_counts (hist_of (ds @ [d])) = bump_buckets d kBucketsMs (map (at_most ds) kBucketsMs)"
    by (simp add: hist_of_snoc observe_def Let_def old [symmetric])
  also have "\<dots> = map (at_most (ds @ [d])) kBucketsMs"
    by (rule nth_equalityI) (simp_all add: nth_bump at_most_snoc)
  finally show ?case .
qed simp

lemma at_most_mono: "b \<le> c \<Longrightarrow> at_most ds b \<le> at_most ds c"
  by (induction ds) (auto simp: at_most_def)

lemma at_most_le_length: "at_most ds b \<le> int (length ds)"
  by (simp add: at_most_def)

lemma hist_of_sum:
  "sum_list (map abs ds) < 2 ^ 53 \<Longrightarrow> sum_ms (hist_of ds) = sum_list ds"
proof (induction ds rule: rev_induct)
  case Nil
  then show ?case by (simp add: hist_of_def default_histogram_def)
next
  case (snoc d ds)
  have le: "\<bar>sum_list xs\<bar> \<le> sum_list (map abs xs)" for xs :: "int list"
    by (induction xs) auto
  from snoc.prems have "\<bar>sum_list ds + d\<bar> < 2 ^ 53"
    using le [of ds] abs_triangle_ineq [of "sum_list ds" d] by simp
  with snoc show ?case
    by (simp add: hist_of_snoc observe_def Let_def round53_exact)
qed

section \<open>The registry as a function of what was recorded\<close>

text \<open>
  An event is a recorded invocation: its status, whether it was cold, its duration.
\<close>

type_synonym invocation_event = "string \<times> bool \<times> int"

definition record_event :: "metrics \<Rightarrow> invocation_event \<Rightarrow> metrics" where
  "record_event m e = record_invocation (fst e) (fst (snd e)) (snd (snd e)) m"

definition durations :: "bool \<Rightarrow> invocation_event list \<Rightarrow> int list" where
  "durations cold evs = map (\<lambda>e. snd (snd e)) (filter (\<lambda>e. fst (snd e) = cold) evs)"

definition occurrences :: "string \<Rightarrow> bool \<Rightarrow> invocation_event list \<Rightarrow> int" where
  "occurrences status cold evs = int (length (filter (\<lambda>e. fst e = status \<and> fst (snd e) = cold) evs))"

text \<open>The abstract specification: the registry holds exactly what the events determine.\<close>

definition reflects :: "invocation_event list \<Rightarrow> metrics \<Rightarrow> bool" where
  "reflects evs m \<longleftrightarrow>
     om_ok (invocation_counts m) \<and> om_ok (duration_histograms m)
     \<and> (\<forall>s c. om_find (invocation_counts m) (s, c) =
           (if occurrences s c evs = 0 then None else Some (occurrences s c evs)))
     \<and> (\<forall>c. om_find (duration_histograms m) c =
           (if durations c evs = [] then None else Some (hist_of (durations c evs))))"

lemma reflects_init: "reflects [] init_metrics"
  by (simp add: reflects_def init_metrics_def occurrences_def durations_def)

lemma hist_lookup:
  "reflects evs m \<Longrightarrow> (case om_find (duration_histograms m) c of None \<Rightarrow> default_histogram | Some h \<Rightarrow> h)
     = hist_of (durations c evs)"
  by (simp add: reflects_def hist_of_def)

lemma reflects_snoc:
  assumes "reflects evs m"
  shows "reflects (evs @ [e]) (record_event m e)"
proof -
  obtain s c d where e: "e = (s, c, d)" by (cases e)
  have occ: "occurrences s' c' (evs @ [e]) = occurrences s' c' evs + (if s' = s \<and> c' = c then 1 else 0)" for s' c'
    by (cases "s' = s"; cases c; cases c') (simp_all add: occurrences_def e)
  have dur: "durations c' (evs @ [e]) = (if c' = c then durations c evs @ [d] else durations c' evs)" for c'
    by (simp add: durations_def e)
  have nonneg: "0 \<le> occurrences s' c' evs" for s' c' by (simp add: occurrences_def)
  have ic: "om_find (invocation_counts m) (s', c') =
      (if occurrences s' c' evs = 0 then None else Some (occurrences s' c' evs))" for s' c'
    using assms unfolding reflects_def by blast
  have dh: "om_find (duration_histograms m) c' =
      (if durations c' evs = [] then None else Some (hist_of (durations c' evs)))" for c'
    using assms unfolding reflects_def by blast
  have "om_find (invocation_counts (record_event m e)) (s', c') =
      (if occurrences s' c' (evs @ [e]) = 0 then None else Some (occurrences s' c' (evs @ [e])))" for s' c'
    unfolding occ using nonneg [of s c]
    by (simp add: record_event_def record_invocation_def Let_def e om_find_incr ic)
  moreover have "om_find (duration_histograms (record_event m e)) c' =
      (if durations c' (evs @ [e]) = [] then None else Some (hist_of (durations c' (evs @ [e]))))" for c'
    unfolding dur
    by (simp add: record_event_def record_invocation_def Let_def e om_find_put hist_lookup [OF assms] hist_of_snoc dh)
  ultimately show ?thesis
    using assms by (simp add: reflects_def record_event_def record_invocation_def Let_def om_ok_incr om_ok_put)
qed

lemma reflects_fold: "reflects evs (foldl record_event init_metrics evs)"
  by (induction evs rule: rev_induct) (simp_all add: reflects_init reflects_snoc)

section \<open>Lines of the rendering\<close>

lemma sublist_concat_map: "x \<in> set xs \<Longrightarrow> sublist (f x) (concat (map f xs))"
proof -
  assume "x \<in> set xs"
  then obtain ys zs where "xs = ys @ x # zs" by (meson split_list)
  then have "concat (map f xs) = concat (map f ys) @ f x @ concat (map f zs)" by simp
  then show ?thesis by (metis sublist_appendI)
qed

lemma sublist_concat: "p \<in> set ps \<Longrightarrow> sublist p (concat ps)"
  using sublist_concat_map [of p ps id] by simp

lemma render_pieces:
  "render active m = concat [''# HELP faas_active_runtimes Number of runtimes currently active.'' @ [LF],
     ''# TYPE faas_active_runtimes gauge'' @ [LF], ''faas_active_runtimes '' @ show_int active @ [LF],
     ''# HELP faas_invocations_total Total invocations by outcome and cold/warm.'' @ [LF],
     ''# TYPE faas_invocations_total counter'', [LF], concat (map invocation_line (invocation_counts m)),
     ''# HELP faas_invocation_duration_ms Invocation duration in milliseconds.'' @ [LF],
     ''# TYPE faas_invocation_duration_ms histogram'' @ [LF], concat (map histogram_lines (duration_histograms m)),
     ''# HELP faas_runtimes_created_total Total runtimes created (cold starts).'' @ [LF],
     ''# TYPE faas_runtimes_created_total counter'' @ [LF], ''faas_runtimes_created_total '' @ show_int (runtimes_created m) @ [LF],
     ''# HELP faas_runtimes_terminated_total Total runtimes stopped, by reason.'' @ [LF],
     ''# TYPE faas_runtimes_terminated_total counter'' @ [LF], concat (map terminated_line (runtimes_terminated m))]"
  by (simp add: render_def)

lemma render_contains:
  "sublist (''faas_active_runtimes '' @ show_int active @ [LF]) (render active m)"
  "sublist (''faas_runtimes_created_total '' @ show_int (runtimes_created m) @ [LF]) (render active m)"
  "sublist ''# TYPE faas_invocations_total counter'' (render active m)"
  "e \<in> set (invocation_counts m) \<Longrightarrow> sublist (invocation_line e) (render active m)"
  "h \<in> set (duration_histograms m) \<Longrightarrow> sublist (histogram_lines h) (render active m)"
  "t \<in> set (runtimes_terminated m) \<Longrightarrow> sublist (terminated_line t) (render active m)"
proof -
  show "e \<in> set (invocation_counts m) \<Longrightarrow> sublist (invocation_line e) (render active m)"
    by (rule sublist_order.order_trans [OF sublist_concat_map [where f = invocation_line]], assumption,
        unfold render_pieces, rule sublist_concat, simp)
  show "h \<in> set (duration_histograms m) \<Longrightarrow> sublist (histogram_lines h) (render active m)"
    by (rule sublist_order.order_trans [OF sublist_concat_map [where f = histogram_lines]], assumption,
        unfold render_pieces, rule sublist_concat, simp)
  show "t \<in> set (runtimes_terminated m) \<Longrightarrow> sublist (terminated_line t) (render active m)"
    by (rule sublist_order.order_trans [OF sublist_concat_map [where f = terminated_line]], assumption,
        unfold render_pieces, rule sublist_concat, simp)
qed (unfold render_pieces, (rule sublist_concat, simp)+)

lemma sublist_prefixD: "sublist (p @ q) out \<Longrightarrow> sublist p out"
  by (rule sublist_order.order_trans [OF sublist_append_rightI])

lemma bucket_lines_zip: "bucket_lines c bs ns = concat (map (\<lambda>e. bucket_line c (show_double (fst e)) (snd e)) (zip bs ns))"
  by (induction c bs ns rule: bucket_lines.induct) auto

end
