(* ===== verification/Function_Spec.thy ===== *)
theory Function_Spec
  imports Prelude
begin

text \<open>
  \<^verbatim>\<open>control-plane/include/faas/function.hpp\<close> and \<^verbatim>\<open>runtime_state.hpp\<close>: what a function is, and
  the states a runtime can be in.
\<close>

datatype function_status = FN_READY

definition function_status_to_string :: "function_status \<Rightarrow> string" where
  "function_status_to_string status = (case status of FN_READY \<Rightarrow> ''READY'')"

record function_spec =
  fs_name :: string
  fs_version :: c_int
  fs_image :: string
  fs_timeout_ms :: c_int
  fs_memory_mb :: c_int
  fs_cpu :: c_double
  fs_max_concurrency :: c_int
  fs_idle_timeout_ms :: c_long

text \<open>The default member initialisers; \<open>0x3FE0000000000000\<close> is the double 0.5.\<close>

definition default_spec :: function_spec where
  "default_spec = \<lparr>fs_name = '''', fs_version = 1, fs_image = '''', fs_timeout_ms = 5000, fs_memory_mb = 256,
     fs_cpu = 0x3FE0000000000000, fs_max_concurrency = 1, fs_idle_timeout_ms = 60000\<rparr>"

record function_rec =
  fn_spec :: function_spec
  fn_status :: function_status
  fn_created_at :: c_long       \<comment> \<open>seconds, as \<^verbatim>\<open>from_time_t\<close> takes them\<close>

datatype runtime_state = STARTING | READY | BUSY | IDLE | FAILED | TERMINATED

definition runtime_state_to_string :: "runtime_state \<Rightarrow> string" where
  "runtime_state_to_string s = (case s of
     STARTING \<Rightarrow> ''STARTING'' | READY \<Rightarrow> ''READY'' | BUSY \<Rightarrow> ''BUSY'' | IDLE \<Rightarrow> ''IDLE''
   | FAILED \<Rightarrow> ''FAILED'' | TERMINATED \<Rightarrow> ''TERMINATED'')"

lemma runtime_state_to_string_inj: "runtime_state_to_string s = runtime_state_to_string t \<longleftrightarrow> s = t"
  by (cases s; cases t) (simp_all add: runtime_state_to_string_def)

end
