(* ===== verification/Runtime_Manager.thy ===== *)
theory Runtime_Manager
  imports Runtime_Backend Http_Client Metrics Function_Spec
begin

text \<open>
  \<^verbatim>\<open>control-plane/src/runtime_manager.cpp\<close>: the map from function names to running containers,
  cold starts, warm reuse, the retry against a dead runtime, timeouts, the idle reaper.

  \<^verbatim>\<open>try_invoke\<close> takes the manager's lock twice. The code between the two lock operations is
  one definition each (\<open>checkout\<close>, \<open>settle\<close>), so that this theory composes them in one
  thread and \<open>Runtime_Threads\<close> interleaves them between threads. \<^const>\<open>None\<close> is a call that
  never returns because a socket blocks for ever.
\<close>

section \<open>Definitions\<close>

definition kContainerPort :: int where "kContainerPort = 8080"
definition kReadinessAttempts :: nat where "kReadinessAttempts = 50"
definition kReadinessIntervalMs :: int where "kReadinessIntervalMs = 100"
definition kHealthCheckTimeoutMs :: int where "kHealthCheckTimeoutMs = 2000"
definition kReaperIntervalMs :: int where "kReaperIntervalMs = 500"

record runtime =
  container_id :: string
  host_port :: int
  rt_state :: runtime_state
  last_used_at :: int
  idle_timeout_ms :: c_long

definition default_runtime :: runtime where
  "default_runtime = \<lparr>container_id = '''', host_port = 0, rt_state = STARTING, last_used_at = 0, idle_timeout_ms = 0\<rparr>"

record invocation_result =
  ir_status :: string
  ir_output :: string
  ir_duration_ms :: int
  ir_cold_start :: bool

record runtime_status =
  rs_state :: runtime_state
  rs_container_id :: string
  rs_host_port :: int
  rs_idle_ms :: int

record runtime_list_entry =
  rl_function_name :: string
  rl_state :: runtime_state
  rl_container_id :: string
  rl_host_port :: int
  rl_idle_ms :: int

text \<open>The manager's members, the metrics it refers to, and the world it acts on.\<close>

record manager =
  runtimes :: "(string, runtime) omap"
  mmetrics :: metrics
  mworld :: world

definition init_manager :: "world \<Rightarrow> manager" where
  "init_manager w = \<lparr>runtimes = [], mmetrics = init_metrics, mworld = w\<rparr>"

definition elapsed_ms :: "env \<Rightarrow> int \<Rightarrow> world \<Rightarrow> int \<times> world" where
  "elapsed_ms env start w = (let (now, w') = steady_now env w in (ms_of_ns (now - start), w'))"

definition is_healthy :: "env \<Rightarrow> int \<Rightarrow> world \<Rightarrow> (bool \<times> world) option" where
  "is_healthy env port w =
     (case client_get env ''127.0.0.1'' port ''/health'' kHealthCheckTimeoutMs w of
        None \<Rightarrow> None
      | Some (resp, w') \<Rightarrow> Some (cr_ok resp \<and> 200 \<le> cr_status resp \<and> cr_status resp < 300, w'))"

text \<open>The readiness loop, with the attempts that are left.\<close>

fun wait_ready :: "env \<Rightarrow> int \<Rightarrow> nat \<Rightarrow> world \<Rightarrow> (bool \<times> world) option" where
  "wait_ready env port 0 w = Some (False, w)"
| "wait_ready env port (Suc n) w =
     (case is_healthy env port w of
        None \<Rightarrow> None
      | Some (healthy, w') \<Rightarrow>
          if healthy then Some (True, w')
          else wait_ready env port n (sleep_ms kReadinessIntervalMs w'))"

definition start_runtime :: "env \<Rightarrow> backend \<Rightarrow> function_spec \<Rightarrow> world \<Rightarrow> ((string + runtime) \<times> world) option" where
  "start_runtime env be spec w =
     (let (run, w1) = run_container be (fs_image spec) kContainerPort w in
      if \<not> rr_ok run then Some (Inl (''failed to start container: '' @ rr_error run), w1)
      else let (port, w2) = get_host_port be (rr_id run) kContainerPort w1 in
        if port \<le> 0
        then let (_, w3) = remove_container be (rr_id run) w2 in
          Some (Inl (''failed to determine host port for container '' @ rr_id run), w3)
        else (case wait_ready env port kReadinessAttempts w2 of
            None \<Rightarrow> None
          | Some (ready, w3) \<Rightarrow>
              if ready
              then Some (Inr (default_runtime\<lparr>container_id := rr_id run, host_port := port,
                     idle_timeout_ms := fs_idle_timeout_ms spec\<rparr>), w3)
              else let (_, w4) = remove_container be (rr_id run) w3 in
                Some (Inl ''container did not become healthy within the startup window'', w4)))"

text \<open>The reaper: one entry of the map, the loop over the map, one round of the thread.\<close>

definition expired :: "int \<Rightarrow> runtime \<Rightarrow> bool" where
  "expired now rt \<longleftrightarrow> rt_state rt = IDLE \<and> sint (idle_timeout_ms rt) \<le> ms_of_ns (now - last_used_at rt)"

fun reap_entries :: "backend \<Rightarrow> int \<Rightarrow> (string, runtime) omap \<Rightarrow> metrics \<Rightarrow> world \<Rightarrow> (string, runtime) omap \<times> metrics \<times> world" where
  "reap_entries be now [] m w = ([], m, w)"
| "reap_entries be now ((nm, rt) # es) m w =
     (if expired now rt
      then let (_, w1) = remove_container be (container_id rt) w
        in reap_entries be now es (record_runtime_terminated ''idle_timeout'' m) w1
      else let (es', m', w') = reap_entries be now es m w in ((nm, rt) # es', m', w'))"

definition reap_locked :: "env \<Rightarrow> backend \<Rightarrow> manager \<Rightarrow> manager" where
  "reap_locked env be mg =
     (let (now, w1) = steady_now env (mworld mg);
          (es, m, w2) = reap_entries be now (runtimes mg) (mmetrics mg) w1
      in \<lparr>runtimes = es, mmetrics = m, mworld = w2\<rparr>)"

definition reap_round :: "env \<Rightarrow> backend \<Rightarrow> manager \<Rightarrow> manager" where
  "reap_round env be mg = reap_locked env be (mg\<lparr>mworld := sleep_ms kReaperIntervalMs (mworld mg)\<rparr>)"

text \<open>\<^verbatim>\<open>while (running_)\<close>: the rounds made before the destructor clears the flag.\<close>

fun reap_idle_runtimes :: "env \<Rightarrow> backend \<Rightarrow> nat \<Rightarrow> manager \<Rightarrow> manager" where
  "reap_idle_runtimes env be 0 mg = mg"
| "reap_idle_runtimes env be (Suc n) mg = reap_idle_runtimes env be n (reap_round env be mg)"

definition runtime_status_of :: "env \<Rightarrow> string \<Rightarrow> manager \<Rightarrow> runtime_status option \<times> manager" where
  "runtime_status_of env function_name mg =
     (case om_find (runtimes mg) function_name of
        None \<Rightarrow> (None, mg)
      | Some rt \<Rightarrow>
          let (now, w') = steady_now env (mworld mg) in
          (Some \<lparr>rs_state = rt_state rt, rs_container_id = container_id rt, rs_host_port = host_port rt,
                 rs_idle_ms = ms_of_ns (now - last_used_at rt)\<rparr>, mg\<lparr>mworld := w'\<rparr>))"

definition list_entry :: "int \<Rightarrow> string \<times> runtime \<Rightarrow> runtime_list_entry" where
  "list_entry now p =
     \<lparr>rl_function_name = fst p, rl_state = rt_state (snd p), rl_container_id = container_id (snd p),
      rl_host_port = host_port (snd p), rl_idle_ms = ms_of_ns (now - last_used_at (snd p))\<rparr>"

definition list_runtimes :: "env \<Rightarrow> manager \<Rightarrow> runtime_list_entry list \<times> manager" where
  "list_runtimes env mg =
     (let (now, w') = steady_now env (mworld mg)
      in (map (list_entry now) (runtimes mg), mg\<lparr>mworld := w'\<rparr>))"

definition drop_runtime :: "backend \<Rightarrow> string \<Rightarrow> string \<Rightarrow> string \<Rightarrow> manager \<Rightarrow> manager" where
  "drop_runtime be function_name cid reason mg =
     (let (_, w') = remove_container be cid (mworld mg)
      in mg\<lparr>runtimes := om_erase function_name (runtimes mg),
            mmetrics := record_runtime_terminated reason (mmetrics mg),
            mworld := w'\<rparr>)"

definition terminate :: "backend \<Rightarrow> string \<Rightarrow> manager \<Rightarrow> manager" where
  "terminate be function_name mg =
     (case om_find (runtimes mg) function_name of
        None \<Rightarrow> mg
      | Some rt \<Rightarrow> drop_runtime be function_name (container_id rt) ''deleted'' mg)"

subsection \<open>One attempt\<close>

text \<open>
  The first critical section: find or create the runtime and mark it busy. The result is
  the error of a failed start, or whether it was a cold start, the port and the container.
\<close>

definition mark_busy :: "env \<Rightarrow> string \<Rightarrow> bool \<Rightarrow> runtime \<Rightarrow> manager \<Rightarrow> (string + bool \<times> int \<times> string) \<times> manager" where
  "mark_busy env nm cold rt mg =
     (let (now, w') = steady_now env (mworld mg)
      in (Inr (cold, host_port rt, container_id rt),
          mg\<lparr>runtimes := om_put nm (rt\<lparr>rt_state := BUSY, last_used_at := now\<rparr>) (runtimes mg), mworld := w'\<rparr>))"

definition checkout :: "env \<Rightarrow> backend \<Rightarrow> function_spec \<Rightarrow> manager \<Rightarrow> ((string + bool \<times> int \<times> string) \<times> manager) option" where
  "checkout env be spec mg =
     (case om_find (runtimes mg) (fs_name spec) of
        None \<Rightarrow>
          (case start_runtime env be spec (mworld mg) of
             None \<Rightarrow> None
           | Some (Inl err, w') \<Rightarrow> Some (Inl err, mg\<lparr>mworld := w'\<rparr>)
           | Some (Inr rt, w') \<Rightarrow>
               Some (mark_busy env (fs_name spec) True rt
                 (mg\<lparr>runtimes := om_put (fs_name spec) rt (runtimes mg),
                     mmetrics := record_runtime_created (mmetrics mg), mworld := w'\<rparr>)))
      | Some rt \<Rightarrow> Some (mark_busy env (fs_name spec) False rt mg))"

text \<open>
  The second critical section: what the response means. Besides the status and the output
  it gives \<^verbatim>\<open>connection_failed\<close>.
\<close>

definition still_tracked :: "string \<Rightarrow> string \<Rightarrow> manager \<Rightarrow> bool" where
  "still_tracked nm cid mg = (case om_find (runtimes mg) nm of None \<Rightarrow> False | Some rt \<Rightarrow> container_id rt = cid)"

definition mark_idle :: "env \<Rightarrow> string \<Rightarrow> manager \<Rightarrow> manager" where
  "mark_idle env nm mg =
     (case om_find (runtimes mg) nm of
        None \<Rightarrow> mg
      | Some rt \<Rightarrow>
          let (now, w') = steady_now env (mworld mg) in
          mg\<lparr>runtimes := om_put nm (rt\<lparr>rt_state := IDLE, last_used_at := now\<rparr>) (runtimes mg), mworld := w'\<rparr>)"

definition settle :: "env \<Rightarrow> backend \<Rightarrow> function_spec \<Rightarrow> string \<Rightarrow> client_response \<Rightarrow> manager \<Rightarrow> (string \<times> string \<times> bool) \<times> manager" where
  "settle env be spec cid resp mg =
     (let tracked = still_tracked (fs_name spec) cid mg in
      if cr_timed_out resp then
        ((''timeout'', ''function exceeded timeout of '' @ show_int (sint (fs_timeout_ms spec)) @ ''ms'', False),
         if tracked then drop_runtime be (fs_name spec) cid ''timeout'' mg else mg)
      else if \<not> cr_ok resp then
        ((''infra_error'', cr_error resp, True),
         if tracked then drop_runtime be (fs_name spec) cid ''dead'' mg else mg)
      else if 200 \<le> cr_status resp \<and> cr_status resp < 300 then
        ((''success'', cr_body resp, False), if tracked then mark_idle env (fs_name spec) mg else mg)
      else
        ((''error'', cr_body resp, False), if tracked then mark_idle env (fs_name spec) mg else mg))"

definition call_runtime :: "env \<Rightarrow> function_spec \<Rightarrow> string \<Rightarrow> int \<Rightarrow> world \<Rightarrow> (client_response \<times> world) option" where
  "call_runtime env spec input_json port w =
     client_post env ''127.0.0.1'' port ''/invoke'' input_json ''application/json'' (sint (fs_timeout_ms spec)) w"

definition try_invoke ::
  "env \<Rightarrow> backend \<Rightarrow> function_spec \<Rightarrow> string \<Rightarrow> int \<Rightarrow> manager \<Rightarrow> (invocation_result \<times> bool \<times> manager) option" where
  "try_invoke env be spec input_json start mg =
     (case checkout env be spec mg of
        None \<Rightarrow> None
      | Some (Inl err, mg1) \<Rightarrow>
          let (duration, w') = elapsed_ms env start (mworld mg1) in
          Some (\<lparr>ir_status = ''infra_error'', ir_output = err, ir_duration_ms = duration, ir_cold_start = False\<rparr>,
                False, mg1\<lparr>mworld := w'\<rparr>)
      | Some (Inr (cold, port, cid), mg1) \<Rightarrow>
          (case call_runtime env spec input_json port (mworld mg1) of
             None \<Rightarrow> None
           | Some (resp, w2) \<Rightarrow>
               let (duration, w3) = elapsed_ms env start w2;
                   ((status, out, connection_failed), mg2) = settle env be spec cid resp (mg1\<lparr>mworld := w3\<rparr>)
               in Some (\<lparr>ir_status = status, ir_output = out, ir_duration_ms = duration, ir_cold_start = cold\<rparr>,
                        connection_failed, mg2)))"

definition finish_invoke :: "invocation_result \<Rightarrow> manager \<Rightarrow> manager" where
  "finish_invoke r mg =
     mg\<lparr>mmetrics := record_invocation (ir_status r) (ir_cold_start r) (double_of_long (ir_duration_ms r)) (mmetrics mg)\<rparr>"

definition invoke :: "env \<Rightarrow> backend \<Rightarrow> function_spec \<Rightarrow> string \<Rightarrow> manager \<Rightarrow> (invocation_result \<times> manager) option" where
  "invoke env be spec input_json mg =
     (let (start, w0) = steady_now env (mworld mg) in
      case try_invoke env be spec input_json start (mg\<lparr>mworld := w0\<rparr>) of
        None \<Rightarrow> None
      | Some (r1, connection_failed, mg1) \<Rightarrow>
          if connection_failed \<and> \<not> ir_cold_start r1
          then (case try_invoke env be spec input_json start mg1 of
                  None \<Rightarrow> None
                | Some (r2, _, mg2) \<Rightarrow> Some (r2, finish_invoke r2 mg2))
          else Some (r1, finish_invoke r1 mg1))"

section \<open>Effects are only added\<close>

lemma elapsed_ms_simps [simp]:
  "fst (elapsed_ms env start w) = ms_of_ns (e_now env (hist w) - start)"
  "snd (elapsed_ms env start w) = snd (steady_now env w)"
  by (simp_all add: elapsed_ms_def case_prod_beta)

lemma is_healthy_extends: "is_healthy env p w = Some (b, w') \<Longrightarrow> extends w w'"
  by (auto simp: is_healthy_def client_get_def split: option.splits dest: request_world)

lemma wait_ready_extends: "wait_ready env p n w = Some (b, w') \<Longrightarrow> extends w w'"
proof (induction n arbitrary: w)
  case (Suc n)
  then obtain h w1 where h: "is_healthy env p w = Some (h, w1)"
    by (auto split: option.splits)
  then have "extends w w1" by (rule is_healthy_extends)
  moreover have "extends w1 w'"
    using Suc h by (auto split: if_splits intro: extends_trans [OF extends_sleep])
  ultimately show ?case by (rule extends_trans)
qed simp

lemma call_runtime_world:
  "call_runtime env spec inp p w = Some (r, w') \<Longrightarrow> extends w w' \<and> outcome_ok r"
  by (auto simp: call_runtime_def client_post_def dest: request_world request_outcome)

lemma wait_ready_returns:
  assumes "\<And>h host port. finite_peer (e_peer env h host port)"
  shows "wait_ready env p n w \<noteq> None"
proof (induction n arbitrary: w)
  case (Suc n)
  have "is_healthy env p w \<noteq> None"
    using request_returns [of kHealthCheckTimeoutMs env w "''127.0.0.1''" p] assms
    by (auto simp: is_healthy_def client_get_def kHealthCheckTimeoutMs_def split: option.splits)
  with Suc show ?case by (auto split: option.splits)
qed simp

section \<open>The invariant\<close>

text \<open>
  A tracked runtime is busy or idle (never any other state), has a usable port and a
  container id that can be handed to the shell.
\<close>

definition tracked_ok :: "runtime \<Rightarrow> bool" where
  "tracked_ok rt \<longleftrightarrow> (rt_state rt = BUSY \<or> rt_state rt = IDLE)
     \<and> 0 < host_port rt \<and> host_port rt < 2 ^ 31 \<and> is_safe_token (container_id rt)"

text \<open>The books balance: runtimes created are the ones terminated and the ones tracked.\<close>

definition balanced :: "manager \<Rightarrow> bool" where
  "balanced mg \<longleftrightarrow> runtimes_created (mmetrics mg) =
     om_total (runtimes_terminated (mmetrics mg)) + int (length (runtimes mg))"

definition mgr_ok :: "manager \<Rightarrow> bool" where
  "mgr_ok mg \<longleftrightarrow> om_ok (runtimes mg) \<and> om_ok (runtimes_terminated (mmetrics mg)) \<and> balanced mg
     \<and> (\<forall>k rt. om_find (runtimes mg) k = Some rt \<longrightarrow> tracked_ok rt)"

text \<open>
  Between two states no container was forgotten: one that was tracked and is not any more
  was removed with the backend's command.
\<close>

definition no_orphans :: "(string \<Rightarrow> string) \<Rightarrow> manager \<Rightarrow> manager \<Rightarrow> bool" where
  "no_orphans rm_line mg mg' \<longleftrightarrow>
     (\<forall>k rt. om_find (runtimes mg) k = Some rt
        \<and> \<not> still_tracked k (container_id rt) mg'
        \<longrightarrow> Shell (rm_line (container_id rt)) \<in> set (new_effects (mworld mg) (mworld mg')))"

named_theorems mgr_simps \<open>how the operations act on the manager\<close>

lemma metrics_created_simps [mgr_simps, simp]:
  "runtimes_created (record_runtime_created m) = runtimes_created m + 1"
  "runtimes_terminated (record_runtime_created m) = runtimes_terminated m"
  "runtimes_created (record_runtime_terminated r m) = runtimes_created m"
  "runtimes_terminated (record_runtime_terminated r m) = om_incr r (runtimes_terminated m)"
  "runtimes_created (record_invocation st c d m) = runtimes_created m"
  "runtimes_terminated (record_invocation st c d m) = runtimes_terminated m"
  by (simp_all add: record_runtime_created_def record_runtime_terminated_def record_invocation_def Let_def)

lemma mgr_ok_init: "mgr_ok (init_manager w)"
  by (simp add: mgr_ok_def init_manager_def balanced_def init_metrics_def om_total_def)

lemma mgr_ok_world [simp]: "mgr_ok (mg\<lparr>mworld := w\<rparr>) = mgr_ok mg"
  by (simp add: mgr_ok_def balanced_def)

lemma mgr_ok_put:
  assumes "mgr_ok mg" "om_find (runtimes mg) k \<noteq> None" "tracked_ok rt"
  shows "mgr_ok (mg\<lparr>runtimes := om_put k rt (runtimes mg)\<rparr>)"
  using assms by (auto simp: mgr_ok_def balanced_def om_ok_put om_find_put om.size_put)

lemma mgr_ok_emplace:
  assumes "mgr_ok mg" "om_find (runtimes mg) k = None" "tracked_ok rt"
  shows "mgr_ok (mg\<lparr>runtimes := om_put k rt (runtimes mg), mmetrics := record_runtime_created (mmetrics mg)\<rparr>)"
  using assms by (auto simp: mgr_ok_def balanced_def om_ok_put om_find_put om.size_put)

lemma no_orphans_refl [simp]: "no_orphans rm_line mg (mg\<lparr>mworld := w\<rparr>)"
  by (auto simp: no_orphans_def still_tracked_def)

text \<open>One operation of the manager: the invariant holds after it and nothing was forgotten.\<close>

definition kept :: "(string \<Rightarrow> string) \<Rightarrow> manager \<Rightarrow> manager \<Rightarrow> bool" where
  "kept rm_line mg mg' \<longleftrightarrow> mgr_ok mg' \<and> extends (mworld mg) (mworld mg') \<and> no_orphans rm_line mg mg'"

lemma kept_trans [trans]:
  assumes "kept rm_line mg mg'" "kept rm_line mg' mg''"
  shows "kept rm_line mg mg''"
proof -
  have e: "extends (mworld mg) (mworld mg')" "extends (mworld mg') (mworld mg'')"
    using assms by (simp_all add: kept_def)
  have "no_orphans rm_line mg mg''"
    unfolding no_orphans_def
  proof (intro allI impI, elim conjE)
    fix k rt
    assume k: "om_find (runtimes mg) k = Some rt" "\<not> still_tracked k (container_id rt) mg''"
    show "Shell (rm_line (container_id rt)) \<in> set (new_effects (mworld mg) (mworld mg''))"
    proof (cases "still_tracked k (container_id rt) mg'")
      case True
      then obtain rt' where "om_find (runtimes mg') k = Some rt'" "container_id rt' = container_id rt"
        by (auto simp: still_tracked_def split: option.splits)
      with k(2) assms(2) have "Shell (rm_line (container_id rt)) \<in> set (new_effects (mworld mg') (mworld mg''))"
        unfolding kept_def no_orphans_def by metis
      with e show ?thesis by (rule new_effects_right)
    next
      case False
      with k(1) assms(1) have "Shell (rm_line (container_id rt)) \<in> set (new_effects (mworld mg) (mworld mg'))"
        by (auto simp: kept_def no_orphans_def)
      with e show ?thesis by (rule new_effects_left)
    qed
  qed
  with e assms(2) show ?thesis by (auto simp: kept_def intro: extends_trans)
qed

lemma kept_untracked:
  assumes "kept rm_line mg mg'" "om_find (runtimes mg) k = Some rt" "om_find (runtimes mg') k = None"
  shows "Shell (rm_line (container_id rt)) \<in> set (new_effects (mworld mg) (mworld mg'))"
proof -
  have "\<not> still_tracked k (container_id rt) mg'" using assms(3) by (simp add: still_tracked_def)
  with assms(1,2) show ?thesis unfolding kept_def no_orphans_def by blast
qed

lemma kept_world: "mgr_ok mg \<Longrightarrow> extends (mworld mg) w \<Longrightarrow> kept rm_line mg (mg\<lparr>mworld := w\<rparr>)"
  by (simp add: kept_def)

lemma kept_refl: "mgr_ok mg \<Longrightarrow> kept rm_line mg mg"
  using kept_world [of mg "mworld mg"] by simp

lemma kept_put:
  assumes "mgr_ok mg" "om_find (runtimes mg) k = Some rt" "tracked_ok rt'" "container_id rt' = container_id rt"
    and "extends (mworld mg) w"
  shows "kept rm_line mg (mg\<lparr>runtimes := om_put k rt' (runtimes mg), mworld := w\<rparr>)"
proof -
  have "mgr_ok (mg\<lparr>runtimes := om_put k rt' (runtimes mg), mworld := w\<rparr>)"
    using mgr_ok_put [OF assms(1) _ assms(3), of k] assms(2)
    by (simp add: mgr_ok_def balanced_def)
  with assms show ?thesis
    by (auto simp: kept_def no_orphans_def still_tracked_def om_find_put)
qed

lemma kept_mark_busy:
  assumes "mgr_ok mg" "om_find (runtimes mg) k = Some rt"
  shows "kept rm_line mg (snd (mark_busy env k cold rt mg))"
  using assms kept_put [OF assms]
  by (simp add: mark_busy_def case_prod_beta Let_def mgr_ok_def tracked_ok_def)

lemma kept_mark_idle:
  assumes "mgr_ok mg"
  shows "kept rm_line mg (mark_idle env k mg)"
proof (cases "om_find (runtimes mg) k")
  case None
  with assms show ?thesis by (simp add: mark_idle_def kept_refl)
next
  case (Some rt)
  with assms kept_put [OF assms Some] show ?thesis
    by (simp add: mark_idle_def case_prod_beta Let_def mgr_ok_def tracked_ok_def)
qed

text \<open>What the backend's contract gives the manager.\<close>

lemma reap_entries_runtimes: "fst (reap_entries be now es m w) = filter (\<lambda>e. \<not> expired now (snd e)) es"
  by (induction es arbitrary: m w) (auto simp: case_prod_beta Let_def)

context managed_backend
begin

lemma start_runtime_started:
  assumes "start_runtime env be spec w = Some (Inr rt, w')"
  shows "rr_ok (fst (run_container be (fs_image spec) kContainerPort w))"
    and "container_id rt = rr_id (fst (run_container be (fs_image spec) kContainerPort w))"
    and "0 < host_port rt" "host_port rt < 2 ^ 31" "is_safe_token (container_id rt)"
    and "idle_timeout_ms rt = fs_idle_timeout_ms spec" "rt_state rt = STARTING"
proof -
  let ?run = "run_container be (fs_image spec) kContainerPort w"
  let ?port = "get_host_port be (rr_id (fst ?run)) kContainerPort (snd ?run)"
  have *: "rr_ok (fst ?run) \<and> 0 < fst ?port \<and> rt = default_runtime\<lparr>container_id := rr_id (fst ?run),
      host_port := fst ?port, idle_timeout_ms := fs_idle_timeout_ms spec\<rparr>"
    using assms
    by (auto simp: start_runtime_def Let_def case_prod_beta split: if_splits option.splits)
  then show "rr_ok (fst ?run)" "container_id rt = rr_id (fst ?run)" "0 < host_port rt"
    "idle_timeout_ms rt = fs_idle_timeout_ms spec" "rt_state rt = STARTING"
    by (simp_all add: default_runtime_def)
  show "host_port rt < 2 ^ 31" using * port_range by (simp add: default_runtime_def)
  show "is_safe_token (container_id rt)"
    using * by (auto simp: default_runtime_def dest: port_positive_safe)
qed

lemma start_runtime_extends:
  assumes "start_runtime env be spec w = Some (r, w')"
  shows "extends w w'"
proof -
  let ?run = "run_container be (fs_image spec) kContainerPort w"
  let ?port = "get_host_port be (rr_id (fst ?run)) kContainerPort (snd ?run)"
  have 1: "extends w (snd ?run)" by (rule run_extends)
  also have 2: "extends (snd ?run) (snd ?port)" by (rule port_extends)
  finally have port: "extends w (snd ?port)" .
  have ready: "extends w w3" if "wait_ready env (fst ?port) kReadinessAttempts (snd ?port) = Some (b, w3)" for b w3
    using port wait_ready_extends [OF that] by (rule extends_trans)
  have rm: "extends w (snd (remove_container be i w3))" if "extends w w3" for i w3
    using that remove_extends by (rule extends_trans)
  show ?thesis
    using assms 1 port ready rm
    by (auto simp: start_runtime_def Let_def case_prod_beta split: if_splits option.splits)
qed

text \<open>A start that fails after the container was created removes the container again.\<close>

lemma start_runtime_failed:
  assumes "start_runtime env be spec w = Some (Inl err, w')"
    and "rr_ok (fst (run_container be (fs_image spec) kContainerPort w))"
    and "is_safe_token (rr_id (fst (run_container be (fs_image spec) kContainerPort w)))"
  shows "Shell (rm_line (rr_id (fst (run_container be (fs_image spec) kContainerPort w)))) \<in> set (new_effects w w')"
proof -
  let ?run = "run_container be (fs_image spec) kContainerPort w"
  let ?port = "get_host_port be (rr_id (fst ?run)) kContainerPort (snd ?run)"
  have port: "extends w (snd ?port)" using extends_trans [OF run_extends port_extends] .
  have ready: "extends w w3" if "wait_ready env (fst ?port) kReadinessAttempts (snd ?port) = Some (b, w3)" for b w3
    using port wait_ready_extends [OF that] by (rule extends_trans)
  show ?thesis
    using assms remove_after [OF port] remove_after [OF ready]
    by (auto simp: start_runtime_def Let_def case_prod_beta split: if_splits option.splits)
qed

lemma start_runtime_returns:
  assumes "\<And>h host port. finite_peer (e_peer env h host port)"
  shows "start_runtime env be spec w \<noteq> None"
proof -
  let ?run = "run_container be (fs_image spec) kContainerPort w"
  let ?port = "get_host_port be (rr_id (fst ?run)) kContainerPort (snd ?run)"
  obtain b w3 where "wait_ready env (fst ?port) kReadinessAttempts (snd ?port) = Some (b, w3)"
    using wait_ready_returns [OF assms] by (metis not_None_eq surj_pair)
  then show ?thesis by (simp add: start_runtime_def Let_def case_prod_beta)
qed

lemma drop_runtime_world:
  "extends (mworld mg) (mworld (drop_runtime be k cid reason mg))"
  using remove_extends by (simp add: drop_runtime_def case_prod_beta Let_def)

lemma mgr_ok_drop:
  assumes "mgr_ok mg" "om_find (runtimes mg) k = Some rt"
  shows "mgr_ok (drop_runtime be k cid reason mg)"
proof -
  obtain n where "length (runtimes mg) = Suc n"
    using assms(2) by (cases "runtimes mg") auto
  then show ?thesis
    using assms
    by (auto simp: mgr_ok_def drop_runtime_def case_prod_beta Let_def balanced_def om_ok_erase om_ok_incr
        om_total_incr om_find_erase om.size_erase)
qed

lemma no_orphans_drop:
  assumes "mgr_ok mg" "om_find (runtimes mg) k = Some rt" "container_id rt = cid"
  shows "no_orphans rm_line mg (drop_runtime be k cid reason mg)"
proof -
  have safe: "is_safe_token cid" using assms by (auto simp: mgr_ok_def tracked_ok_def)
  have "Shell (rm_line cid) \<in> set (new_effects (mworld mg) (mworld (drop_runtime be k cid reason mg)))"
    using remove_issues [OF safe] by (simp add: drop_runtime_def case_prod_beta Let_def)
  then show ?thesis
    using assms by (auto simp: no_orphans_def still_tracked_def drop_runtime_def case_prod_beta Let_def
        om_find_erase)
qed

lemma kept_drop:
  assumes "mgr_ok mg" "om_find (runtimes mg) k = Some rt" "container_id rt = cid"
  shows "kept rm_line mg (drop_runtime be k cid reason mg)"
  using mgr_ok_drop no_orphans_drop drop_runtime_world assms by (simp add: kept_def)

lemma kept_terminate: "mgr_ok mg \<Longrightarrow> kept rm_line mg (terminate be k mg)"
  by (auto simp: terminate_def kept_refl kept_drop split: option.split)

lemma kept_emplace:
  assumes "mgr_ok mg" "om_find (runtimes mg) k = None" "extends (mworld mg) w"
    and "0 < host_port rt" "host_port rt < 2 ^ 31" "is_safe_token (container_id rt)"
  shows "kept rm_line mg (snd (mark_busy env k True rt (mg\<lparr>runtimes := om_put k rt (runtimes mg),
           mmetrics := record_runtime_created (mmetrics mg), mworld := w\<rparr>)))"
proof -
  let ?rt = "rt\<lparr>rt_state := BUSY, last_used_at := e_now env (hist w)\<rparr>"
  have same: "om_put k ?rt (om_put k rt m) = om_put k ?rt m" for m
    by (induction k ?rt m rule: om_put.induct) auto
  have "mgr_ok (mg\<lparr>runtimes := om_put k ?rt (runtimes mg), mmetrics := record_runtime_created (mmetrics mg)\<rparr>)"
    using mgr_ok_emplace [OF assms(1,2), of ?rt] assms(4-6) by (simp add: tracked_ok_def)
  moreover have "extends (mworld mg) (snd (steady_now env w))"
    using assms(3) extends_now by (rule extends_trans)
  ultimately show ?thesis
    using assms(2) by (auto simp: kept_def mark_busy_def case_prod_beta Let_def same mgr_ok_def balanced_def
        no_orphans_def still_tracked_def om_find_put)
qed

lemma kept_checkout:
  assumes "mgr_ok mg" "checkout env be spec mg = Some (r, mg')"
  shows "kept rm_line mg mg'"
proof (cases "om_find (runtimes mg) (fs_name spec)")
  case None
  then consider err w' where "start_runtime env be spec (mworld mg) = Some (Inl err, w')" "mg' = mg\<lparr>mworld := w'\<rparr>"
    | rt w' where "start_runtime env be spec (mworld mg) = Some (Inr rt, w')"
        "mg' = snd (mark_busy env (fs_name spec) True rt (mg\<lparr>runtimes := om_put (fs_name spec) rt (runtimes mg),
                     mmetrics := record_runtime_created (mmetrics mg), mworld := w'\<rparr>))"
    using assms(2) by (auto simp: checkout_def split: option.splits sum.splits)
  then show ?thesis
    by cases (use assms(1) None start_runtime_extends start_runtime_started in \<open>auto intro: kept_world kept_emplace\<close>)
next
  case (Some rt)
  then have "mg' = snd (mark_busy env (fs_name spec) False rt mg)"
    using assms(2) by (simp add: checkout_def)
  then show ?thesis
    using kept_mark_busy [OF assms(1) Some] by simp
qed

lemma kept_settle:
  assumes "mgr_ok mg"
  shows "kept rm_line mg (snd (settle env be spec cid resp mg))"
proof -
  have drop: "kept rm_line mg (drop_runtime be (fs_name spec) cid reason mg)"
    if "still_tracked (fs_name spec) cid mg" for reason
    using that assms by (auto simp: still_tracked_def intro: kept_drop split: option.splits)
  show ?thesis
    using assms by (auto simp: settle_def Let_def kept_refl kept_mark_idle drop)
qed

lemma kept_try_invoke:
  assumes "mgr_ok mg" "try_invoke env be spec inp start mg = Some (r, cf, mg')"
  shows "kept rm_line mg mg'"
proof -
  obtain x mg1 where x: "checkout env be spec mg = Some (x, mg1)"
    using assms(2) by (auto simp: try_invoke_def split: option.splits)
  have k1: "kept rm_line mg mg1" using kept_checkout [OF assms(1) x] .
  then have ok1: "mgr_ok mg1" by (simp add: kept_def)
  show ?thesis
  proof (cases x)
    case (Inl err)
    with assms(2) x have "mg' = mg1\<lparr>mworld := snd (steady_now env (mworld mg1))\<rparr>"
      by (simp add: try_invoke_def case_prod_beta Let_def)
    with ok1 have "kept rm_line mg1 mg'" by (simp add: kept_world)
    with k1 show ?thesis by (rule kept_trans)
  next
    case (Inr t)
    obtain cold port cid where t: "t = (cold, port, cid)" by (cases t)
    obtain resp w2 where resp: "call_runtime env spec inp port (mworld mg1) = Some (resp, w2)"
      using assms(2) x Inr t by (auto simp: try_invoke_def split: option.splits)
    let ?mg2 = "mg1\<lparr>mworld := snd (steady_now env w2)\<rparr>"
    have "extends (mworld mg1) (snd (steady_now env w2))"
      using call_runtime_world [OF resp] extends_now by (blast intro: extends_trans)
    with ok1 have "kept rm_line mg1 ?mg2" by (simp add: kept_world)
    also have "kept rm_line ?mg2 (snd (settle env be spec cid resp ?mg2))"
      using ok1 by (simp add: kept_settle)
    also have "snd (settle env be spec cid resp ?mg2) = mg'"
      using assms(2) x Inr t resp by (simp add: try_invoke_def case_prod_beta Let_def)
    finally show ?thesis by (rule kept_trans [OF k1])
  qed
qed

lemma kept_finish: "mgr_ok mg \<Longrightarrow> kept rm_line mg (finish_invoke r mg)"
  by (auto simp: kept_def finish_invoke_def mgr_ok_def balanced_def no_orphans_def still_tracked_def)

lemma kept_invoke:
  assumes "mgr_ok mg" "invoke env be spec inp mg = Some (r, mg')"
  shows "kept rm_line mg mg'"
proof -
  let ?mg0 = "mg\<lparr>mworld := snd (steady_now env (mworld mg))\<rparr>"
  let ?start = "e_now env (hist (mworld mg))"
  have k0: "kept rm_line mg ?mg0" using assms(1) by (simp add: kept_world)
  obtain r1 cf mg1 where t1: "try_invoke env be spec inp ?start ?mg0 = Some (r1, cf, mg1)"
    using assms(2) by (auto simp: invoke_def case_prod_beta split: option.splits)
  have "kept rm_line ?mg0 mg1" using kept_try_invoke [OF _ t1] assms(1) by simp
  with k0 have k1: "kept rm_line mg mg1" by (rule kept_trans)
  have fin: "kept rm_line mg (finish_invoke q m)" if "kept rm_line mg m" for q m
    using that kept_finish kept_trans by (metis kept_def)
  show ?thesis
  proof (cases "cf \<and> \<not> ir_cold_start r1")
    case True
    with assms(2) t1 obtain cf2 mg2 where t2: "try_invoke env be spec inp ?start mg1 = Some (r, cf2, mg2)"
      and mg': "mg' = finish_invoke r mg2"
      by (auto simp: invoke_def case_prod_beta split: option.splits)
    have "kept rm_line mg1 mg2" using kept_try_invoke [OF _ t2] k1 by (simp add: kept_def)
    with k1 have "kept rm_line mg mg2" by (rule kept_trans)
    then show ?thesis unfolding mg' by (rule fin)
  next
    case False
    with assms(2) t1 have "mg' = finish_invoke r1 mg1"
      by (auto simp: invoke_def case_prod_beta)
    with fin [OF k1] show ?thesis by simp
  qed
qed

lemma reap_entries_metrics:
  assumes "om_ok (runtimes_terminated m)"
  shows "om_ok (runtimes_terminated (fst (snd (reap_entries be now es m w))))
    \<and> om_total (runtimes_terminated (fst (snd (reap_entries be now es m w)))) =
        om_total (runtimes_terminated m) + int (length (filter (\<lambda>e. expired now (snd e)) es))
    \<and> runtimes_created (fst (snd (reap_entries be now es m w))) = runtimes_created m"
  using assms
proof (induction es arbitrary: m w)
  case (Cons e es)
  obtain k rt where e: "e = (k, rt)" by (cases e)
  show ?case
  proof (cases "expired now rt")
    case True
    with Cons.prems Cons.IH [of "record_runtime_terminated ''idle_timeout'' m"] e show ?thesis
      by (simp add: case_prod_beta Let_def om_ok_incr om_total_incr)
  next
    case False
    with Cons.prems Cons.IH [of m] e show ?thesis by (simp add: case_prod_beta Let_def)
  qed
qed simp

lemma reap_entries_extends: "extends w (snd (snd (reap_entries be now es m w)))"
proof (induction es arbitrary: m w)
  case (Cons e es)
  obtain k rt where e: "e = (k, rt)" by (cases e)
  show ?case
    using extends_trans [OF remove_extends Cons.IH] Cons.IH
    by (auto simp: e case_prod_beta Let_def)
qed simp

lemma reap_entries_removes:
  "(k, rt) \<in> set es \<Longrightarrow> expired now rt \<Longrightarrow> is_safe_token (container_id rt) \<Longrightarrow>
    Shell (rm_line (container_id rt)) \<in> set (new_effects w (snd (snd (reap_entries be now es m w))))"
proof (induction es arbitrary: m w)
  case (Cons e es)
  obtain j rs where e: "e = (j, rs)" by (cases e)
  show ?case
  proof (cases "e = (k, rt)")
    case True
    with e Cons.prems show ?thesis
      using new_effects_left [OF remove_extends reap_entries_extends remove_issues]
      by (simp add: case_prod_beta Let_def)
  next
    case False
    with e Cons show ?thesis
      using new_effects_right [OF remove_extends reap_entries_extends] by (auto simp: case_prod_beta Let_def)
  qed
qed simp

lemma kept_reap_locked:
  assumes "mgr_ok mg"
  shows "kept rm_line mg (reap_locked env be mg)"
proof -
  let ?now = "e_now env (hist (mworld mg))"
  let ?w = "snd (steady_now env (mworld mg))"
  let ?r = "reap_entries be ?now (runtimes mg) (mmetrics mg) ?w"
  have eq: "reap_locked env be mg = \<lparr>runtimes = filter (\<lambda>e. \<not> expired ?now (snd e)) (runtimes mg),
      mmetrics = fst (snd ?r), mworld = snd (snd ?r)\<rparr>"
    by (simp add: reap_locked_def case_prod_beta Let_def reap_entries_runtimes)
  have ok: "om_ok (runtimes mg)" "om_ok (runtimes_terminated (mmetrics mg))" "balanced mg"
    using assms by (simp_all add: mgr_ok_def)
  have f: "om_find (filter (\<lambda>e. \<not> expired ?now (snd e)) (runtimes mg)) k = Some rt \<longleftrightarrow>
      om_find (runtimes mg) k = Some rt \<and> \<not> expired ?now rt" for k rt
    using ok(1) om_ok_filter [OF ok(1), of "\<lambda>e. \<not> expired ?now (snd e)"] by (auto simp: om.find_entries)
  have tr: "\<forall>k rt. om_find (runtimes (reap_locked env be mg)) k = Some rt \<longrightarrow> tracked_ok rt"
    using assms by (auto simp: eq f mgr_ok_def)
  have "mgr_ok (reap_locked env be mg)"
    using assms tr reap_entries_metrics [OF ok(2), of ?now "runtimes mg" ?w]
      sum_length_filter_compl [of "\<lambda>e. expired ?now (snd e)" "runtimes mg"]
    by (simp add: eq mgr_ok_def balanced_def om_ok_filter)
  moreover have "extends (mworld mg) (mworld (reap_locked env be mg))"
    using extends_trans [OF extends_now reap_entries_extends] by (simp add: eq)
  moreover have "no_orphans rm_line mg (reap_locked env be mg)"
    unfolding no_orphans_def
  proof (intro allI impI, elim conjE)
    fix k rt
    assume k: "om_find (runtimes mg) k = Some rt" "\<not> still_tracked k (container_id rt) (reap_locked env be mg)"
    have "expired ?now rt"
    proof (rule ccontr)
      assume "\<not> expired ?now rt"
      then have "om_find (runtimes (reap_locked env be mg)) k = Some rt" using k(1) by (simp add: eq f)
      with k(2) show False by (simp add: still_tracked_def)
    qed
    with k(1) assms show "Shell (rm_line (container_id rt)) \<in> set (new_effects (mworld mg) (mworld (reap_locked env be mg)))"
      using new_effects_right [OF extends_now reap_entries_extends reap_entries_removes [OF om_find_in [OF k(1)]]]
      by (simp add: eq mgr_ok_def tracked_ok_def)
  qed
  ultimately show ?thesis by (simp add: kept_def)
qed

lemma kept_reap_round:
  assumes "mgr_ok mg"
  shows "kept rm_line mg (reap_round env be mg)"
proof -
  let ?mg = "mg\<lparr>mworld := sleep_ms kReaperIntervalMs (mworld mg)\<rparr>"
  have "kept rm_line mg ?mg" using assms by (simp add: kept_world)
  also have "kept rm_line ?mg (reap_round env be mg)"
    using assms by (simp add: reap_round_def kept_reap_locked)
  finally show ?thesis .
qed

lemma kept_reap_idle_runtimes: "mgr_ok mg \<Longrightarrow> kept rm_line mg (reap_idle_runtimes env be n mg)"
proof (induction n arbitrary: mg)
  case (Suc n)
  have "kept rm_line mg (reap_round env be mg)" using Suc.prems by (rule kept_reap_round)
  moreover from this have "kept rm_line (reap_round env be mg) (reap_idle_runtimes env be n (reap_round env be mg))"
    by (intro Suc.IH) (simp add: kept_def)
  ultimately show ?case by (simp add: kept_trans)
qed (simp add: kept_refl)

end

end
