(* ===== verification/Runtime_Behaviour.thy ===== *)
theory Runtime_Behaviour
  imports Runtime_Manager
begin

text \<open>
  What the operations of the runtime manager do, branch by branch: the effect of the two
  critical sections on the map, and from them the behaviour of an attempt and of a whole
  invocation, for any backend.
\<close>

section \<open>The two critical sections\<close>

lemma checkout_InrD:
  assumes "checkout env be spec mg = Some (Inr (cold, port, cid), mg')"
  obtains rt where "om_find (runtimes mg') (fs_name spec) = Some rt" "container_id rt = cid" "host_port rt = port"
    "rt_state rt = BUSY" "cold \<longleftrightarrow> om_find (runtimes mg) (fs_name spec) = None"
    "\<And>k. k \<noteq> fs_name spec \<Longrightarrow> om_find (runtimes mg') k = om_find (runtimes mg) k"
    "runtimes_created (mmetrics mg') = runtimes_created (mmetrics mg) + (if cold then 1 else 0)"
    "runtimes_terminated (mmetrics mg') = runtimes_terminated (mmetrics mg)"
  using assms
  by (auto simp: checkout_def mark_busy_def case_prod_beta Let_def om_find_put split: option.splits sum.splits)

lemma checkout_InlD:
  assumes "checkout env be spec mg = Some (Inl err, mg')"
  obtains w' where "mg' = mg\<lparr>mworld := w'\<rparr>" "om_find (runtimes mg) (fs_name spec) = None"
    "start_runtime env be spec (mworld mg) = Some (Inl err, w')"
  using assms
  by (auto simp: checkout_def mark_busy_def case_prod_beta Let_def split: option.splits sum.splits)

lemma drop_runtime_simps [mgr_simps, simp]:
  "runtimes (drop_runtime be k cid reason mg) = om_erase k (runtimes mg)"
  "mmetrics (drop_runtime be k cid reason mg) = record_runtime_terminated reason (mmetrics mg)"
  "mworld (drop_runtime be k cid reason mg) = snd (remove_container be cid (mworld mg))"
  by (simp_all add: drop_runtime_def case_prod_beta Let_def)

lemma mark_idle_simps [mgr_simps]:
  assumes "om_find (runtimes mg) k = Some rt"
  shows "runtimes (mark_idle env k mg) =
      om_put k (rt\<lparr>rt_state := IDLE, last_used_at := e_now env (hist (mworld mg))\<rparr>) (runtimes mg)"
    and "mmetrics (mark_idle env k mg) = mmetrics mg"
    and "mworld (mark_idle env k mg) = snd (steady_now env (mworld mg))"
  using assms by (simp_all add: mark_idle_def case_prod_beta Let_def)

text \<open>How a response is classified.\<close>

definition response_status :: "client_response \<Rightarrow> string" where
  "response_status resp =
     (if cr_timed_out resp then ''timeout'' else if \<not> cr_ok resp then ''infra_error''
      else if 200 \<le> cr_status resp \<and> cr_status resp < 300 then ''success'' else ''error'')"

definition response_output :: "function_spec \<Rightarrow> client_response \<Rightarrow> string" where
  "response_output spec resp =
     (if cr_timed_out resp then ''function exceeded timeout of '' @ show_int (sint (fs_timeout_ms spec)) @ ''ms''
      else if \<not> cr_ok resp then cr_error resp else cr_body resp)"

lemma settle_eq:
  assumes "om_find (runtimes mg) (fs_name spec) = Some rt" "container_id rt = cid"
  shows "settle env be spec cid resp mg =
    ((response_status resp, response_output spec resp, \<not> cr_timed_out resp \<and> \<not> cr_ok resp),
     if cr_timed_out resp then drop_runtime be (fs_name spec) cid ''timeout'' mg
     else if \<not> cr_ok resp then drop_runtime be (fs_name spec) cid ''dead'' mg
     else mark_idle env (fs_name spec) mg)"
  using assms by (simp add: settle_def response_status_def response_output_def still_tracked_def)

lemma settle_tracked:
  assumes "om_find (runtimes mg) (fs_name spec) = Some rt" "container_id rt = cid"
    and "settle env be spec cid resp mg = ((st, out, cf), mg')"
  shows "st = response_status resp"
    and "cf \<longleftrightarrow> \<not> cr_timed_out resp \<and> \<not> cr_ok resp"
    and "om_find (runtimes mg') (fs_name spec) =
      (if st = ''success'' \<or> st = ''error''
       then Some (rt\<lparr>rt_state := IDLE, last_used_at := e_now env (hist (mworld mg))\<rparr>) else None)"
    and "\<And>k. k \<noteq> fs_name spec \<Longrightarrow> om_find (runtimes mg') k = om_find (runtimes mg) k"
    and "runtimes_created (mmetrics mg') = runtimes_created (mmetrics mg)"
    and "runtimes_terminated (mmetrics mg') =
      (if st = ''timeout'' then om_incr ''timeout'' (runtimes_terminated (mmetrics mg))
       else if st = ''infra_error'' then om_incr ''dead'' (runtimes_terminated (mmetrics mg))
       else runtimes_terminated (mmetrics mg))"
proof -
  have eq: "st = response_status resp" "cf \<longleftrightarrow> \<not> cr_timed_out resp \<and> \<not> cr_ok resp"
    "mg' = (if cr_timed_out resp then drop_runtime be (fs_name spec) cid ''timeout'' mg
     else if \<not> cr_ok resp then drop_runtime be (fs_name spec) cid ''dead'' mg
     else mark_idle env (fs_name spec) mg)"
    using assms(3) unfolding settle_eq [OF assms(1,2)] by auto
  show "st = response_status resp" "cf \<longleftrightarrow> \<not> cr_timed_out resp \<and> \<not> cr_ok resp" by (fact eq)+
  show "om_find (runtimes mg') (fs_name spec) =
      (if st = ''success'' \<or> st = ''error''
       then Some (rt\<lparr>rt_state := IDLE, last_used_at := e_now env (hist (mworld mg))\<rparr>) else None)"
    by (simp add: eq response_status_def mark_idle_simps [OF assms(1)] om_find_put om_find_erase)
  show "om_find (runtimes mg') k = om_find (runtimes mg) k" if "k \<noteq> fs_name spec" for k
    using that by (simp add: eq mark_idle_simps [OF assms(1)] om_find_put om_find_erase)
  show "runtimes_created (mmetrics mg') = runtimes_created (mmetrics mg)"
    by (simp add: eq mark_idle_simps [OF assms(1)])
  show "runtimes_terminated (mmetrics mg') =
      (if st = ''timeout'' then om_incr ''timeout'' (runtimes_terminated (mmetrics mg))
       else if st = ''infra_error'' then om_incr ''dead'' (runtimes_terminated (mmetrics mg))
       else runtimes_terminated (mmetrics mg))"
    by (simp add: eq response_status_def mark_idle_simps [OF assms(1)])
qed

lemma response_status_cases:
  "response_status resp \<in> {''success'', ''error'', ''timeout'', ''infra_error''}"
  by (simp add: response_status_def)

section \<open>One attempt\<close>

text \<open>
  The state an attempt leaves behind: its function is tracked, idle, exactly when the
  function answered; every other function is untouched; a runtime was created exactly
  when the attempt was cold; the connection failed only with an infrastructure error.
\<close>

definition invocation_post :: "function_spec \<Rightarrow> manager \<Rightarrow> invocation_result \<Rightarrow> manager \<Rightarrow> bool" where
  "invocation_post spec mg r mg' \<longleftrightarrow>
     ir_status r \<in> {''success'', ''error'', ''timeout'', ''infra_error''}
     \<and> (case om_find (runtimes mg') (fs_name spec) of
          None \<Rightarrow> ir_status r = ''timeout'' \<or> ir_status r = ''infra_error''
        | Some rt \<Rightarrow> (ir_status r = ''success'' \<or> ir_status r = ''error'') \<and> rt_state rt = IDLE)
     \<and> (\<forall>k. k \<noteq> fs_name spec \<longrightarrow> om_find (runtimes mg') k = om_find (runtimes mg) k)
     \<and> runtimes_created (mmetrics mg') = runtimes_created (mmetrics mg) + (if ir_cold_start r then 1 else 0)"

definition attempt_post :: "function_spec \<Rightarrow> manager \<Rightarrow> invocation_result \<Rightarrow> bool \<Rightarrow> manager \<Rightarrow> bool" where
  "attempt_post spec mg r cf mg' \<longleftrightarrow> invocation_post spec mg r mg'
     \<and> (cf \<longrightarrow> ir_status r = ''infra_error'')
     \<and> (ir_cold_start r \<longrightarrow> om_find (runtimes mg) (fs_name spec) = None)"

lemma try_invoke_post:
  assumes "try_invoke env be spec inp start mg = Some (r, cf, mg')"
  shows "attempt_post spec mg r cf mg'"
proof -
  obtain x mg1 where x: "checkout env be spec mg = Some (x, mg1)"
    using assms by (auto simp: try_invoke_def split: option.splits)
  show ?thesis
  proof (cases x)
    case (Inl err)
    with x obtain w' where "mg1 = mg\<lparr>mworld := w'\<rparr>" "om_find (runtimes mg) (fs_name spec) = None"
      by (auto elim: checkout_InlD)
    with assms x Inl show ?thesis
      by (auto simp: attempt_post_def invocation_post_def try_invoke_def case_prod_beta Let_def)
  next
    case (Inr t)
    obtain cold port cid where t: "t = (cold, port, cid)" by (cases t)
    from x Inr t obtain rt where rt: "om_find (runtimes mg1) (fs_name spec) = Some rt" "container_id rt = cid"
      "cold \<longleftrightarrow> om_find (runtimes mg) (fs_name spec) = None"
      "\<And>k. k \<noteq> fs_name spec \<Longrightarrow> om_find (runtimes mg1) k = om_find (runtimes mg) k"
      "runtimes_created (mmetrics mg1) = runtimes_created (mmetrics mg) + (if cold then 1 else 0)"
      by (auto elim: checkout_InrD)
    obtain resp w2 where resp: "call_runtime env spec inp port (mworld mg1) = Some (resp, w2)"
      using assms x Inr t by (auto simp: try_invoke_def split: option.splits)
    let ?mg2 = "mg1\<lparr>mworld := snd (steady_now env w2)\<rparr>"
    obtain st out where settle: "settle env be spec cid resp ?mg2 = ((st, out, cf), mg')"
      and r: "ir_status r = st" "ir_cold_start r = cold"
      using assms x Inr t resp by (auto simp: try_invoke_def case_prod_beta Let_def prod_eq_iff)
    note s = settle_tracked [of ?mg2 spec rt cid env be resp st out cf mg', OF _ rt(2) settle]
    have st: "st \<in> {''success'', ''error'', ''timeout'', ''infra_error''}"
      using s(1) rt(1) response_status_cases by simp
    have "invocation_post spec mg r mg'"
      using s(3-5) st rt r by (auto simp: invocation_post_def)
    moreover have "cf \<longrightarrow> st = ''infra_error''"
      using s(1,2) rt(1) by (simp add: response_status_def)
    ultimately show ?thesis
      using rt(3) r by (simp add: attempt_post_def)
  qed
qed

text \<open>A failed connection leaves no runtime for the function, so the retry starts a fresh one.\<close>

lemma try_invoke_failed_untracked:
  "try_invoke env be spec inp start mg = Some (r, True, mg') \<Longrightarrow> om_find (runtimes mg') (fs_name spec) = None"
  using try_invoke_post [of env be spec inp start mg r True mg']
  by (auto simp: attempt_post_def invocation_post_def split: option.splits)

section \<open>A whole invocation\<close>

lemma finish_invoke_simps [mgr_simps, simp]:
  "runtimes (finish_invoke r mg) = runtimes mg"
  "mworld (finish_invoke r mg) = mworld mg"
  "runtimes_created (mmetrics (finish_invoke r mg)) = runtimes_created (mmetrics mg)"
  "runtimes_terminated (mmetrics (finish_invoke r mg)) = runtimes_terminated (mmetrics mg)"
  by (simp_all add: finish_invoke_def)

lemma invoke_cases:
  assumes "invoke env be spec inp mg = Some (r, mg')"
  obtains (once) cf mg1 where
      "try_invoke env be spec inp (e_now env (hist (mworld mg))) (mg\<lparr>mworld := snd (steady_now env (mworld mg))\<rparr>) = Some (r, cf, mg1)"
      "\<not> (cf \<and> \<not> ir_cold_start r)" "mg' = finish_invoke r mg1"
  | (twice) r1 mg1 cf mg2 where
      "try_invoke env be spec inp (e_now env (hist (mworld mg))) (mg\<lparr>mworld := snd (steady_now env (mworld mg))\<rparr>) = Some (r1, True, mg1)"
      "\<not> ir_cold_start r1"
      "try_invoke env be spec inp (e_now env (hist (mworld mg))) mg1 = Some (r, cf, mg2)" "mg' = finish_invoke r mg2"
  using assms by (auto simp: invoke_def case_prod_beta split: option.splits if_splits)

lemma invoke_post:
  assumes "invoke env be spec inp mg = Some (r, mg')"
  shows "invocation_post spec mg r mg'"
  using assms
proof (cases rule: invoke_cases)
  case (once cf mg1)
  from try_invoke_post [OF once(1)] once(3) show ?thesis
    by (simp add: attempt_post_def invocation_post_def)
next
  case (twice r1 mg1 cf mg2)
  from try_invoke_post [OF twice(1)] try_invoke_post [OF twice(3)] twice(2,4) show ?thesis
    by (simp add: attempt_post_def invocation_post_def)
qed

section \<open>Warm and fresh attempts, durations, termination, the reaper\<close>

lemma try_invoke_warm:
  assumes "om_find (runtimes mg) (fs_name spec) = Some rt"
    and "call_runtime env spec inp (host_port rt) (snd (steady_now env (mworld mg))) = Some (resp, w2)"
  shows "try_invoke env be spec inp start mg =
    (let mg1 = mg\<lparr>runtimes := om_put (fs_name spec) (rt\<lparr>rt_state := BUSY, last_used_at := e_now env (hist (mworld mg))\<rparr>)
                    (runtimes mg), mworld := snd (steady_now env w2)\<rparr>
     in Some (\<lparr>ir_status = response_status resp, ir_output = response_output spec resp,
               ir_duration_ms = ms_of_ns (e_now env (hist w2) - start), ir_cold_start = False\<rparr>,
              \<not> cr_timed_out resp \<and> \<not> cr_ok resp,
              if cr_timed_out resp then drop_runtime be (fs_name spec) (container_id rt) ''timeout'' mg1
              else if \<not> cr_ok resp then drop_runtime be (fs_name spec) (container_id rt) ''dead'' mg1
              else mark_idle env (fs_name spec) mg1))"
  using assms
  by (simp add: try_invoke_def checkout_def mark_busy_def case_prod_beta Let_def settle_eq om_find_put)

lemma invoke_warm:
  assumes "om_find (runtimes mg) (fs_name spec) = Some rt"
    and "call_runtime env spec inp (host_port rt) (snd (steady_now env (snd (steady_now env (mworld mg))))) = Some (resp, w2)"
    and "cr_ok resp" "\<not> cr_timed_out resp"
  shows "\<exists>r mg'. invoke env be spec inp mg = Some (r, mg')
    \<and> ir_status r = (if 200 \<le> cr_status resp \<and> cr_status resp < 300 then ''success'' else ''error'')
    \<and> ir_output r = cr_body resp \<and> \<not> ir_cold_start r
    \<and> ir_duration_ms r = ms_of_ns (e_now env (hist w2) - e_now env (hist (mworld mg)))
    \<and> om_find (runtimes mg') (fs_name spec) =
        Some (rt\<lparr>rt_state := IDLE, last_used_at := e_now env (hist w2 @ [ClockRead])\<rparr>)
    \<and> hist (mworld mg') = hist (mworld mg) @
        [ClockRead, ClockRead,
         Connect ''127.0.0.1'' (host_port rt mod 65536) (timeval_of (sint (fs_timeout_ms spec))),
         Send (request_bytes ''127.0.0.1'' ''POST'' ''/invoke'' inp ''application/json''),
         ClockRead, ClockRead]"
proof -
  let ?mg0 = "mg\<lparr>mworld := snd (steady_now env (mworld mg))\<rparr>"
  have "hist w2 = hist (mworld mg) @ [ClockRead, ClockRead,
      Connect ''127.0.0.1'' (host_port rt mod 65536) (timeval_of (sint (fs_timeout_ms spec))),
      Send (request_bytes ''127.0.0.1'' ''POST'' ''/invoke'' inp ''application/json'')]"
    using request_ok_hist [OF _ assms(3)] assms(2) by (simp add: call_runtime_def client_post_def)
  with assms try_invoke_warm [of ?mg0 spec rt env inp resp w2 be] show ?thesis
    by (simp add: invoke_def case_prod_beta Let_def response_status_def response_output_def
        mark_idle_def om_find_put)
qed

lemma try_invoke_untracked:
  assumes "om_find (runtimes mg) (fs_name spec) = None" "try_invoke env be spec inp start mg = Some (r, cf, mg')"
  shows "ir_cold_start r \<or> \<not> ir_cold_start r \<and> \<not> cf \<and> ir_status r = ''infra_error''
    \<and> (\<exists>w'. start_runtime env be spec (mworld mg) = Some (Inl (ir_output r), w'))"
  using assms
  by (auto simp: try_invoke_def checkout_def mark_busy_def case_prod_beta Let_def split: option.splits sum.splits)

context managed_backend
begin

lemma try_invoke_duration:
  assumes "mgr_ok mg" "try_invoke env be spec inp start mg = Some (r, cf, mg')"
  shows "\<exists>w. extends (mworld mg) w \<and> extends w (mworld mg') \<and> ir_duration_ms r = ms_of_ns (e_now env (hist w) - start)"
proof -
  obtain x mg1 where x: "checkout env be spec mg = Some (x, mg1)"
    using assms(2) by (auto simp: try_invoke_def split: option.splits)
  have k: "extends (mworld mg) (mworld mg1)" and ok1: "mgr_ok mg1"
    using kept_checkout [OF assms(1) x] by (simp_all add: kept_def)
  show ?thesis
  proof (cases x)
    case (Inl err)
    with assms(2) x have "mworld mg' = snd (steady_now env (mworld mg1))"
      "ir_duration_ms r = ms_of_ns (e_now env (hist (mworld mg1)) - start)"
      by (auto simp: try_invoke_def case_prod_beta Let_def)
    with k show ?thesis by (metis extends_now)
  next
    case (Inr t)
    obtain cold port cid where t: "t = (cold, port, cid)" by (cases t)
    obtain resp w2 where resp: "call_runtime env spec inp port (mworld mg1) = Some (resp, w2)"
      using assms(2) x Inr t by (auto simp: try_invoke_def split: option.splits)
    let ?mg2 = "mg1\<lparr>mworld := snd (steady_now env w2)\<rparr>"
    have "ir_duration_ms r = ms_of_ns (e_now env (hist w2) - start)"
      and mg': "mg' = snd (settle env be spec cid resp ?mg2)"
      using assms(2) x Inr t resp by (auto simp: try_invoke_def case_prod_beta Let_def)
    moreover have "extends (mworld mg) w2"
      using k call_runtime_world [OF resp] by (blast intro: extends_trans)
    moreover have "extends w2 (mworld mg')"
      using kept_settle [of ?mg2 env spec cid resp] ok1 mg'
      by (auto simp: kept_def intro: extends_trans [OF extends_now])
    ultimately show ?thesis by blast
  qed
qed

lemma invoke_duration:
  assumes "steady env" "mgr_ok mg" "invoke env be spec inp mg = Some (r, mg')"
  shows "0 \<le> ir_duration_ms r
    \<and> ir_duration_ms r \<le> ms_of_ns (e_now env (hist (mworld mg')) - e_now env (hist (mworld mg)))"
proof -
  let ?start = "e_now env (hist (mworld mg))"
  have "\<exists>w. extends (mworld mg) w \<and> extends w (mworld mg') \<and> ir_duration_ms r = ms_of_ns (e_now env (hist w) - ?start)"
    using assms(3)
  proof (cases rule: invoke_cases)
    case (once cf mg1)
    with try_invoke_duration [OF _ once(1)] assms(2) show ?thesis
      by (auto intro: extends_trans [OF extends_now])
  next
    case (twice r1 mg1 cf mg2)
    have "kept rm_line (mg\<lparr>mworld := snd (steady_now env (mworld mg))\<rparr>) mg1"
      using kept_try_invoke [OF _ twice(1)] assms(2) by simp
    then have "mgr_ok mg1" "extends (mworld mg) (mworld mg1)"
      by (auto simp: kept_def intro: extends_trans [OF extends_now])
    with try_invoke_duration [OF _ twice(3)] twice(4) show ?thesis
      by (auto intro: extends_trans)
  qed
  then obtain w where w: "extends (mworld mg) w" "extends w (mworld mg')"
    "ir_duration_ms r = ms_of_ns (e_now env (hist w) - ?start)" by blast
  have "?start \<le> e_now env (hist w)" "e_now env (hist w) \<le> e_now env (hist (mworld mg'))"
    using w(1,2) assms(1) by (simp_all add: steady_mono)
  with w(3) show ?thesis by (simp add: ms_of_ns_nonneg ms_of_ns_mono)
qed

lemma try_invoke_returns:
  assumes "\<And>h host port. finite_peer (e_peer env h host port)" "0 < sint (fs_timeout_ms spec)"
  shows "try_invoke env be spec inp start mg \<noteq> None"
proof -
  have call: "call_runtime env spec inp p w \<noteq> None" for p w
    using request_returns assms by (simp add: call_runtime_def client_post_def)
  have "checkout env be spec mg \<noteq> None"
    using start_runtime_returns [OF assms(1), of spec "mworld mg"]
    by (auto simp: checkout_def split: option.splits sum.splits)
  then obtain x mg1 where "checkout env be spec mg = Some (x, mg1)" by auto
  moreover obtain resp w2 where "\<And>cold port cid. x = Inr (cold, port, cid) \<Longrightarrow>
      call_runtime env spec inp port (mworld mg1) = Some (resp, w2)"
    using call by (cases x) (auto, metis prod.exhaust)
  ultimately show ?thesis
    by (cases x) (auto simp: try_invoke_def case_prod_beta Let_def)
qed

lemma invoke_returns:
  assumes "\<And>h host port. finite_peer (e_peer env h host port)" "0 < sint (fs_timeout_ms spec)"
  shows "\<exists>r mg'. invoke env be spec inp mg = Some (r, mg')"
proof -
  have t: "\<exists>r cf m'. try_invoke env be spec inp start m = Some (r, cf, m')" for start m
    using try_invoke_returns [OF assms] by (metis not_None_eq prod_cases3)
  obtain r1 cf mg1 where t1: "try_invoke env be spec inp (e_now env (hist (mworld mg)))
      (mg\<lparr>mworld := snd (steady_now env (mworld mg))\<rparr>) = Some (r1, cf, mg1)"
    using t by blast
  obtain r2 cf2 mg2 where "try_invoke env be spec inp (e_now env (hist (mworld mg))) mg1 = Some (r2, cf2, mg2)"
    using t by blast
  with t1 show ?thesis by (simp add: invoke_def case_prod_beta)
qed

lemma reap_round_find:
  assumes "om_ok (runtimes mg)"
  shows "om_find (runtimes (reap_round env be mg)) k = (case om_find (runtimes mg) k of None \<Rightarrow> None
    | Some rt \<Rightarrow> if expired (e_now env (hist (mworld mg) @ [SleepMs kReaperIntervalMs])) rt then None else Some rt)"
proof -
  let ?now = "e_now env (hist (mworld mg) @ [SleepMs kReaperIntervalMs])"
  have "runtimes (reap_round env be mg) = filter (\<lambda>e. \<not> expired ?now (snd e)) (runtimes mg)"
    by (simp add: reap_round_def reap_locked_def case_prod_beta Let_def reap_entries_runtimes)
  then show ?thesis
    using om_find_filter [OF assms, of "\<lambda>rt. \<not> expired ?now rt" k] by (simp split: option.split)
qed

end

section \<open>Readiness\<close>

lemma request_new_effects:
  assumes "request env host port m path body ct t w = Some (r, w')"
  shows "SleepMs n \<notin> set (new_effects w w')"
  using assms
  by (auto simp: request_def Let_def new_effects_def split: if_splits option.splits prod.splits)

definition pauses :: "world \<Rightarrow> world \<Rightarrow> nat" where
  "pauses w w' = length (filter (\<lambda>e. e = SleepMs kReadinessIntervalMs) (new_effects w w'))"

lemma pauses_trans: "extends u v \<Longrightarrow> extends v w \<Longrightarrow> pauses u w = pauses u v + pauses v w"
  using new_effects_trans [of u v w] by (simp add: pauses_def)

lemma pauses_sleep: "pauses w (sleep_ms kReadinessIntervalMs w) = 1"
  by (simp add: pauses_def new_effects_def)

lemma pauses_healthy: "is_healthy env p w = Some (b, w') \<Longrightarrow> pauses w w' = 0"
  using request_new_effects
  by (fastforce simp: is_healthy_def client_get_def pauses_def filter_empty_conv split: option.splits)

text \<open>The loop pauses after every failed check, and is ready exactly when it stops early.\<close>

lemma wait_ready_pauses:
  "wait_ready env p n w = Some (b, w') \<Longrightarrow> pauses w w' \<le> n \<and> (b \<longleftrightarrow> pauses w w' < n)"
proof (induction n arbitrary: w)
  case 0
  then show ?case by (simp add: pauses_def new_effects_def)
next
  case (Suc n)
  then obtain h w1 where h: "is_healthy env p w = Some (h, w1)" by (auto split: option.splits)
  have p1: "pauses w w1 = 0" and e1: "extends w w1"
    using h by (rule pauses_healthy, rule is_healthy_extends)
  show ?case
  proof (cases h)
    case True
    with Suc.prems h p1 show ?thesis by simp
  next
    case False
    let ?w2 = "sleep_ms kReadinessIntervalMs w1"
    from False Suc.prems h have w: "wait_ready env p n ?w2 = Some (b, w')" by simp
    have "pauses w w' = pauses w ?w2 + pauses ?w2 w'"
      using e1 wait_ready_extends [OF w] by (blast intro: pauses_trans extends_trans)
    also have "pauses w ?w2 = 1" using pauses_trans [OF e1, of ?w2] p1 by (simp add: pauses_sleep)
    finally show ?thesis using Suc.IH [OF w] by auto
  qed
qed

section \<open>Scale to zero\<close>

text \<open>\<^verbatim>\<open>sleep_for\<close> blocks for at least its argument.\<close>

definition sleeps :: "env \<Rightarrow> bool" where
  "sleeps env \<longleftrightarrow> (\<forall>h n. e_now env h + n * 1000000 \<le> e_now env (h @ [SleepMs n]))"

lemma expired_after:
  assumes "rt_state rt = IDLE" "last_used_at rt + sint (idle_timeout_ms rt) * 1000000 \<le> now" "last_used_at rt \<le> now"
  shows "expired now rt"
proof -
  have "sint (idle_timeout_ms rt) = sint (idle_timeout_ms rt) * 1000000 div 1000000" by simp
  also have "\<dots> \<le> (now - last_used_at rt) div 1000000" using assms(2) by (intro zdiv_mono1) auto
  finally show ?thesis using assms(1,3) by (simp add: expired_def ms_of_ns_def)
qed

context managed_backend
begin

lemma reap_round_ok: "om_ok (runtimes mg) \<Longrightarrow> om_ok (runtimes (reap_round env be mg))"
  by (simp add: reap_round_def reap_locked_def case_prod_beta Let_def reap_entries_runtimes om_ok_filter)

lemma reap_round_now:
  assumes "steady env" "sleeps env"
  shows "e_now env (hist (mworld mg)) + 500 * 1000000 \<le> e_now env (hist (mworld (reap_round env be mg)))"
proof -
  let ?w = "sleep_ms kReaperIntervalMs (mworld mg)"
  have "extends ?w (mworld (reap_round env be mg))"
    by (simp add: reap_round_def reap_locked_def case_prod_beta Let_def)
      (blast intro: extends_trans [OF extends_now reap_entries_extends])
  from steady_mono [OF assms(1) this]
  have 1: "e_now env (hist ?w) \<le> e_now env (hist (mworld (reap_round env be mg)))" .
  have "e_now env (hist (mworld mg)) + kReaperIntervalMs * 1000000 \<le> e_now env (hist (mworld mg) @ [SleepMs kReaperIntervalMs])"
    using assms(2) unfolding sleeps_def by blast
  with 1 show ?thesis by (simp add: kReaperIntervalMs_def)
qed

lemma reap_untracked:
  "om_ok (runtimes mg) \<Longrightarrow> om_find (runtimes mg) k = None \<Longrightarrow> om_find (runtimes (reap_idle_runtimes env be n mg)) k = None"
  by (induction n arbitrary: mg) (simp_all add: reap_round_find reap_round_ok)

lemma reaped_in_time:
  assumes "steady env" "sleeps env"
  shows "om_ok (runtimes mg) \<Longrightarrow> om_find (runtimes mg) k = Some rt \<Longrightarrow> rt_state rt = IDLE
    \<Longrightarrow> last_used_at rt \<le> e_now env (hist (mworld mg))
    \<Longrightarrow> last_used_at rt + sint (idle_timeout_ms rt) * 1000000 \<le> e_now env (hist (mworld mg)) + int (Suc n) * (500 * 1000000)
    \<Longrightarrow> om_find (runtimes (reap_idle_runtimes env be (Suc n) mg)) k = None"
proof (induction n arbitrary: mg)
  case 0
  let ?now = "e_now env (hist (mworld mg) @ [SleepMs kReaperIntervalMs])"
  have "e_now env (hist (mworld mg)) + kReaperIntervalMs * 1000000 \<le> ?now"
    using assms(2) unfolding sleeps_def by blast
  with 0 have "expired ?now rt" by (intro expired_after) (simp_all add: kReaperIntervalMs_def)
  with 0 show ?case by (simp add: reap_round_find)
next
  case (Suc n)
  let ?mg = "reap_round env be mg"
  have now: "e_now env (hist (mworld mg)) + 500 * 1000000 \<le> e_now env (hist (mworld ?mg))"
    using assms by (rule reap_round_now)
  have ok: "om_ok (runtimes ?mg)" using Suc.prems(1) by (rule reap_round_ok)
  consider "om_find (runtimes ?mg) k = None" | "om_find (runtimes ?mg) k = Some rt"
    using Suc.prems(1,2) by (fastforce simp: reap_round_find split: if_splits)
  then have "om_find (runtimes (reap_idle_runtimes env be (Suc n) ?mg)) k = None"
  proof cases
    case 1
    with ok show ?thesis by (rule reap_untracked)
  next
    case 2
    show ?thesis by (rule Suc.IH [OF ok 2]) (use Suc.prems(3-5) now in auto)
  qed
  then show ?case by simp
qed

end

end
