(* ===== verification/Runtime_Threads.thy ===== *)
theory Runtime_Threads
  imports Runtime_Behaviour
begin

text \<open>
  The runtime manager under concurrency. Every HTTP connection is served by its own thread
  (\<^verbatim>\<open>Server::listen\<close>), the reaper is another, and the manager's mutex makes the code between
  a lock and its unlock atomic. A step of the system is one such critical section, or the
  recording of a finished invocation under the metrics' own mutex. Between the sections of
  an invocation any other thread may run.

  The call to the container happens outside the lock. What it brings back is not
  constrained beyond what \<^verbatim>\<open>Client::request\<close> guarantees of any response (\<open>outcome_ok\<close>), and its
  effects only by being those of a network call (\<open>network_effect\<close>), so the steps allow every
  behaviour of every container.
\<close>

section \<open>Threads and steps\<close>

text \<open>
  Where a thread stands in \<^verbatim>\<open>RuntimeManager::invoke\<close>: about to take the lock (for the first
  or the second attempt), waiting for the container's answer (second attempt?, cold?, port,
  container), or about to record its result.
\<close>

datatype phase =
    Waiting bool
  | Calling bool bool int string
  | Recording invocation_result

record thread =
  th_spec :: function_spec
  th_input :: string
  th_start :: int
  th_phase :: phase

record system =
  mgr :: manager
  threads :: "nat \<Rightarrow> thread option"
  finished :: "invocation_result list"

definition init_system :: "world \<Rightarrow> system" where
  "init_system w = \<lparr>mgr = init_manager w, threads = (\<lambda>_. None), finished = []\<rparr>"

abbreviation (input) set_phase :: "nat \<Rightarrow> thread \<Rightarrow> phase \<Rightarrow> system \<Rightarrow> system" where
  "set_phase t th p s \<equiv> s\<lparr>threads := (threads s)(t \<mapsto> th\<lparr>th_phase := p\<rparr>)\<rparr>"

text \<open>What follows the second critical section: a retry, or the result.\<close>

definition after_settle :: "bool \<Rightarrow> bool \<Rightarrow> bool \<Rightarrow> invocation_result \<Rightarrow> phase" where
  "after_settle second cold connection_failed r =
     (if connection_failed \<and> \<not> cold \<and> \<not> second then Waiting True else Recording r)"

text \<open>The effects of a call: connecting and sending.\<close>

definition network_effect :: "effect \<Rightarrow> bool" where
  "network_effect e = (case e of Connect _ _ _ \<Rightarrow> True | Send _ \<Rightarrow> True | _ \<Rightarrow> False)"

inductive mstep :: "env \<Rightarrow> backend \<Rightarrow> system \<Rightarrow> system \<Rightarrow> bool" for env be where
  arrive: "threads s t = None \<Longrightarrow> steady_now env (mworld (mgr s)) = (now, w) \<Longrightarrow>
    mstep env be s (s\<lparr>mgr := (mgr s)\<lparr>mworld := w\<rparr>,
      threads := (threads s)(t \<mapsto> \<lparr>th_spec = spec, th_input = inp, th_start = now, th_phase = Waiting False\<rparr>)\<rparr>)"
| start_failed: "threads s t = Some th \<Longrightarrow> th_phase th = Waiting second \<Longrightarrow>
    checkout env be (th_spec th) (mgr s) = Some (Inl err, mg1) \<Longrightarrow>
    elapsed_ms env (th_start th) (mworld mg1) = (d, w) \<Longrightarrow>
    mstep env be s (set_phase t th
      (Recording \<lparr>ir_status = ''infra_error'', ir_output = err, ir_duration_ms = d, ir_cold_start = False\<rparr>)
      (s\<lparr>mgr := mg1\<lparr>mworld := w\<rparr>\<rparr>))"
| checked_out: "threads s t = Some th \<Longrightarrow> th_phase th = Waiting second \<Longrightarrow>
    checkout env be (th_spec th) (mgr s) = Some (Inr (cold, port, cid), mg1) \<Longrightarrow>
    mstep env be s (set_phase t th (Calling second cold port cid) (s\<lparr>mgr := mg1\<rparr>))"
| answered: "threads s t = Some th \<Longrightarrow> th_phase th = Calling second cold port cid \<Longrightarrow>
    outcome_ok resp \<Longrightarrow>
    elapsed_ms env (th_start th) ((mworld (mgr s))\<lparr>hist := hist (mworld (mgr s)) @ es\<rparr>) = (d, w) \<Longrightarrow>
    settle env be (th_spec th) cid resp ((mgr s)\<lparr>mworld := w\<rparr>) = ((st, out, cf), mg2) \<Longrightarrow>
    list_all network_effect es \<Longrightarrow>
    mstep env be s (set_phase t th
      (after_settle second cold cf \<lparr>ir_status = st, ir_output = out, ir_duration_ms = d, ir_cold_start = cold\<rparr>)
      (s\<lparr>mgr := mg2\<rparr>))"
| recorded: "threads s t = Some th \<Longrightarrow> th_phase th = Recording r \<Longrightarrow>
    mstep env be s (s\<lparr>mgr := finish_invoke r (mgr s), threads := (threads s)(t := None), finished := finished s @ [r]\<rparr>)"
| reaped: "mstep env be s (s\<lparr>mgr := reap_round env be (mgr s)\<rparr>)"
| deleted: "mstep env be s (s\<lparr>mgr := terminate be k (mgr s)\<rparr>)"
| looked: "mstep env be s (s\<lparr>mgr := snd (runtime_status_of env k (mgr s))\<rparr>)"
| listed: "mstep env be s (s\<lparr>mgr := snd (list_runtimes env (mgr s))\<rparr>)"

inductive reachable :: "env \<Rightarrow> backend \<Rightarrow> world \<Rightarrow> system \<Rightarrow> bool" for env be w where
  reach_init: "reachable env be w (init_system w)"
| reach_step: "reachable env be w s \<Longrightarrow> mstep env be s s' \<Longrightarrow> reachable env be w s'"

text \<open>A run of the system, as its successive states.\<close>

inductive runs :: "env \<Rightarrow> backend \<Rightarrow> system \<Rightarrow> system \<Rightarrow> bool" for env be where
  runs_refl: "runs env be s s"
| runs_step: "runs env be s s' \<Longrightarrow> mstep env be s' s'' \<Longrightarrow> runs env be s s''"

lemma reachable_runs: "reachable env be w s \<Longrightarrow> runs env be s s' \<Longrightarrow> reachable env be w s'"
  by (rotate_tac, induction rule: runs.induct) (auto intro: reach_step)

section \<open>The manager's invariant and no orphans\<close>

context managed_backend
begin

lemma kept_step:
  assumes "mstep env be s s'" "mgr_ok (mgr s)"
  shows "kept rm_line (mgr s) (mgr s')"
  using assms
proof (induction rule: mstep.induct)
  case (arrive s t now w spec inp)
  then have "w = snd (steady_now env (mworld (mgr s)))" by simp
  with arrive show ?case by (simp add: kept_world)
next
  case (start_failed s t th second err mg1 d w)
  have k: "kept rm_line (mgr s) mg1" using kept_checkout start_failed by blast
  moreover have "w = snd (steady_now env (mworld mg1))"
    using start_failed(4) elapsed_ms_simps(2) by (metis snd_conv)
  ultimately have "kept rm_line mg1 (mg1\<lparr>mworld := w\<rparr>)" by (simp add: kept_def)
  with k show ?case by (simp add: kept_trans)
next
  case (checked_out s t th second cold port cid mg1)
  then show ?case using kept_checkout by simp
next
  case (answered s t th second cold port cid resp es d w st out cf mg2)
  let ?w = "(mworld (mgr s))\<lparr>hist := hist (mworld (mgr s)) @ es\<rparr>"
  have "w = snd (steady_now env ?w)" using answered(4) elapsed_ms_simps(2) by (metis snd_conv)
  then have "extends (mworld (mgr s)) w" by (simp add: extends_def)
  with answered.prems have "kept rm_line (mgr s) ((mgr s)\<lparr>mworld := w\<rparr>)" by (rule kept_world)
  also have "kept rm_line ((mgr s)\<lparr>mworld := w\<rparr>) mg2"
    using kept_settle [of "(mgr s)\<lparr>mworld := w\<rparr>" env "th_spec th" cid resp] answered by simp
  finally show ?case by simp
next
  case (recorded s t th r)
  then show ?case by (simp add: kept_finish)
next
  case (reaped s)
  then show ?case by (simp add: kept_reap_round)
next
  case (deleted s k)
  then show ?case by (simp add: kept_terminate)
next
  case (looked s k)
  then show ?case
    by (simp add: runtime_status_of_def case_prod_beta Let_def kept_refl kept_world split: option.split)
next
  case (listed s)
  then show ?case by (simp add: list_runtimes_def case_prod_beta Let_def kept_world)
qed

lemma reachable_mgr_ok: "reachable env be w s \<Longrightarrow> mgr_ok (mgr s)"
proof (induction rule: reachable.induct)
  case reach_init
  then show ?case by (simp add: init_system_def mgr_ok_init)
next
  case (reach_step s s')
  then show ?case using kept_step by (simp add: kept_def)
qed

lemma runs_kept:
  assumes "runs env be s s'" "mgr_ok (mgr s)"
  shows "kept rm_line (mgr s) (mgr s')"
  using assms
proof (induction rule: runs.induct)
  case (runs_step s s' s'')
  then have "kept rm_line (mgr s) (mgr s')" "mgr_ok (mgr s')" by (simp_all add: kept_def)
  with runs_step(2) show ?case using kept_step kept_trans by blast
qed (simp add: kept_refl)

end

section \<open>Metrics reflect the finished invocations\<close>

definition event_of :: "invocation_result \<Rightarrow> invocation_event" where
  "event_of r = (ir_status r, ir_cold_start r, double_of_long (ir_duration_ms r))"

text \<open>The parts of the metrics that invocations write.\<close>

definition invocation_part :: "metrics \<Rightarrow> (string \<times> bool, int) omap \<times> (bool, histogram) omap" where
  "invocation_part m = (invocation_counts m, duration_histograms m)"

lemma reflects_part: "invocation_part m = invocation_part m' \<Longrightarrow> reflects evs m = reflects evs m'"
  by (simp add: reflects_def invocation_part_def)

lemma invocation_part_simps [simp]:
  "invocation_part (record_runtime_created m) = invocation_part m"
  "invocation_part (record_runtime_terminated r m) = invocation_part m"
  by (simp_all add: invocation_part_def record_runtime_created_def record_runtime_terminated_def)

lemma invocation_part_checkout:
  "checkout env be spec mg = Some (r, mg') \<Longrightarrow> invocation_part (mmetrics mg') = invocation_part (mmetrics mg)"
  by (auto simp: checkout_def mark_busy_def case_prod_beta Let_def split: option.splits sum.splits)

lemma invocation_part_settle:
  "settle env be spec cid resp mg = (r, mg') \<Longrightarrow> invocation_part (mmetrics mg') = invocation_part (mmetrics mg)"
  by (auto simp: settle_def mark_idle_def case_prod_beta Let_def split: if_splits option.splits)

lemma invocation_part_reap_entries:
  "invocation_part (fst (snd (reap_entries be now es m w))) = invocation_part m"
  by (induction es arbitrary: m w) (auto simp: case_prod_beta Let_def)

lemma invocation_part_reap: "invocation_part (mmetrics (reap_round env be mg)) = invocation_part (mmetrics mg)"
  by (simp add: reap_round_def reap_locked_def case_prod_beta Let_def invocation_part_reap_entries)

lemma reflects_step:
  assumes "mstep env be s s'" "reflects (map event_of (finished s)) (mmetrics (mgr s))"
  shows "reflects (map event_of (finished s')) (mmetrics (mgr s'))"
proof -
  have same: "finished s' = finished s \<Longrightarrow> invocation_part (mmetrics (mgr s')) = invocation_part (mmetrics (mgr s)) \<Longrightarrow>
      reflects (map event_of (finished s')) (mmetrics (mgr s'))"
    using assms(2) reflects_part by metis
  from assms(1) show ?thesis
  proof cases
    case (recorded t th r)
    have "reflects (map event_of (finished s) @ [event_of r]) (record_event (mmetrics (mgr s)) (event_of r))"
      using assms(2) by (rule reflects_snoc)
    then show ?thesis
      by (simp add: recorded finish_invoke_def record_event_def event_of_def)
  qed (rule same; simp add: invocation_part_checkout invocation_part_settle invocation_part_reap
      terminate_def runtime_status_of_def list_runtimes_def case_prod_beta Let_def split: option.split)+
qed

lemma reachable_reflects: "reachable env be w s \<Longrightarrow> reflects (map event_of (finished s)) (mmetrics (mgr s))"
proof (induction rule: reachable.induct)
  case reach_init
  then show ?case by (simp add: init_system_def init_manager_def reflects_init)
next
  case (reach_step s s')
  then show ?case by (blast intro: reflects_step)
qed

section \<open>The statuses of finished invocations\<close>

definition known_status :: "invocation_result \<Rightarrow> bool" where
  "known_status r \<longleftrightarrow> ir_status r \<in> {''error'', ''infra_error'', ''success'', ''timeout''}"

definition known_statuses :: "system \<Rightarrow> bool" where
  "known_statuses s \<longleftrightarrow> list_all known_status (finished s)
     \<and> (\<forall>t th r. threads s t = Some th \<and> th_phase th = Recording r \<longrightarrow> known_status r)"

lemma settle_known:
  "settle env be spec cid resp mg = ((st, out, cf), mg') \<Longrightarrow> st \<in> {''error'', ''infra_error'', ''success'', ''timeout''}"
  by (auto simp: settle_def Let_def split: if_splits)

lemma known_statuses_step: "mstep env be s s' \<Longrightarrow> known_statuses s \<Longrightarrow> known_statuses s'"
proof (induction rule: mstep.induct)
  case (answered s t th second cold port cid resp es d w st out cf mg2)
  then show ?case using settle_known [OF answered(5)]
    by (auto simp: known_statuses_def known_status_def after_settle_def split: if_splits)
qed (auto simp: known_statuses_def known_status_def split: if_splits)

lemma reachable_known: "reachable env be w s \<Longrightarrow> known_statuses s"
proof (induction rule: reachable.induct)
  case reach_init
  then show ?case by (simp add: known_statuses_def init_system_def)
next
  case (reach_step s s')
  then show ?case using known_statuses_step by blast
qed

lemma c_str_known: "known_status r \<Longrightarrow> c_str (ir_status r) = ir_status r"
  by (auto simp: known_status_def c_str_def)

section \<open>One call at a time per function\<close>

definition calling :: "thread \<Rightarrow> bool" where
  "calling th = (case th_phase th of Calling _ _ _ _ \<Rightarrow> True | _ \<Rightarrow> False)"

text \<open>No two calls to the same function are in flight.\<close>

definition one_call :: "system \<Rightarrow> bool" where
  "one_call s \<longleftrightarrow> (\<forall>t u a b. threads s t = Some a \<and> threads s u = Some b \<and> calling a \<and> calling b
     \<and> fs_name (th_spec a) = fs_name (th_spec b) \<longrightarrow> t = u)"

lemma one_callD:
  "one_call s \<Longrightarrow> threads s t = Some a \<Longrightarrow> threads s u = Some b \<Longrightarrow> calling a \<Longrightarrow> calling b
    \<Longrightarrow> fs_name (th_spec a) = fs_name (th_spec b) \<Longrightarrow> t = u"
  unfolding one_call_def by blast

text \<open>The states reached when calls to the same function never overlap.\<close>

inductive single_reachable :: "env \<Rightarrow> backend \<Rightarrow> world \<Rightarrow> system \<Rightarrow> bool" for env be w where
  single_init: "single_reachable env be w (init_system w)"
| single_step: "single_reachable env be w s \<Longrightarrow> mstep env be s s' \<Longrightarrow> one_call s' \<Longrightarrow> single_reachable env be w s'"

lemma single_reachable_reachable: "single_reachable env be w s \<Longrightarrow> reachable env be w s"
  by (induction rule: single_reachable.induct) (auto intro: reach_init reach_step)

lemma single_reachable_one_call: "single_reachable env be w s \<Longrightarrow> one_call s"
  by (induction rule: single_reachable.induct) (simp_all add: one_call_def init_system_def)

text \<open>A function that is being called is busy on the container of the call, or not tracked.\<close>

definition busy_for :: "manager \<Rightarrow> string \<Rightarrow> string \<Rightarrow> bool" where
  "busy_for mg k cid = (case om_find (runtimes mg) k of None \<Rightarrow> True | Some rt \<Rightarrow> rt_state rt = BUSY \<and> container_id rt = cid)"

definition calls_busy :: "system \<Rightarrow> bool" where
  "calls_busy s \<longleftrightarrow> (\<forall>t th second cold port cid. threads s t = Some th \<and> th_phase th = Calling second cold port cid
     \<longrightarrow> busy_for (mgr s) (fs_name (th_spec th)) cid)"

lemma settle_other:
  "settle env be spec cid resp mg = (r, mg') \<Longrightarrow> k \<noteq> fs_name spec \<Longrightarrow> om_find (runtimes mg') k = om_find (runtimes mg) k"
  by (auto simp: settle_def mark_idle_def case_prod_beta Let_def om_find_put om_find_erase split: if_splits option.splits)

lemma after_settle_not_calling: "after_settle a b c r \<noteq> Calling x y p i"
  by (simp add: after_settle_def)

context managed_backend
begin

lemma busy_for_reap:
  "om_ok (runtimes mg) \<Longrightarrow> busy_for mg k cid \<Longrightarrow> om_find (runtimes (reap_round env be mg)) k = om_find (runtimes mg) k"
  by (auto simp: busy_for_def reap_round_find expired_def split: option.splits)

lemma busy_for_checked_out:
  assumes "checkout env be spec mg = Some (Inr (cold', port', cid'), mg')" "busy_for mg k cid" "fs_name spec \<noteq> k"
  shows "busy_for mg' k cid"
  using assms by (auto simp: busy_for_def elim!: checkout_InrD)

lemma calls_busy_step:
  assumes "mstep env be s s'" "calls_busy s" "one_call s" "one_call s'" "om_ok (runtimes (mgr s))"
  shows "calls_busy s'"
  unfolding calls_busy_def
proof (intro allI impI, elim conjE)
  fix u th second cold port cid
  assume u: "threads s' u = Some th" "th_phase th = Calling second cold port cid"
  let ?k = "fs_name (th_spec th)"
  have old: "busy_for (mgr s) ?k cid" if "threads s u = Some th"
    using that u(2) assms(2) unfolding calls_busy_def by blast
  have cu: "calling th" using u(2) by (simp add: calling_def)
  from assms(1) show "busy_for (mgr s') ?k cid"
  proof cases
    case (checked_out t th' sec c p i mg1)
    show ?thesis
    proof (cases "u = t")
      case True
      with checked_out(4) u checked_out(1) show ?thesis
        by (auto simp: busy_for_def elim!: checkout_InrD)
    next
      case False
      have "threads s' t = Some (th'\<lparr>th_phase := Calling sec c p i\<rparr>)" "calling (th'\<lparr>th_phase := Calling sec c p i\<rparr>)"
        using checked_out(1) by (simp_all add: calling_def)
      then have "fs_name (th_spec th') \<noteq> ?k" using one_callD [OF assms(4) _ u(1) _ cu] False by fastforce
      with False u(1) old checked_out(1) busy_for_checked_out [OF checked_out(4)] show ?thesis by simp
    qed
  next
    case (answered t th' sec c p i resp es d w st out cf mg2)
    with u have "u \<noteq> t" by (auto simp: after_settle_not_calling)
    with u(1) answered(1) have th: "threads s u = Some th" by simp
    have "fs_name (th_spec th') \<noteq> ?k"
      using one_callD [OF assms(3) answered(2) th _ cu] \<open>u \<noteq> t\<close> answered(3) by (auto simp: calling_def)
    then show ?thesis
      using old [OF th] settle_other [OF answered(6), of ?k] answered(1) by (simp add: busy_for_def)
  next
    case reaped
    with u(1) old have "busy_for (mgr s) ?k cid" by simp
    with reaped assms(5) busy_for_reap [of "mgr s" ?k cid env] show ?thesis by (simp add: busy_for_def)
  next
    case (deleted k)
    with u(1) old have "busy_for (mgr s) ?k cid" by simp
    with deleted show ?thesis
      by (auto simp: terminate_def busy_for_def om_find_erase split: option.splits)
  next
    case (start_failed t th' sec err mg1 d w)
    with u old show ?thesis by (auto simp: busy_for_def elim!: checkout_InlD split: if_splits)
  qed (use u old in \<open>auto simp: busy_for_def finish_invoke_def runtime_status_of_def list_runtimes_def
      case_prod_beta Let_def split: if_splits option.splits\<close>)
qed

lemma single_calls_busy: "single_reachable env be w s \<Longrightarrow> calls_busy s"
proof (induction rule: single_reachable.induct)
  case single_init
  then show ?case by (simp add: calls_busy_def init_system_def)
next
  case (single_step s s')
  then have "mgr_ok (mgr s)" by (blast intro: reachable_mgr_ok single_reachable_reachable)
  with single_step show ?case
    by (blast intro: calls_busy_step single_reachable_one_call dest: mgr_ok_def [THEN iffD1])
qed

end

end
