(* ===== verification/Demo_Env.thy ===== *)
theory Demo_Env
  imports Runtime_Threads "HOL-Library.Code_Target_Numeral"
begin

text \<open>
  A concrete environment in which the code can be followed on an example: a Docker daemon
  that starts every image, a container that answers every request with the same reply, a
  clock that advances by a millisecond with every effect and by its length with a sleep. The theorems' hypotheses are
  shown to be satisfiable here.
\<close>

definition demo_peer :: "string \<Rightarrow> peer" where
  "demo_peer reply = \<lparr>p_socket = True, p_pton = True, p_resolve = True, p_connect = True,
     p_send = (\<lambda>_. True), p_recv = (\<lambda>_ n. if n = 0 then Bytes reply else Bytes [])\<rparr>"

definition demo_reply :: string where
  "demo_reply = ''HTTP/1.1 200 OK'' @ CRLF @ ''Content-Type: text/plain'' @ CRLF @ CRLF @ ''hi''"

definition demo_popen :: "effect list \<Rightarrow> string \<Rightarrow> popen_result" where
  "demo_popen h c =
     (if prefix ''docker run'' c then PopenOk [''abc123'' @ [LF]] (Exited 0)
      else if prefix ''docker port'' c then PopenOk [''0.0.0.0:32768'' @ [LF]] (Exited 0)
      else PopenOk [] (Exited 0))"

definition tick :: "effect \<Rightarrow> int" where
  "tick e = 1000000 * (case e of SleepMs n \<Rightarrow> max 1 n | _ \<Rightarrow> 1)"

definition demo_env :: env where
  "demo_env = \<lparr>e_popen = demo_popen, e_peer = (\<lambda>_ _ _. demo_peer demo_reply),
     e_now = (\<lambda>h. sum_list (map tick h))\<rparr>"

abbreviation (input) demo_be :: backend where
  "demo_be \<equiv> make_runtime_backend None demo_env"

definition demo_spec :: function_spec where
  "demo_spec = default_spec\<lparr>fs_name := ''hello'', fs_image := ''hello:v1'', fs_idle_timeout_ms := 1000\<rparr>"

definition demo_answer :: client_response where
  "demo_answer = default_response\<lparr>cr_status := 200, cr_body := ''hi'', cr_ok := True\<rparr>"

text \<open>A manager that tracks one idle runtime of the function.\<close>

definition demo_runtime :: runtime where
  "demo_runtime = \<lparr>container_id = ''abc123'', host_port = 32768, rt_state = IDLE, last_used_at = 0,
     idle_timeout_ms = 1000\<rparr>"

definition demo_warm :: manager where
  "demo_warm = (init_manager init_world)\<lparr>runtimes := [(''hello'', demo_runtime)],
     mmetrics := record_runtime_created init_metrics\<rparr>"

section \<open>The code on the example\<close>

lemma demo_steady: "steady demo_env"
proof -
  have "0 \<le> sum_list (map tick h)" for h
    by (rule sum_list_nonneg) (auto simp: tick_def split: effect.split)
  then show ?thesis by (auto simp: steady_def demo_env_def elim!: prefixE)
qed

lemma demo_now_append: "e_now demo_env (h @ es) = e_now demo_env h + sum_list (map tick es)"
  by (simp add: demo_env_def)

lemma demo_finite: "finite_peer (e_peer demo_env h host port)"
  unfolding finite_peer_def demo_env_def demo_peer_def stops_def
  by (intro allI exI [of _ 1]) simp

lemma demo_cold_checkout:
  "map_option fst (checkout demo_env demo_be demo_spec (init_manager init_world)) = Some (Inr (True, 32768, ''abc123''))"
  by code_simp

lemma demo_timeout: "0 < sint (fs_timeout_ms demo_spec)"
  by (simp add: demo_spec_def default_spec_def)

lemma demo_warm_call:
  "map_option fst (call_runtime demo_env demo_spec ''x'' (host_port demo_runtime)
      (snd (steady_now demo_env (snd (steady_now demo_env (mworld demo_warm)))))) =
   Some (demo_answer\<lparr>cr_headers := [(''Content-Type'', ''text/plain'')]\<rparr>)"
  by code_simp

section \<open>Variations\<close>

text \<open>
  A runtime that has died: connections are refused until a command has been run (until a
  new container is started). A function that never answers. A container that never becomes
  healthy.
\<close>

definition is_shell :: "effect \<Rightarrow> bool" where
  "is_shell e = (case e of Shell _ \<Rightarrow> True | _ \<Rightarrow> False)"

definition dead_env :: env where
  "dead_env = demo_env\<lparr>e_peer := (\<lambda>h _ _. if list_ex is_shell h then demo_peer demo_reply
     else (demo_peer demo_reply)\<lparr>p_connect := False\<rparr>)\<rparr>"

definition silent_env :: env where
  "silent_env = demo_env\<lparr>e_peer := (\<lambda>_ _ _. (demo_peer demo_reply)
     \<lparr>p_recv := (\<lambda>req n. if prefix ''POST'' req then Silent else p_recv (demo_peer demo_reply) req n)\<rparr>)\<rparr>"

definition refusing_env :: env where
  "refusing_env = demo_env\<lparr>e_peer := (\<lambda>_ _ _. (demo_peer demo_reply)\<lparr>p_connect := False\<rparr>)\<rparr>"

lemma dead_finite: "finite_peer (e_peer dead_env h host port)"
  unfolding finite_peer_def dead_env_def demo_peer_def stops_def
  by (intro allI exI [of _ 1]) simp

lemma refusing_finite: "finite_peer (e_peer refusing_env h host port)"
  unfolding finite_peer_def refusing_env_def demo_peer_def stops_def
  by (intro allI exI [of _ 1]) simp

lemma demo_warm_ok: "mgr_ok demo_warm"
  by (simp add: mgr_ok_def demo_warm_def balanced_def init_manager_def init_metrics_def om_total_def
      tracked_ok_def demo_runtime_def is_safe_token_def safe_char_def is_alnum_def is_digit_def)

lemma demo_warm_find: "om_find (runtimes demo_warm) (fs_name demo_spec) = Some demo_runtime"
  by (simp add: demo_warm_def demo_spec_def)

lemma dead_call:
  "map_option (\<lambda>p. (cr_ok (fst p), cr_timed_out (fst p))) (call_runtime dead_env demo_spec ''x'' (host_port demo_runtime)
      (snd (steady_now dead_env (snd (steady_now dead_env (mworld demo_warm)))))) = Some (False, False)"
  by code_simp

lemma silent_call:
  "map_option (\<lambda>p. cr_timed_out (fst p)) (call_runtime silent_env demo_spec ''x'' (host_port demo_runtime)
      (snd (steady_now silent_env (snd (steady_now silent_env (mworld demo_warm)))))) = Some True"
  by code_simp

text \<open>A Docker daemon that pulls the image first and says so on its standard error.\<close>

definition pull_env :: env where
  "pull_env = demo_env\<lparr>e_popen := (\<lambda>h c. if prefix ''docker run'' c
     then PopenOk [''Unable to find image hello:v1 locally'' @ [LF] @ ''abc123'' @ [LF]] (Exited 0)
     else demo_popen h c)\<rparr>"

lemma demo_sleeps: "sleeps demo_env"
  by (simp add: sleeps_def demo_now_append tick_def)

lemma pull_run:
  "(\<lambda>r. (rr_ok r, is_safe_token (rr_id r))) (fst (run_container (make_runtime_backend None pull_env)
     (fs_image demo_spec) kContainerPort init_world)) = (True, False)"
  by code_simp

lemma demo_run:
  "(\<lambda>r. (rr_ok r, is_safe_token (rr_id r))) (fst (run_container (make_runtime_backend None refusing_env)
     (fs_image demo_spec) kContainerPort init_world)) = (True, True)"
  by code_simp

text \<open>When every connection is refused, no runtime becomes ready.\<close>

lemma refusing_not_ready: "\<exists>w'. wait_ready refusing_env p n w = Some (False, w')"
proof (induction n arbitrary: w)
  case (Suc n)
  have "\<exists>w1. is_healthy refusing_env p w = Some (False, w1)"
    by (simp add: is_healthy_def client_get_def request_def Let_def refusing_env_def demo_peer_def default_response_def)
  with Suc show ?case by auto
qed simp

lemma refusing_start: "\<exists>err w'. start_runtime refusing_env be spec w = Some (Inl err, w')"
proof -
  let ?run = "run_container be (fs_image spec) kContainerPort w"
  let ?port = "get_host_port be (rr_id (fst ?run)) kContainerPort (snd ?run)"
  obtain w' where "wait_ready refusing_env (fst ?port) kReadinessAttempts (snd ?port) = Some (False, w')"
    using refusing_not_ready by blast
  then show ?thesis by (simp add: start_runtime_def Let_def case_prod_beta)
qed

end
