(* ===== verification/Runtime_Ownership.thy ===== *)
theory Runtime_Ownership
  imports Runtime_Threads
begin

text \<open>
  Whose containers the runtime manager removes. A removal command is justified when the
  history before it shows that this process created the container it names. The backends
  promise this for their own commands (locale \<open>owning_backend\<close>, which extends the contract of
  \<open>Container_Backend\<close>), and the manager keeps it under every interleaving.
\<close>

section \<open>Removals and the containers they name\<close>

text \<open>Effects that run no command.\<close>

definition no_shell :: "effect list \<Rightarrow> bool" where
  "no_shell es = list_all (\<lambda>e. case e of Shell _ \<Rightarrow> False | _ \<Rightarrow> True) es"

definition silent_step :: "world \<Rightarrow> world \<Rightarrow> bool" where
  "silent_step w w' \<longleftrightarrow> extends w w' \<and> no_shell (new_effects w w')"

lemma silent_refl [simp]: "silent_step w w"
  by (simp add: silent_step_def no_shell_def new_effects_def)

lemma silent_trans [trans]: "silent_step u v \<Longrightarrow> silent_step v w \<Longrightarrow> silent_step u w"
  using extends_trans [of u v w] new_effects_trans [of u v w] by (auto simp: silent_step_def no_shell_def)

lemma silent_now [simp]: "silent_step w (snd (steady_now env w))"
  by (simp add: silent_step_def no_shell_def new_effects_def)

lemma silent_sleep [simp]: "silent_step w (sleep_ms n w)"
  by (simp add: silent_step_def no_shell_def new_effects_def)

lemma silent_request: "request env host port m path body ct t w = Some (r, w') \<Longrightarrow> silent_step w w'"
  by (auto simp: silent_step_def no_shell_def new_effects_def request_def Let_def extends_def
      split: if_splits option.splits prod.splits)

lemma silent_wait_ready: "wait_ready env port n w = Some (b, w') \<Longrightarrow> silent_step w w'"
proof (induction n arbitrary: w)
  case (Suc n)
  then obtain h w1 where h: "is_healthy env port w = Some (h, w1)" by (auto split: option.splits)
  then have "silent_step w w1" by (auto simp: is_healthy_def client_get_def split: option.splits dest: silent_request)
  also have "silent_step w1 w'"
    using Suc h silent_trans [OF silent_sleep] by (auto split: if_splits)
  finally show ?case .
qed simp

text \<open>
  Every removal among the effects \<open>es\<close>, which follow the history \<open>h\<close>, names a container for
  which there was evidence (\<open>made\<close>) before it.
\<close>

definition justified :: "(effect list \<Rightarrow> string \<Rightarrow> bool) \<Rightarrow> (string \<Rightarrow> string) \<Rightarrow> effect list \<Rightarrow> effect list \<Rightarrow> bool" where
  "justified made rm_line h es \<longleftrightarrow> (\<forall>pre i. prefix (pre @ [Shell (rm_line i)]) es \<longrightarrow> made (h @ pre) i)"

lemma justified_Nil [simp]: "justified made rm_line h []"
  by (simp add: justified_def)

lemma justified_append:
  "justified made rm_line h es \<Longrightarrow> justified made rm_line (h @ es) es' \<Longrightarrow> justified made rm_line h (es @ es')"
  unfolding justified_def
proof (intro allI impI)
  fix pre i
  assume a: "\<forall>pre i. prefix (pre @ [Shell (rm_line i)]) es \<longrightarrow> made (h @ pre) i"
    "\<forall>pre i. prefix (pre @ [Shell (rm_line i)]) es' \<longrightarrow> made ((h @ es) @ pre) i"
    and p: "prefix (pre @ [Shell (rm_line i)]) (es @ es')"
  show "made (h @ pre) i"
  proof (cases "prefix (pre @ [Shell (rm_line i)]) es")
    case False
    with p obtain rest where "pre @ [Shell (rm_line i)] = es @ rest" "prefix rest es'" "rest \<noteq> []"
      by (auto simp: prefix_append)
    then obtain pre' where "pre = es @ pre'" "prefix (pre' @ [Shell (rm_line i)]) es'"
      by (metis butlast_append butlast_snoc last_appendR snoc_eq_iff_butlast)
    with a(2) show ?thesis by auto
  qed (use a(1) in blast)
qed

lemma justified_one: "justified made rm_line h [e] \<longleftrightarrow> (\<forall>i. e = Shell (rm_line i) \<longrightarrow> made h i)"
  by (auto simp: justified_def prefix_Cons)

lemma no_shell_justified: "no_shell es \<Longrightarrow> justified made rm_line h es"
  by (fastforce simp: justified_def no_shell_def list_all_iff dest!: set_mono_prefix)

section \<open>What a backend promises about its removals\<close>

text \<open>
  \<open>made h0 h i\<close>: in the history \<open>h\<close>, after its beginning \<open>h0\<close>, this process created the container \<open>i\<close>.
\<close>

locale owning_backend = managed_backend be rm_line
  for be :: backend and rm_line +
  fixes made :: "effect list \<Rightarrow> effect list \<Rightarrow> string \<Rightarrow> bool"
  assumes made_mono: "prefix h h' \<Longrightarrow> made h0 h i \<Longrightarrow> made h0 h' i"
    and run_made: "prefix h0 (hist w) \<Longrightarrow> rr_ok (fst (run_container be img kContainerPort w)) \<Longrightarrow>
      made h0 (hist (snd (run_container be img kContainerPort w))) (rr_id (fst (run_container be img kContainerPort w)))"
    and run_justified: "prefix h0 (hist w) \<Longrightarrow>
      justified (made h0) rm_line (hist w) (new_effects w (snd (run_container be img kContainerPort w)))"
    and port_justified: "justified (made h0) rm_line (hist w) (new_effects w (snd (get_host_port be i kContainerPort w)))"
    and remove_justified: "made h0 (hist w) i \<Longrightarrow>
      justified (made h0) rm_line (hist w) (new_effects w (snd (remove_container be i w)))"
begin

definition clean :: "effect list \<Rightarrow> world \<Rightarrow> bool" where
  "clean h0 w \<longleftrightarrow> prefix h0 (hist w) \<and> justified (made h0) rm_line h0 (drop (length h0) (hist w))"

lemma clean_step:
  assumes "clean h0 w" "extends w w'" "justified (made h0) rm_line (hist w) (new_effects w w')"
  shows "clean h0 w'"
proof -
  obtain es where es: "hist w = h0 @ es" using assms(1) by (auto simp: clean_def prefix_def)
  moreover obtain es' where "hist w' = hist w @ es'" using assms(2) by (auto simp: extends_def prefix_def)
  ultimately show ?thesis using assms(1,3) justified_append [of "made h0" rm_line h0 es es']
    by (simp add: clean_def new_effects_def)
qed

lemma clean_silent: "clean h0 w \<Longrightarrow> silent_step w w' \<Longrightarrow> clean h0 w'"
  using clean_step no_shell_justified by (simp add: silent_step_def)

lemma clean_prefix: "clean h0 w \<Longrightarrow> prefix h0 (hist w)"
  by (simp add: clean_def)

lemma clean_remove: "clean h0 w \<Longrightarrow> made h0 (hist w) i \<Longrightarrow> clean h0 (snd (remove_container be i w))"
  by (rule clean_step [OF _ remove_extends remove_justified])

lemma made_extends: "extends w w' \<Longrightarrow> made h0 (hist w) i \<Longrightarrow> made h0 (hist w') i"
  using made_mono by (simp add: extends_def)

lemma clean_start_runtime:
  assumes "clean h0 w" "start_runtime env be spec w = Some (x, w')"
  shows "clean h0 w' \<and> (\<forall>rt. x = Inr rt \<longrightarrow> made h0 (hist w') (container_id rt))"
proof -
  let ?run = "run_container be (fs_image spec) kContainerPort w"
  let ?port = "get_host_port be (rr_id (fst ?run)) kContainerPort (snd ?run)"
  have c1: "clean h0 (snd ?run)" by (rule clean_step [OF assms(1) run_extends run_justified [OF clean_prefix [OF assms(1)]]])
  have c2: "clean h0 (snd ?port)" by (rule clean_step [OF c1 port_extends port_justified])
  have made2: "made h0 (hist (snd ?port)) (rr_id (fst ?run))" if "rr_ok (fst ?run)"
    using run_made [OF clean_prefix [OF assms(1)] that] port_extends made_extends by blast
  have ready: "clean h0 w3 \<and> (rr_ok (fst ?run) \<longrightarrow> made h0 (hist w3) (rr_id (fst ?run)))"
    if "wait_ready env (fst ?port) kReadinessAttempts (snd ?port) = Some (b, w3)" for b w3
    using clean_silent [OF c2 silent_wait_ready [OF that]] made2 made_extends wait_ready_extends [OF that] by blast
  show ?thesis
    using assms(2) c1 made2 clean_remove [OF c2] ready clean_remove
    by (fastforce simp: start_runtime_def Let_def case_prod_beta default_runtime_def split: if_splits option.splits)
qed

section \<open>The manager removes only what it created\<close>

definition owns :: "effect list \<Rightarrow> manager \<Rightarrow> bool" where
  "owns h0 mg \<longleftrightarrow> clean h0 (mworld mg)
     \<and> (\<forall>k rt. om_find (runtimes mg) k = Some rt \<longrightarrow> made h0 (hist (mworld mg)) (container_id rt))"

lemma owns_silent: "owns h0 mg \<Longrightarrow> silent_step (mworld mg) w \<Longrightarrow> owns h0 (mg\<lparr>mworld := w\<rparr>)"
  using clean_silent made_extends by (fastforce simp: owns_def silent_step_def)

lemma owns_put:
  assumes "owns h0 mg" "made h0 (hist w) (container_id rt)" "clean h0 w" "extends (mworld mg) w"
  shows "owns h0 (mg\<lparr>runtimes := om_put k rt (runtimes mg), mworld := w\<rparr>)"
  using assms made_extends by (auto simp: owns_def om_find_put)

lemma owns_mark_idle: "owns h0 mg \<Longrightarrow> owns h0 (mark_idle env k mg)"
proof (cases "om_find (runtimes mg) k")
  case (Some rt)
  assume o: "owns h0 mg"
  let ?w = "snd (steady_now env (mworld mg))"
  have "clean h0 ?w" "extends (mworld mg) ?w" using o clean_silent by (auto simp: owns_def)
  moreover have "made h0 (hist ?w) (container_id rt)" using o Some made_extends [OF extends_now] by (auto simp: owns_def)
  ultimately show ?thesis using owns_put [OF o, of ?w "rt\<lparr>rt_state := IDLE, last_used_at := e_now env (hist (mworld mg))\<rparr>" k] Some
    by (simp add: mark_idle_def case_prod_beta Let_def)
qed (simp add: mark_idle_def)

lemma owns_drop:
  assumes "owns h0 mg" "made h0 (hist (mworld mg)) cid" "om_ok (runtimes mg)"
  shows "owns h0 (drop_runtime be k cid reason mg)"
proof -
  let ?w = "snd (remove_container be cid (mworld mg))"
  have "clean h0 ?w" using assms clean_remove by (simp add: owns_def)
  then show ?thesis using assms made_extends [OF remove_extends]
    by (auto simp: owns_def drop_runtime_def case_prod_beta Let_def om_find_erase split: if_splits)
qed

lemma owns_terminate: "owns h0 mg \<Longrightarrow> om_ok (runtimes mg) \<Longrightarrow> owns h0 (terminate be k mg)"
  by (auto simp: terminate_def owns_def [of h0 mg] split: option.split intro: owns_drop)

lemma owns_settle:
  assumes "owns h0 mg" "om_ok (runtimes mg)" "settle env be spec cid resp mg = (x, mg')"
  shows "owns h0 mg'"
proof -
  have "owns h0 (drop_runtime be (fs_name spec) cid reason mg)" if "still_tracked (fs_name spec) cid mg" for reason
    using that assms(1,2) by (intro owns_drop) (auto simp: owns_def still_tracked_def split: option.splits)
  with assms owns_mark_idle show ?thesis by (auto simp: settle_def Let_def split: if_splits)
qed

lemma owns_mark_busy:
  assumes "owns h0 mg" "made h0 (hist (mworld mg)) (container_id rt)"
  shows "owns h0 (snd (mark_busy env k cold rt mg))"
proof -
  let ?w = "snd (steady_now env (mworld mg))"
  have "clean h0 ?w" "extends (mworld mg) ?w" using assms(1) clean_silent by (auto simp: owns_def)
  then show ?thesis
    using owns_put [OF assms(1), of ?w "rt\<lparr>rt_state := BUSY, last_used_at := e_now env (hist (mworld mg))\<rparr>" k]
      made_extends [OF extends_now assms(2)]
    by (simp add: mark_busy_def case_prod_beta Let_def)
qed

lemma owns_checkout:
  assumes "owns h0 mg" "checkout env be spec mg = Some (x, mg')"
  shows "owns h0 mg'"
proof (cases "om_find (runtimes mg) (fs_name spec)")
  case (Some rt)
  then have "mg' = snd (mark_busy env (fs_name spec) False rt mg)" using assms(2) by (simp add: checkout_def)
  with Some assms(1) owns_mark_busy show ?thesis by (simp add: owns_def)
next
  case None
  obtain y w where st: "start_runtime env be spec (mworld mg) = Some (y, w)"
    using assms(2) None by (auto simp: checkout_def split: option.splits)
  have c: "clean h0 w" "\<And>rt. y = Inr rt \<Longrightarrow> made h0 (hist w) (container_id rt)" "extends (mworld mg) w"
    using clean_start_runtime [OF _ st] start_runtime_extends [OF st] assms(1) by (auto simp: owns_def)
  show ?thesis
  proof (cases y)
    case (Inl err)
    with assms None st have "mg' = mg\<lparr>mworld := w\<rparr>" by (simp add: checkout_def)
    with c assms(1) made_extends show ?thesis by (auto simp: owns_def)
  next
    case (Inr rt)
    let ?mg = "mg\<lparr>runtimes := om_put (fs_name spec) rt (runtimes mg), mmetrics := record_runtime_created (mmetrics mg), mworld := w\<rparr>"
    have "owns h0 ?mg" using owns_put [OF assms(1) c(2) c(1,3), OF Inr] by (simp add: owns_def)
    moreover have "mg' = snd (mark_busy env (fs_name spec) True rt ?mg)"
      using assms(2) None st Inr by (simp add: checkout_def)
    ultimately show ?thesis using owns_mark_busy c(2) Inr by simp
  qed
qed

lemma clean_reap_entries:
  assumes "clean h0 w" "\<And>k rt. (k, rt) \<in> set es \<Longrightarrow> made h0 (hist w) (container_id rt)"
  shows "clean h0 (snd (snd (reap_entries be now es m w)))"
  using assms
proof (induction es arbitrary: m w)
  case (Cons e es)
  obtain k rt where e: "e = (k, rt)" by (cases e)
  let ?w = "snd (remove_container be (container_id rt) w)"
  have "clean h0 ?w" using clean_remove [OF Cons.prems(1) Cons.prems(2) [of k]] e by simp
  moreover have "made h0 (hist ?w) (container_id rt')" if "(k', rt') \<in> set es" for k' rt'
    using Cons.prems(2) that made_extends [OF remove_extends] by (metis list.set_intros(2))
  ultimately have "clean h0 (snd (snd (reap_entries be now es m' ?w)))" for m' by (rule Cons.IH)
  moreover have "clean h0 (snd (snd (reap_entries be now es m w)))"
    using Cons.IH [OF Cons.prems(1)] Cons.prems(2) by (metis list.set_intros(2))
  ultimately show ?case by (simp add: e case_prod_beta Let_def)
qed simp

lemma owns_reap_round:
  assumes "owns h0 mg" "om_ok (runtimes mg)"
  shows "owns h0 (reap_round env be mg)"
proof -
  let ?mg = "mg\<lparr>mworld := snd (steady_now env (sleep_ms kReaperIntervalMs (mworld mg)))\<rparr>"
  let ?now = "e_now env (hist (sleep_ms kReaperIntervalMs (mworld mg)))"
  let ?r = "reap_entries be ?now (runtimes mg) (mmetrics mg) (mworld ?mg)"
  have o: "owns h0 ?mg" by (rule owns_silent [OF assms(1) silent_trans [OF silent_sleep silent_now]])
  have mem: "made h0 (hist (mworld ?mg)) (container_id rt)" if "(k, rt) \<in> set (runtimes mg)" for k rt
    using o that om.find_entries [OF assms(2)] by (auto simp: owns_def)
  have c: "clean h0 (snd (snd ?r))" by (rule clean_reap_entries) (use o mem in \<open>auto simp: owns_def\<close>)
  have eq: "reap_round env be mg = \<lparr>runtimes = fst ?r, mmetrics = fst (snd ?r), mworld = snd (snd ?r)\<rparr>"
    by (simp add: reap_round_def reap_locked_def case_prod_beta Let_def)
  have "made h0 (hist (snd (snd ?r))) (container_id rt)" if "om_find (fst ?r) k = Some rt" for k rt
  proof -
    have "(k, rt) \<in> set (runtimes mg)" using om_find_in [OF that] by (simp add: reap_entries_runtimes)
    then show ?thesis using mem made_extends [OF reap_entries_extends] by blast
  qed
  with c show ?thesis by (simp add: owns_def eq)
qed

lemma owns_step:
  assumes "mstep env be s s'" "owns h0 (mgr s)" "om_ok (runtimes (mgr s))"
  shows "owns h0 (mgr s')"
  using assms(1)
proof cases
  case (arrive t now w spec inp)
  then have "w = snd (steady_now env (mworld (mgr s)))" by simp
  with arrive(1) assms(2) show ?thesis by (simp add: owns_silent)
next
  case (start_failed t th second err mg1 d w)
  have "owns h0 mg1" using owns_checkout [OF assms(2) start_failed(4)] .
  moreover have "w = snd (steady_now env (mworld mg1))" using start_failed(5) elapsed_ms_simps(2) by (metis snd_conv)
  ultimately show ?thesis using start_failed(1) by (simp add: owns_silent)
next
  case (checked_out t th second cold port cid mg1)
  then show ?thesis using owns_checkout [OF assms(2)] by simp
next
  case (answered t th second cold port cid resp es d w st out cf mg2)
  let ?w = "(mworld (mgr s))\<lparr>hist := hist (mworld (mgr s)) @ es\<rparr>"
  have "w = snd (steady_now env ?w)" using answered(5) elapsed_ms_simps(2) by (metis snd_conv)
  moreover have "silent_step (mworld (mgr s)) ?w"
    using answered(7) by (auto simp: silent_step_def extends_def new_effects_def no_shell_def network_effect_def list_all_iff split: effect.splits)
  ultimately have "silent_step (mworld (mgr s)) w" using silent_trans silent_now by blast
  then have "owns h0 ((mgr s)\<lparr>mworld := w\<rparr>)" by (rule owns_silent [OF assms(2)])
  from owns_settle [OF this _ answered(6)] assms(3) answered(1) show ?thesis by simp
next
  case (recorded t th r)
  then show ?thesis using assms(2) by (simp add: finish_invoke_def owns_def)
next
  case reaped
  then show ?thesis using owns_reap_round [OF assms(2,3)] by simp
next
  case (deleted k)
  then show ?thesis using owns_terminate [OF assms(2,3)] by simp
next
  case (looked k)
  then show ?thesis using assms(2)
    by (auto simp: runtime_status_of_def case_prod_beta Let_def owns_silent split: option.split)
next
  case listed
  then show ?thesis using assms(2) by (simp add: list_runtimes_def case_prod_beta Let_def owns_silent)
qed

lemma reachable_owns: "reachable env be w s \<Longrightarrow> owns (hist w) (mgr s)"
proof (induction rule: reachable.induct)
  case reach_init
  then show ?case by (simp add: owns_def clean_def init_system_def init_manager_def)
next
  case (reach_step s s')
  then show ?case using owns_step reachable_mgr_ok by (auto simp: mgr_ok_def)
qed

end

section \<open>Both backends\<close>

text \<open>
  The evidence: after \<open>h0\<close> there is the command that created the container. A pod is named in
  the command; a Docker container is named in the first line of its output.
\<close>

definition made_here :: "string option \<Rightarrow> env \<Rightarrow> effect list \<Rightarrow> effect list \<Rightarrow> string \<Rightarrow> bool" where
  "made_here kind env h0 h i \<longleftrightarrow> (\<exists>h1 img. prefix h0 h1 \<and>
     (if is_kubernetes kind then prefix (h1 @ [Shell (kubectl_run_line i img kContainerPort @ '' 2>&1'')]) h
      else prefix (h1 @ [Shell (docker_run_line img kContainerPort @ '' 2>&1'')]) h
        \<and> i = trim (first_line (exec_output (fst (exec_capture env (docker_run_line img kContainerPort) \<lparr>hist = h1, pod_counter = 0\<rparr>))))))"

lemma exec_capture_only_hist: "fst (exec_capture env c \<lparr>hist = hist w, pod_counter = n\<rparr>) = fst (exec_capture env c w)"
  by (simp add: exec_capture_def Let_def split: popen_result.split)

lemma made_here_mono: "prefix h h' \<Longrightarrow> made_here kind env h0 h i \<Longrightarrow> made_here kind env h0 h' i"
  unfolding made_here_def by (meson prefix_order.trans)

lemma docker_lines_differ [simp]:
  "docker_run_line img p \<noteq> docker_rm_line i" "docker_port_line j p \<noteq> docker_rm_line i" "docker_rm_line i = docker_rm_line j \<longleftrightarrow> i = j"
  by (simp_all add: docker_rm_line_def docker_run_line_def docker_port_line_def)

lemma kubectl_lines_differ [simp]:
  "kubectl_run_line j img p \<noteq> kubectl_delete_pod_line i" "kubectl_wait_line j \<noteq> kubectl_delete_pod_line i"
  "kubectl_expose_line j p \<noteq> kubectl_delete_pod_line i" "kubectl_delete_svc_line j \<noteq> kubectl_delete_pod_line i"
  "kubectl_get_port_line j \<noteq> kubectl_delete_pod_line i" "kubectl_delete_pod_line i = kubectl_delete_pod_line j \<longleftrightarrow> i = j"
  by (simp_all add: kubectl_delete_pod_line_def kubectl_run_line_def kubectl_wait_line_def kubectl_expose_line_def
      kubectl_delete_svc_line_def kubectl_get_port_line_def)

lemmas lines_differ_sym [simp] = docker_lines_differ(1,2) [THEN not_sym] kubectl_lines_differ(1-5) [THEN not_sym]

lemma docker_new_effects:
  "new_effects w (snd (docker_run_container env img p w)) =
    (if is_safe_token img then [Shell (docker_run_line img p @ '' 2>&1'')] else [])"
  "new_effects w (snd (docker_get_host_port env i p w)) = (if is_safe_token i then [Shell (docker_port_line i p @ '' 2>&1'')] else [])"
  "new_effects w (snd (docker_remove_container env i w)) = (if is_safe_token i then [Shell (docker_rm_line i @ '' 2>&1'')] else [])"
  by (auto simp: new_effects_def docker_run_container_def docker_get_host_port_def docker_remove_container_def
      Let_def case_prod_beta split: option.splits sum.splits)

lemma docker_made:
  assumes "\<not> is_kubernetes kind" "prefix h0 (hist w)" "rr_ok (fst (docker_run_container env img kContainerPort w))"
  shows "made_here kind env h0 (hist (snd (docker_run_container env img kContainerPort w))) (rr_id (fst (docker_run_container env img kContainerPort w)))"
proof -
  have "hist (snd (docker_run_container env img kContainerPort w)) = hist w @ [Shell (docker_run_line img kContainerPort @ '' 2>&1'')]"
    "rr_id (fst (docker_run_container env img kContainerPort w)) =
      trim (first_line (exec_output (fst (exec_capture env (docker_run_line img kContainerPort) w))))"
    using assms(3) by (auto simp: docker_run_container_def Let_def case_prod_beta split: if_splits)
  then show ?thesis using assms(1,2) unfolding made_here_def
    by (intro exI [of _ "hist w"] exI [of _ img]) (simp add: exec_capture_only_hist)
qed

lemma k8s_run_effects:
  assumes "nm = pod_name (ms_of_ns (e_now env (hist w))) (pod_counter w + 1)" "is_safe_token img"
  shows "\<exists>es. new_effects w (snd (k8s_run_container env img p w)) = [ClockRead, Shell (kubectl_run_line nm img p @ '' 2>&1'')] @ es
    \<and> set es \<subseteq> {Shell (kubectl_wait_line nm @ '' 2>&1''), Shell (kubectl_expose_line nm p @ '' 2>&1''),
        Shell (kubectl_delete_pod_line nm @ '' 2>&1'')}"
  using assms by (auto simp: new_effects_def k8s_run_container_def Let_def case_prod_beta)

lemma k8s_run_made:
  assumes "is_kubernetes kind" "prefix h0 (hist w)" "is_safe_token img"
    and "nm = pod_name (ms_of_ns (e_now env (hist w))) (pod_counter w + 1)"
  shows "made_here kind env h0 (hist w @ [ClockRead, Shell (kubectl_run_line nm img kContainerPort @ '' 2>&1'')] @ es) nm"
  using assms(1,2) unfolding made_here_def by (intro exI [of _ "hist w @ [ClockRead]"] exI [of _ img]) auto

lemma k8s_run_justified:
  assumes "is_kubernetes kind" "prefix h0 (hist w)"
  shows "justified (made_here kind env h0) (\<lambda>i. kubectl_delete_pod_line i @ '' 2>&1'') (hist w)
    (new_effects w (snd (k8s_run_container env img kContainerPort w)))"
proof (cases "is_safe_token img")
  case False
  then show ?thesis by (simp add: k8s_unsafe new_effects_def)
next
  case True
  define nm where "nm = pod_name (ms_of_ns (e_now env (hist w))) (pod_counter w + 1)"
  let ?run = "[ClockRead, Shell (kubectl_run_line nm img kContainerPort @ '' 2>&1'')]"
  obtain es where es: "new_effects w (snd (k8s_run_container env img kContainerPort w)) = ?run @ es"
    "set es \<subseteq> {Shell (kubectl_wait_line nm @ '' 2>&1''), Shell (kubectl_expose_line nm kContainerPort @ '' 2>&1''),
        Shell (kubectl_delete_pod_line nm @ '' 2>&1'')}"
    using k8s_run_effects [OF nm_def True] by blast
  have "justified (made_here kind env h0) (\<lambda>i. kubectl_delete_pod_line i @ '' 2>&1'') (hist w) ?run"
    by (fastforce simp: justified_def dest: set_mono_prefix)
  moreover have "justified (made_here kind env h0) (\<lambda>i. kubectl_delete_pod_line i @ '' 2>&1'') (hist w @ ?run) es"
    unfolding justified_def
  proof (intro allI impI)
    fix pre i
    assume "prefix (pre @ [Shell (kubectl_delete_pod_line i @ '' 2>&1'')]) es"
    then have "Shell (kubectl_delete_pod_line i @ '' 2>&1'') \<in> set es" using set_mono_prefix by fastforce
    with es(2) have "i = nm" by auto
    then show "made_here kind env h0 ((hist w @ ?run) @ pre) i" using k8s_run_made [OF assms True nm_def, of pre] by simp
  qed
  ultimately show ?thesis unfolding es(1) by (rule justified_append)
qed

lemma k8s_justified:
  "justified made (\<lambda>i. kubectl_delete_pod_line i @ '' 2>&1'') h (new_effects w (snd (k8s_get_host_port env i p w)))"
  "made h i \<Longrightarrow> (\<And>e. made (h @ [e]) i) \<Longrightarrow>
    justified made (\<lambda>i. kubectl_delete_pod_line i @ '' 2>&1'') h (new_effects w (snd (k8s_remove_container env i w)))"
proof -
  show "justified made (\<lambda>i. kubectl_delete_pod_line i @ '' 2>&1'') h (new_effects w (snd (k8s_get_host_port env i p w)))"
    by (auto simp: k8s_get_host_port_def new_effects_def case_prod_beta Let_def justified_one split: sum.splits)
  assume m: "made h i" "\<And>e. made (h @ [e]) i"
  have "new_effects w (snd (k8s_remove_container env i w)) = (if is_safe_token i then
      [Shell (kubectl_delete_svc_line i @ '' 2>&1'')] @ [Shell (kubectl_delete_pod_line i @ '' 2>&1'')] else [])"
    by (auto simp: k8s_remove_container_def new_effects_def case_prod_beta Let_def)
  then show "justified made (\<lambda>i. kubectl_delete_pod_line i @ '' 2>&1'') h (new_effects w (snd (k8s_remove_container env i w)))"
    using m by (auto simp del: append_Cons append_Nil intro!: justified_append simp: justified_one)
qed

lemma docker_justified:
  "justified made (\<lambda>i. docker_rm_line i @ '' 2>&1'') h (new_effects w (snd (docker_run_container env img p w)))"
  "justified made (\<lambda>i. docker_rm_line i @ '' 2>&1'') h (new_effects w (snd (docker_get_host_port env i p w)))"
  "made h i \<Longrightarrow> justified made (\<lambda>i. docker_rm_line i @ '' 2>&1'') h (new_effects w (snd (docker_remove_container env i w)))"
  by (simp_all add: docker_new_effects justified_one)

lemma backend_parts:
  "is_kubernetes kind \<Longrightarrow> make_runtime_backend kind env = kubernetes_backend env"
  "\<not> is_kubernetes kind \<Longrightarrow> make_runtime_backend kind env = docker_backend env"
  "is_kubernetes kind \<Longrightarrow> rm_command kind = (\<lambda>i. kubectl_delete_pod_line i @ '' 2>&1'')"
  "\<not> is_kubernetes kind \<Longrightarrow> rm_command kind = (\<lambda>i. docker_rm_line i @ '' 2>&1'')"
  "run_container (kubernetes_backend env) = k8s_run_container env" "run_container (docker_backend env) = docker_run_container env"
  "get_host_port (kubernetes_backend env) = k8s_get_host_port env" "get_host_port (docker_backend env) = docker_get_host_port env"
  "remove_container (kubernetes_backend env) = k8s_remove_container env"
  "remove_container (docker_backend env) = docker_remove_container env"
  by (simp_all add: make_runtime_backend_def rm_command_def fun_eq_iff kubernetes_backend_def docker_backend_def)

interpretation owned: owning_backend "make_runtime_backend kind env" "rm_command kind" "made_here kind env" for kind env
proof
  show "prefix h h' \<Longrightarrow> made_here kind env h0 h i \<Longrightarrow> made_here kind env h0 h' i" for h h' h0 i
    by (rule made_here_mono)
  fix h0 w img i
  show "made_here kind env h0 (hist (snd (run_container (make_runtime_backend kind env) img kContainerPort w)))
      (rr_id (fst (run_container (make_runtime_backend kind env) img kContainerPort w)))"
    if "prefix h0 (hist w)" "rr_ok (fst (run_container (make_runtime_backend kind env) img kContainerPort w))"
  proof (cases "is_kubernetes kind")
    case True
    then have b: "run_container (make_runtime_backend kind env) = k8s_run_container env"
      by (simp add: make_runtime_backend_def kubernetes_backend_def)
    define nm where "nm = pod_name (ms_of_ns (e_now env (hist w))) (pod_counter w + 1)"
    have id: "rr_id (fst (k8s_run_container env img kContainerPort w)) = nm"
      using k8s_run_ok_name that(2) by (simp add: b nm_def)
    have safe: "is_safe_token img" using k8s.run_unsafe that(2) unfolding b by blast
    obtain es where "new_effects w (snd (k8s_run_container env img kContainerPort w))
        = [ClockRead, Shell (kubectl_run_line nm img kContainerPort @ '' 2>&1'')] @ es"
      using k8s_run_effects [OF nm_def safe] by blast
    then have "hist (snd (k8s_run_container env img kContainerPort w))
        = hist w @ [ClockRead, Shell (kubectl_run_line nm img kContainerPort @ '' 2>&1'')] @ es"
      using k8s_extends(1) [of w env img kContainerPort] by (auto simp: new_effects_def extends_def elim!: prefixE)
    then show ?thesis using k8s_run_made [OF True that(1) safe nm_def, of es] by (simp add: b id)
  next
    case False
    then show ?thesis using docker_made [OF False that(1)] that(2) by (simp add: make_runtime_backend_def docker_backend_def)
  qed
  show "justified (made_here kind env h0) (rm_command kind) (hist w)
      (new_effects w (snd (run_container (make_runtime_backend kind env) img kContainerPort w)))" if "prefix h0 (hist w)"
    using k8s_run_justified [OF _ that] docker_justified(1) by (cases "is_kubernetes kind") (simp_all add: backend_parts)
  show "justified (made_here kind env h0) (rm_command kind) (hist w)
      (new_effects w (snd (get_host_port (make_runtime_backend kind env) i kContainerPort w)))"
    using k8s_justified(1) docker_justified(2) by (cases "is_kubernetes kind") (simp_all add: backend_parts)
  show "justified (made_here kind env h0) (rm_command kind) (hist w)
      (new_effects w (snd (remove_container (make_runtime_backend kind env) i w)))" if "made_here kind env h0 (hist w) i"
    using k8s_justified(2) [of "made_here kind env h0" "hist w" i, OF that] made_here_mono [OF _ that] docker_justified(3) [of "made_here kind env h0", OF that]
    by (cases "is_kubernetes kind") (simp_all add: backend_parts)
qed

end
