(* ===== verification/Runtime_Work.thy ===== *)
theory Runtime_Work
  imports Runtime_Behaviour Runtime_Backend
begin

text \<open>
  How much an invocation asks of the outside: the commands it runs, the connections it opens
  and the times it sleeps, counted over the effects it adds. The backends promise how many
  commands each of their operations runs (locale \<open>frugal_backend\<close>).
\<close>

section \<open>Counting effects\<close>

fun is_command :: "effect \<Rightarrow> bool" where
  "is_command (Shell _) = True"
| "is_command _ = False"

fun is_connection :: "effect \<Rightarrow> bool" where
  "is_connection (Connect _ _ _) = True"
| "is_connection _ = False"

fun is_sleep :: "effect \<Rightarrow> bool" where
  "is_sleep (SleepMs _) = True"
| "is_sleep _ = False"

definition how_many :: "(effect \<Rightarrow> bool) \<Rightarrow> effect list \<Rightarrow> nat" where
  "how_many p es = length (filter p es)"

text \<open>From \<open>w\<close> to \<open>w'\<close> effects were added, at most \<open>a\<close> commands, \<open>b\<close> connections and \<open>c\<close> sleeps.\<close>

definition spends :: "nat \<Rightarrow> nat \<Rightarrow> nat \<Rightarrow> world \<Rightarrow> world \<Rightarrow> bool" where
  "spends a b c w w' \<longleftrightarrow> extends w w' \<and> how_many is_command (new_effects w w') \<le> a
     \<and> how_many is_connection (new_effects w w') \<le> b \<and> how_many is_sleep (new_effects w w') \<le> c"

lemma spendsI:
  assumes "hist w' = hist w @ es" "how_many is_command es \<le> a" "how_many is_connection es \<le> b" "how_many is_sleep es \<le> c"
  shows "spends a b c w w'"
  using assms by (simp add: spends_def extends_def new_effects_def)

lemma spends_trans:
  assumes "spends a b c u v" "spends a' b' c' v w" "a + a' \<le> x" "b + b' \<le> y" "c + c' \<le> z"
  shows "spends x y z u w"
  using assms new_effects_trans [of u v w] by (auto simp: spends_def how_many_def intro: extends_trans)

lemma spends_none [simp]: "spends a b c w w"
  by (simp add: spends_def new_effects_def how_many_def)

lemma spends_mono: "spends a b c u v \<Longrightarrow> a \<le> x \<Longrightarrow> b \<le> y \<Longrightarrow> c \<le> z \<Longrightarrow> spends x y z u v"
  by (auto simp: spends_def)

lemma spends_clock: "spends 0 0 0 w (snd (steady_now env w))"
  by (rule spendsI [where es = "[ClockRead]"]) (simp_all add: how_many_def)

lemma spends_request: "request env host port m path body ct t w = Some (r, w') \<Longrightarrow> spends 0 1 0 w w'"
  by (auto simp: request_def Let_def spends_def extends_def new_effects_def how_many_def
      split: if_splits option.splits prod.splits)

lemma spends_ready: "wait_ready env p n w = Some (b, w') \<Longrightarrow> spends 0 n n w w'"
proof (induction n arbitrary: w)
  case (Suc n)
  then obtain h w1 where h: "is_healthy env p w = Some (h, w1)" by (auto split: option.splits)
  then have one: "spends 0 1 0 w w1" by (auto simp: is_healthy_def client_get_def split: option.splits dest: spends_request)
  have sl: "spends 0 0 1 w1 (sleep_ms kReadinessIntervalMs w1)"
    by (rule spendsI [where es = "[SleepMs kReadinessIntervalMs]"]) (simp_all add: how_many_def)
  show ?case
  proof (cases h)
    case True
    with Suc.prems h have "w' = w1" by simp
    with one show ?thesis by (auto intro: spends_mono)
  next
    case False
    with Suc.prems h have "spends 0 n n (sleep_ms kReadinessIntervalMs w1) w'" by (intro Suc.IH) simp
    from spends_trans [OF spends_trans [OF one sl order_refl order_refl order_refl] this] show ?thesis by simp
  qed
qed simp

section \<open>What a backend promises\<close>

locale frugal_backend = managed_backend be rm_line
  for be :: backend and rm_line +
  assumes run_spends: "spends (if rr_ok (fst (run_container be img p w)) then 3 else 4) 0 0 w (snd (run_container be img p w))"
    and port_spends: "spends 1 0 0 w (snd (get_host_port be i p w))"
    and remove_spends: "spends 2 0 0 w (snd (remove_container be i w))"
begin

lemma start_spends:
  assumes "start_runtime env be spec w = Some (x, w')"
  shows "spends (if isl x then 6 else 4) kReadinessAttempts kReadinessAttempts w w'"
proof -
  obtain run w1 where r: "run_container be (fs_image spec) kContainerPort w = (run, w1)" by fastforce
  obtain port w2 where p: "get_host_port be (rr_id run) kContainerPort w1 = (port, w2)" by fastforce
  note run = run_spends [of "fs_image spec" kContainerPort w, unfolded r fst_conv snd_conv]
  have two: "spends 4 0 0 w w2" if "rr_ok run"
    by (rule spends_trans [OF run port_spends [of w1 "rr_id run" kContainerPort, unfolded p snd_conv]]) (simp_all add: that)
  have rm: "spends 6 b c w (snd (remove_container be (rr_id run) v))" if "spends 4 b c w v" for b c v
    by (rule spends_trans [OF that remove_spends [of v "rr_id run"]]) simp_all
  consider "\<not> rr_ok run" | "rr_ok run" "port \<le> 0" | "rr_ok run" "0 < port" by linarith
  then show ?thesis
  proof cases
    case 1
    with assms r run show ?thesis by (auto simp: start_runtime_def intro: spends_mono)
  next
    case 2
    with assms r p have "w' = snd (remove_container be (rr_id run) w2)" "isl x"
      by (auto simp: start_runtime_def case_prod_beta Let_def)
    with rm [OF two [OF 2(1)]] show ?thesis by (auto intro: spends_mono)
  next
    case 3
    then obtain ready w3 where ready: "wait_ready env port kReadinessAttempts w2 = Some (ready, w3)"
      using assms r p by (auto simp: start_runtime_def split: option.splits)
    have three: "spends 4 kReadinessAttempts kReadinessAttempts w w3"
      by (rule spends_trans [OF two [OF 3(1)] spends_ready [OF ready]]) simp_all
    show ?thesis
    proof (cases ready)
      case True
      with assms r p 3 ready have "w' = w3" "\<not> isl x" by (auto simp: start_runtime_def)
      with three show ?thesis by simp
    next
      case False
      with assms r p 3 ready have "w' = snd (remove_container be (rr_id run) w3)" "isl x"
        by (auto simp: start_runtime_def case_prod_beta Let_def)
      with rm [OF three] show ?thesis by simp
    qed
  qed
qed

lemma settle_spends:
  assumes "settle env be spec cid resp mg = (x, mg')"
  shows "spends 2 0 0 (mworld mg) (mworld mg')"
  using assms remove_spends [of "mworld mg" cid] spends_mono [OF spends_clock [of "mworld mg" env], of 2 0 0]
  by (auto simp: settle_def drop_runtime_def mark_idle_def case_prod_beta Let_def split: if_splits option.splits)

text \<open>The first critical section: nothing on a tracked runtime, else the start of a container.\<close>

lemma checkout_spends:
  assumes "checkout env be spec mg = Some (x, mg1)" "cold = (om_find (runtimes mg) (fs_name spec) = None)"
  shows "spends (if isl x then 6 else if cold then 4 else 0) (if cold then kReadinessAttempts else 0)
      (if cold then kReadinessAttempts else 0) (mworld mg) (mworld mg1)"
    and "if isl x then cold else fst (projr x) = cold"
proof -
  have "spends (if isl x then 6 else if cold then 4 else 0) (if cold then kReadinessAttempts else 0)
      (if cold then kReadinessAttempts else 0) (mworld mg) (mworld mg1) \<and> (if isl x then cold else fst (projr x) = cold)"
  proof (cases "om_find (runtimes mg) (fs_name spec)")
    case (Some rt)
    with assms show ?thesis by (auto simp: checkout_def mark_busy_def case_prod_beta Let_def spends_clock)
  next
    case None
    then obtain y w1 where st: "start_runtime env be spec (mworld mg) = Some (y, w1)"
      using assms(1) by (auto simp: checkout_def split: option.splits)
    note sp = start_spends [OF st]
    show ?thesis
    proof (cases y)
      case (Inl err)
      with None assms st sp show ?thesis by (auto simp: checkout_def)
    next
      case (Inr rt)
      then have "spends 4 kReadinessAttempts kReadinessAttempts (mworld mg) (snd (steady_now env w1))"
        using sp by (intro spends_trans [OF sp spends_clock]) simp_all
      with None Inr assms st show ?thesis by (auto simp: checkout_def mark_busy_def case_prod_beta Let_def)
    qed
  qed
  then show "spends (if isl x then 6 else if cold then 4 else 0) (if cold then kReadinessAttempts else 0)
      (if cold then kReadinessAttempts else 0) (mworld mg) (mworld mg1)" "if isl x then cold else fst (projr x) = cold"
    by blast+
qed

text \<open>
  One attempt: on a tracked runtime it runs at most the two commands of a removal and opens one
  connection; else it starts a container, and then it is cold or its connection has not
  failed, so that there is no second attempt.
\<close>

lemma attempt_spends:
  assumes "try_invoke env be spec inp start mg = Some (r, cf, mg')"
  shows "if cf \<and> \<not> ir_cold_start r then spends 2 1 0 (mworld mg) (mworld mg')
    else spends 6 (kReadinessAttempts + 1) kReadinessAttempts (mworld mg) (mworld mg')"
proof -
  obtain x mg1 where co: "checkout env be spec mg = Some (x, mg1)" using assms by (auto simp: try_invoke_def split: option.splits)
  note out = checkout_spends [OF co refl]
  show ?thesis
  proof (cases x)
    case (Inl err)
    then have w': "mworld mg' = snd (steady_now env (mworld mg1))" "\<not> cf"
      using assms co by (auto simp: try_invoke_def case_prod_beta Let_def)
    have "spends 6 kReadinessAttempts kReadinessAttempts (mworld mg) (mworld mg1)" using out Inl by simp
    from spends_trans [OF this spends_clock, of 6 "kReadinessAttempts + 1" kReadinessAttempts env] w' show ?thesis by simp
  next
    case (Inr y)
    obtain cold port cid where y: "y = (cold, port, cid)" by (cases y)
    then obtain resp w2 where call: "call_runtime env spec inp port (mworld mg1) = Some (resp, w2)"
      using assms co Inr by (auto simp: try_invoke_def split: option.splits)
    let ?w3 = "snd (steady_now env w2)"
    obtain res mg2 where se: "settle env be spec cid resp (mg1\<lparr>mworld := ?w3\<rparr>) = (res, mg2)" by fastforce
    have mg': "mg' = mg2" "ir_cold_start r = cold"
      using assms co Inr y call se by (auto simp: try_invoke_def case_prod_beta Let_def)
    have one: "spends 0 1 0 (mworld mg1) w2" using call by (auto simp: call_runtime_def client_post_def dest: spends_request)
    have called: "spends 0 1 0 (mworld mg1) ?w3" by (rule spends_trans [OF one spends_clock]) simp_all
    have "spends 2 0 0 ?w3 (mworld mg2)" using settle_spends [OF se] by simp
    from spends_trans [OF called this, of 2 1 0] have rest: "spends 2 1 0 (mworld mg1) (mworld mg2)" by simp
    have "spends (if cold then 4 else 0) (if cold then kReadinessAttempts else 0) (if cold then kReadinessAttempts else 0)
        (mworld mg) (mworld mg1)" using out Inr y by simp
    from spends_trans [OF this rest, of "if cold then 6 else 2" "if cold then kReadinessAttempts + 1 else 1" "if cold then kReadinessAttempts else 0"]
    show ?thesis using mg' by (auto intro: spends_mono)
  qed
qed

lemma invoke_spends:
  assumes "invoke env be spec inp mg = Some (r, mg')"
  shows "spends 8 (kReadinessAttempts + 2) kReadinessAttempts (mworld mg) (mworld mg')"
proof -
  let ?mg0 = "mg\<lparr>mworld := snd (steady_now env (mworld mg))\<rparr>" and ?start = "e_now env (hist (mworld mg))"
  obtain r1 cf mg1 where t1: "try_invoke env be spec inp ?start ?mg0 = Some (r1, cf, mg1)"
    using assms by (auto simp: invoke_def case_prod_beta split: option.splits)
  have clock: "spends 0 0 0 (mworld mg) (mworld ?mg0)" using spends_clock by simp
  note first = attempt_spends [OF t1]
  show ?thesis
  proof (cases "cf \<and> \<not> ir_cold_start r1")
    case True
    then obtain r2 cf2 mg2 where t2: "try_invoke env be spec inp ?start mg1 = Some (r2, cf2, mg2)" "mworld mg' = mworld mg2"
      using assms t1 by (auto simp: invoke_def finish_invoke_def case_prod_beta split: option.splits)
    have "spends 6 (kReadinessAttempts + 1) kReadinessAttempts (mworld mg1) (mworld mg2)"
      using attempt_spends [OF t2(1)] by (auto simp: kReadinessAttempts_def intro: spends_mono split: if_splits)
    from spends_trans [OF spends_trans [OF clock first [unfolded if_P [OF True]] order_refl order_refl order_refl] this]
    show ?thesis using t2(2) by simp
  next
    case False
    then have "mworld mg' = mworld mg1" using assms t1 by (auto simp: invoke_def finish_invoke_def case_prod_beta)
    with spends_trans [OF clock first [unfolded if_not_P [OF False]]] show ?thesis by simp
  qed
qed

end

section \<open>The two backends\<close>

lemma docker_spends:
  "spends (if rr_ok (fst (docker_run_container env img p w)) then 3 else 4) 0 0 w (snd (docker_run_container env img p w))"
  "spends 1 0 0 w (snd (docker_get_host_port env i p w))" "spends 2 0 0 w (snd (docker_remove_container env i w))"
  by (auto simp: docker_run_container_def docker_get_host_port_def docker_remove_container_def case_prod_beta Let_def
      spends_def extends_def new_effects_def how_many_def split: option.splits sum.splits)

lemma k8s_spends:
  "spends (if rr_ok (fst (k8s_run_container env img p w)) then 3 else 4) 0 0 w (snd (k8s_run_container env img p w))"
  "spends 1 0 0 w (snd (k8s_get_host_port env i p w))" "spends 2 0 0 w (snd (k8s_remove_container env i w))"
  by (auto simp: k8s_defs case_prod_beta Let_def spends_def extends_def new_effects_def how_many_def split: option.splits sum.splits)

interpretation frugal: frugal_backend "make_runtime_backend kind env" "rm_command kind" for kind env
proof
  fix img p w i
  show "spends (if rr_ok (fst (run_container (make_runtime_backend kind env) img p w)) then 3 else 4) 0 0 w
      (snd (run_container (make_runtime_backend kind env) img p w))"
    "spends 1 0 0 w (snd (get_host_port (make_runtime_backend kind env) i p w))"
    "spends 2 0 0 w (snd (remove_container (make_runtime_backend kind env) i w))"
    by (cases "is_kubernetes kind"; simp only: make_runtime_backend_def docker_backend_def kubernetes_backend_def if_True if_False
        backend.select_convs docker_spends k8s_spends)+
qed

end
