(* ===== verification/Runtime_Properties.thy ===== *)
theory Runtime_Properties
  imports Demo_Env Runtime_Ownership Runtime_Work
begin

text \<open>
  The properties of the runtime manager, on the backend \<^verbatim>\<open>make_runtime_backend\<close> chooses: first
  under concurrency, then of one invocation, then of the reaper.
\<close>

section \<open>Runs of the example\<close>

abbreviation (input) sys0 :: system where "sys0 \<equiv> init_system init_world"

definition sys1 :: system where
  "sys1 = sys0\<lparr>mgr := (mgr sys0)\<lparr>mworld := snd (steady_now demo_env init_world)\<rparr>,
     threads := (threads sys0)(0 \<mapsto> \<lparr>th_spec = demo_spec, th_input = ''x'', th_start = 0, th_phase = Waiting False\<rparr>)\<rparr>"

definition sys2 :: system where
  "sys2 = sys1\<lparr>mgr := snd (the (checkout demo_env demo_be demo_spec (mgr sys1))),
     threads := [0 \<mapsto> \<lparr>th_spec = demo_spec, th_input = ''x'', th_start = 0, th_phase = Calling False True 32768 ''abc123''\<rparr>]\<rparr>"

lemma sys1_checkout:
  "map_option fst (checkout demo_env demo_be demo_spec (mgr sys1)) = Some (Inr (True, 32768, ''abc123''))"
  by code_simp

lemma sys1_step: "mstep demo_env demo_be sys0 sys1"
  unfolding sys1_def
  by (rule arrive) (simp_all add: init_system_def init_manager_def steady_now_def demo_env_def init_world_def)

lemma sys2_step: "mstep demo_env demo_be sys1 sys2"
proof -
  have "checkout demo_env demo_be demo_spec (mgr sys1) = Some (Inr (True, 32768, ''abc123''), mgr sys2)"
    using sys1_checkout by (auto simp: sys2_def)
  then have "mstep demo_env demo_be sys1 (sys1\<lparr>mgr := mgr sys2, threads := (threads sys1)(0 \<mapsto>
      \<lparr>th_spec = demo_spec, th_input = ''x'', th_start = 0, th_phase = Calling False True 32768 ''abc123''\<rparr>)\<rparr>)"
    using checked_out [of sys1 0 _ False demo_env demo_be True 32768 "''abc123''" "mgr sys2"]
    by (simp add: sys1_def)
  moreover have "sys1\<lparr>mgr := mgr sys2, threads := (threads sys1)(0 \<mapsto>
      \<lparr>th_spec = demo_spec, th_input = ''x'', th_start = 0, th_phase = Calling False True 32768 ''abc123''\<rparr>)\<rparr> = sys2"
    by (simp add: sys2_def sys1_def init_system_def)
  ultimately show ?thesis by simp
qed

lemma sys2_reachable: "reachable demo_env demo_be init_world sys2"
  using reach_init sys1_step sys2_step by (blast intro: reach_step)

lemma sys2_tracked: "om_find (runtimes (mgr sys2)) ''hello'' = Some (demo_runtime\<lparr>rt_state := BUSY, last_used_at := 5000000\<rparr>)"
  by code_simp

text \<open>A second invocation of the same function, on the same runtime.\<close>

definition sys3 :: system where
  "sys3 = sys2\<lparr>mgr := (mgr sys2)\<lparr>mworld := snd (steady_now demo_env (mworld (mgr sys2)))\<rparr>,
     threads := (threads sys2)(1 \<mapsto> \<lparr>th_spec = demo_spec, th_input = ''y'', th_start = e_now demo_env (hist (mworld (mgr sys2))),
       th_phase = Waiting False\<rparr>)\<rparr>"

definition sys4 :: system where
  "sys4 = sys3\<lparr>mgr := snd (the (checkout demo_env demo_be demo_spec (mgr sys3))),
     threads := (threads sys3)(1 \<mapsto> (the (threads sys3 1))\<lparr>th_phase := Calling False False 32768 ''abc123''\<rparr>)\<rparr>"

text \<open>The first call is answered while the second is still in flight; then the reaper runs.\<close>

definition sys5 :: system where
  "sys5 = sys4\<lparr>mgr := snd (settle demo_env demo_be demo_spec ''abc123'' demo_answer
         ((mgr sys4)\<lparr>mworld := snd (steady_now demo_env (mworld (mgr sys4)))\<rparr>)),
     threads := (threads sys4)(0 \<mapsto> (the (threads sys4 0))\<lparr>th_phase :=
       Recording \<lparr>ir_status = ''success'', ir_output = ''hi'', ir_duration_ms = ms_of_ns (e_now demo_env (hist (mworld (mgr sys4)))),
         ir_cold_start = True\<rparr>\<rparr>)\<rparr>"

definition sys6 :: system where
  "sys6 = sys5\<lparr>mgr := reap_round demo_env demo_be (mgr sys5)\<rparr>"

lemma sys2_now: "e_now demo_env (hist (mworld (mgr sys2))) = 6000000"
  by code_simp

lemma sys3_find: "om_find (runtimes (mgr sys3)) (fs_name demo_spec) = Some (demo_runtime\<lparr>rt_state := BUSY, last_used_at := 5000000\<rparr>)"
  using sys2_tracked by (simp add: sys3_def demo_spec_def)

lemma sys3_checkout: "checkout demo_env demo_be demo_spec (mgr sys3) =
    Some (mark_busy demo_env (fs_name demo_spec) False (demo_runtime\<lparr>rt_state := BUSY, last_used_at := 5000000\<rparr>) (mgr sys3))"
  by (simp add: checkout_def sys3_find)

lemma sys4_find: "om_find (runtimes (mgr sys4)) (fs_name demo_spec) = Some (demo_runtime\<lparr>rt_state := BUSY, last_used_at := 7000000\<rparr>)"
  by (simp add: sys4_def sys3_checkout mark_busy_def case_prod_beta Let_def om_find_put)
    (simp add: sys3_def demo_now_append sys2_now tick_def)

lemma sys4_ok: "om_ok (runtimes (mgr sys4))"
proof -
  have "om_ok (runtimes (mgr sys2))"
    using chosen.reachable_mgr_ok [OF sys2_reachable] by (simp add: mgr_ok_def)
  then show ?thesis
    by (simp add: sys4_def sys3_checkout mark_busy_def case_prod_beta Let_def) (simp add: sys3_def om_ok_put)
qed

lemma sys4_now: "e_now demo_env (hist (mworld (mgr sys4))) = 8000000"
  by (simp add: sys4_def sys3_checkout mark_busy_def case_prod_beta Let_def)
    (simp add: sys3_def demo_now_append sys2_now tick_def)

lemma sys5_mgr: "mgr sys5 = mark_idle demo_env (fs_name demo_spec)
    ((mgr sys4)\<lparr>mworld := snd (steady_now demo_env (mworld (mgr sys4)))\<rparr>)"
  using sys4_find by (simp add: sys5_def settle_def demo_answer_def default_response_def still_tracked_def demo_runtime_def)

lemma sys5_find: "om_find (runtimes (mgr sys5)) (fs_name demo_spec) = Some (demo_runtime\<lparr>last_used_at := 9000000\<rparr>)"
  using sys4_find sys4_now
  by (simp add: sys5_mgr mark_idle_def case_prod_beta Let_def om_find_put demo_now_append tick_def demo_runtime_def)

lemma sys5_now: "e_now demo_env (hist (mworld (mgr sys5))) = 10000000"
  using sys4_find sys4_now
  by (simp add: sys5_mgr mark_idle_def case_prod_beta Let_def demo_now_append tick_def)

lemma sys5_ok: "om_ok (runtimes (mgr sys5))"
  using sys4_find sys4_ok by (simp add: sys5_mgr mark_idle_def case_prod_beta Let_def om_ok_put)

lemma sys6_find: "om_find (runtimes (mgr sys6)) (fs_name demo_spec) = Some (demo_runtime\<lparr>last_used_at := 9000000\<rparr>)"
  using sys5_find sys5_now sys5_ok
  by (simp add: sys6_def chosen.reap_round_find demo_now_append tick_def expired_def demo_runtime_def ms_of_ns_def
      kReaperIntervalMs_def)

lemma sys4_reachable: "reachable demo_env demo_be init_world sys4"
proof -
  have s3: "mstep demo_env demo_be sys2 sys3"
    unfolding sys3_def by (rule arrive) (simp_all add: sys2_def steady_now_def)
  have "checkout demo_env demo_be demo_spec (mgr sys3) = Some (Inr (False, 32768, ''abc123''), mgr sys4)"
    by (simp add: sys4_def sys3_checkout mark_busy_def case_prod_beta Let_def demo_runtime_def)
  then have "mstep demo_env demo_be sys3 sys4"
    using checked_out [of sys3 1 "the (threads sys3 1)" False demo_env demo_be False 32768 "''abc123''" "mgr sys4"]
    by (simp add: sys4_def) (simp add: sys3_def)
  with s3 sys2_reachable show ?thesis by (blast intro: reach_step)
qed

lemma sys6_reachable: "reachable demo_env demo_be init_world sys6"
proof -
  have st: "settle demo_env demo_be demo_spec ''abc123'' demo_answer
      ((mgr sys4)\<lparr>mworld := snd (steady_now demo_env (mworld (mgr sys4)))\<rparr>) = ((''success'', ''hi'', False), mgr sys5)"
    by (simp add: sys5_def settle_def demo_answer_def default_response_def)
  have "mstep demo_env demo_be sys4 sys5"
    using answered [of sys4 0 "the (threads sys4 0)" False True 32768 "''abc123''" demo_answer demo_env "[]" _ _ demo_be, OF _ _ _ _]
      st
    by (force simp: sys5_def sys4_def sys3_def sys2_def elapsed_ms_def steady_now_def after_settle_def
        outcome_ok_def demo_answer_def default_response_def)
  then have "reachable demo_env demo_be init_world sys5" using sys4_reachable by (rule reach_step [rotated])
  then show ?thesis unfolding sys6_def by (rule reach_step) (rule reaped)
qed

lemma sys7_untracked: "om_find (runtimes (reap_round demo_env demo_be (mgr sys6))) (fs_name demo_spec) = None"
proof -
  have ok: "om_ok (runtimes (mgr sys6))"
    using chosen.reachable_mgr_ok [OF sys6_reachable] by (simp add: mgr_ok_def)
  have "extends (sleep_ms kReaperIntervalMs (mworld (mgr sys5))) (mworld (mgr sys6))"
    by (simp add: sys6_def reap_round_def reap_locked_def case_prod_beta Let_def)
      (blast intro: extends_trans [OF extends_now chosen.reap_entries_extends])
  from steady_mono [OF demo_steady this]
  have "510000000 \<le> e_now demo_env (hist (mworld (mgr sys6)))"
    using sys5_now by (simp add: demo_now_append tick_def kReaperIntervalMs_def)
  then have "expired (e_now demo_env (hist (mworld (mgr sys6)) @ [SleepMs kReaperIntervalMs]))
      (demo_runtime\<lparr>last_used_at := 9000000\<rparr>)"
    by (simp add: expired_def demo_now_append tick_def kReaperIntervalMs_def demo_runtime_def ms_of_ns_def zdiv_mono1)
  then show ?thesis using ok sys6_find by (simp add: chosen.reap_round_find)
qed

section \<open>Concurrency\<close>

text \<open>
  C1: In every state that any interleaving of invocations, reaper rounds, deletions and
  queries can reach, with either backend, every tracked runtime is BUSY or IDLE (never
  STARTING, READY, FAILED or TERMINATED), has a port between 1 and \<open>2 ^ 31 - 1\<close> and a
  shell-safe container id, and the counters balance: runtimes created are those terminated
  (over all reasons) plus those tracked, which is the \<^verbatim>\<open>faas_active_runtimes\<close> gauge.
\<close>
theorem reachable_invariant:
  assumes "reachable env (make_runtime_backend kind env) w s"
  shows "(\<forall>k rt. om_find (runtimes (mgr s)) k = Some rt \<longrightarrow>
      (rt_state rt = BUSY \<or> rt_state rt = IDLE) \<and> 0 < host_port rt \<and> host_port rt < 2 ^ 31
      \<and> is_safe_token (container_id rt))
    \<and> runtimes_created (mmetrics (mgr s)) =
        om_total (runtimes_terminated (mmetrics (mgr s))) + int (length (fst (list_runtimes env (mgr s))))"
proof -
  have "mgr_ok (mgr s)" using assms by (rule chosen.reachable_mgr_ok)
  then show ?thesis
    by (simp add: mgr_ok_def balanced_def tracked_ok_def list_runtimes_def case_prod_beta)
qed

theorem reachable_invariant_witness:
  "reachable demo_env (make_runtime_backend None demo_env) init_world sys2
    \<and> om_find (runtimes (mgr sys2)) ''hello'' = Some (demo_runtime\<lparr>rt_state := BUSY, last_used_at := 5000000\<rparr>)
    \<and> 0 < host_port (demo_runtime\<lparr>rt_state := BUSY, last_used_at := 5000000\<rparr>)"
  using reachable_invariant [OF sys2_reachable] sys2_reachable sys2_tracked by blast

text \<open>
  C2: No container is forgotten: whatever the threads do between two states, with either
  backend, a container that was tracked and is no longer tracked for its function has had
  the backend's removal command issued on it.
\<close>
theorem no_container_forgotten:
  assumes "reachable env (make_runtime_backend kind env) w s" "runs env (make_runtime_backend kind env) s s'"
    and "om_find (runtimes (mgr s)) k = Some rt"
  shows "still_tracked k (container_id rt) (mgr s')
    \<or> Shell (rm_command kind (container_id rt)) \<in> set (new_effects (mworld (mgr s)) (mworld (mgr s')))"
proof -
  have "mgr_ok (mgr s)" using assms(1) by (rule chosen.reachable_mgr_ok)
  with assms(2) have "kept (rm_command kind) (mgr s) (mgr s')" by (rule chosen.runs_kept)
  with assms(3) show ?thesis by (auto simp: kept_def no_orphans_def)
qed

theorem no_container_forgotten_witness:
  "Shell (rm_command None ''abc123'') \<in> set (new_effects (mworld (mgr sys6)) (mworld (reap_round demo_env (make_runtime_backend None demo_env) (mgr sys6))))"
proof -
  let ?s = "sys6\<lparr>mgr := reap_round demo_env demo_be (mgr sys6)\<rparr>"
  have run: "runs demo_env demo_be sys6 ?s"
    using runs_refl by (rule runs_step) (rule reaped)
  show ?thesis
    using no_container_forgotten [OF sys6_reachable run sys6_find] sys7_untracked
    by (simp add: still_tracked_def demo_runtime_def demo_spec_def)
qed

text \<open>
  In every reachable state the invocation metrics are exactly those of the invocations
  that have finished, in whatever order their threads recorded them: a counter per status
  and cold flag, and a duration histogram per cold flag.
\<close>
theorem metrics_reflect_finished:
  assumes "reachable env be w s"
  shows "reflects (map event_of (finished s)) (mmetrics (mgr s))"
  using assms by (rule reachable_reflects)

theorem metrics_reflect_finished_witness:
  "reachable demo_env (make_runtime_backend None demo_env) init_world sys2
    \<and> reflects (map event_of (finished sys2)) (mmetrics (mgr sys2))"
  using metrics_reflect_finished [OF sys2_reachable] sys2_reachable by simp

text \<open>
  C36: A runtime can be reaped under a running call. Two invocations of one function share
  its runtime; when the first is answered the runtime is marked IDLE although the second
  is still in flight, and once the idle timeout has passed the reaper removes the container
  that is serving it.
\<close>
theorem reaper_removes_serving_container:
  "\<exists>s s' th. reachable demo_env (make_runtime_backend None demo_env) init_world s
     \<and> threads s 1 = Some th \<and> th_phase th = Calling False False 32768 ''abc123''
     \<and> still_tracked (fs_name (th_spec th)) ''abc123'' (mgr s)
     \<and> mstep demo_env (make_runtime_backend None demo_env) s s' \<and> threads s' 1 = Some th
     \<and> \<not> still_tracked (fs_name (th_spec th)) ''abc123'' (mgr s')
     \<and> Shell (rm_command None ''abc123'') \<in> set (new_effects (mworld (mgr s)) (mworld (mgr s')))"
proof (intro exI conjI)
  let ?s = "sys6\<lparr>mgr := reap_round demo_env demo_be (mgr sys6)\<rparr>"
  let ?th = "the (threads sys6 1)"
  show "reachable demo_env demo_be init_world sys6" by (rule sys6_reachable)
  show th: "threads sys6 1 = Some ?th" "th_phase ?th = Calling False False 32768 ''abc123''"
    by (simp_all add: sys6_def sys5_def sys4_def)
  have nm: "fs_name (th_spec ?th) = fs_name demo_spec" by (simp add: sys6_def sys5_def sys4_def sys3_def)
  show "still_tracked (fs_name (th_spec ?th)) ''abc123'' (mgr sys6)"
    unfolding nm using sys6_find by (simp add: still_tracked_def demo_runtime_def)
  show "mstep demo_env demo_be sys6 ?s" by (rule reaped)
  show "threads ?s 1 = Some ?th" using th by simp
  show "\<not> still_tracked (fs_name (th_spec ?th)) ''abc123'' (mgr ?s)"
    unfolding nm using sys7_untracked by (simp add: still_tracked_def)
  have "kept (rm_command None) (mgr sys6) (reap_round demo_env demo_be (mgr sys6))"
    using chosen.kept_reap_round chosen.reachable_mgr_ok sys6_reachable by blast
  with sys6_find sys7_untracked show "Shell (rm_command None ''abc123'') \<in> set (new_effects (mworld (mgr sys6)) (mworld (mgr ?s)))"
    using kept_untracked by (fastforce simp: demo_runtime_def)
qed

text \<open>
  C27: As long as no two calls to the same function overlap, the runtime of a call in flight
  is safe from the reaper: if its function is tracked at all, the runtime is BUSY on the
  container the call was sent to, and a reaper round leaves it where it is.
\<close>
theorem single_call_not_reaped:
  assumes "single_reachable env (make_runtime_backend kind env) w s"
    and "threads s t = Some th" "th_phase th = Calling second cold port cid"
    and "om_find (runtimes (mgr s)) (fs_name (th_spec th)) = Some rt"
  shows "rt_state rt = BUSY \<and> container_id rt = cid
    \<and> om_find (runtimes (reap_round env (make_runtime_backend kind env) (mgr s))) (fs_name (th_spec th)) = Some rt"
proof -
  have "calls_busy s" using assms(1) by (rule chosen.single_calls_busy)
  with assms(2,3) have busy: "busy_for (mgr s) (fs_name (th_spec th)) cid"
    unfolding calls_busy_def by blast
  have "om_ok (runtimes (mgr s))"
    using chosen.reachable_mgr_ok [OF single_reachable_reachable [OF assms(1)]] by (simp add: mgr_ok_def)
  from chosen.busy_for_reap [OF this busy] busy assms(4) show ?thesis by (simp add: busy_for_def)
qed

theorem single_call_not_reaped_witness:
  "om_find (runtimes (reap_round demo_env (make_runtime_backend None demo_env) (mgr sys2))) ''hello''
     = Some (demo_runtime\<lparr>rt_state := BUSY, last_used_at := 5000000\<rparr>)"
proof -
  have "one_call sys1" "one_call sys2"
    by (auto simp: one_call_def sys1_def sys2_def init_system_def split: if_splits)
  then have s: "single_reachable demo_env demo_be init_world sys2"
    using sys1_step sys2_step by (blast intro: single_init single_step)
  have "threads sys2 0 = Some (the (threads sys2 0))"
    "th_phase (the (threads sys2 0)) = Calling False True 32768 ''abc123''"
    "fs_name (th_spec (the (threads sys2 0))) = ''hello''"
    by (simp_all add: sys2_def demo_spec_def)
  with single_call_not_reaped [OF s] sys2_tracked show ?thesis by metis
qed

text \<open>
  C4: Under every interleaving of requests, database statements and the reaper, the control plane
  issues its removal command only on containers it created itself since it was started: before
  each \<^verbatim>\<open>docker rm\<close> or \<^verbatim>\<open>kubectl delete pod\<close> there is, after the start of the process, the
  \<^verbatim>\<open>docker run\<close> whose first line of output is that id, or the \<^verbatim>\<open>kubectl run\<close> of that name. So it
  never destroys a container of somebody else, and never cleans up one of an earlier process.
\<close>
theorem only_own_containers_removed:
  assumes "reachable env (make_runtime_backend kind env) w s"
    and "hist (mworld (mgr s)) = h @ [Shell (rm_command kind i)] @ later" "length (hist w) \<le> length h"
  shows "made_here kind env (hist w) h i"
proof -
  have "owned.clean kind env (hist w) (mworld (mgr s))"
    using owned.reachable_owns [OF assms(1)] by (simp add: owned.owns_def)
  then have c: "prefix (hist w) (h @ [Shell (rm_command kind i)] @ later)"
    "justified (made_here kind env (hist w)) (rm_command kind) (hist w) (drop (length (hist w)) (h @ [Shell (rm_command kind i)] @ later))"
    unfolding owned.clean_def assms(2) by simp_all
  have "prefix (hist w) h" using prefix_length_prefix [OF c(1) _ assms(3)] by simp
  then obtain pre where pre: "h = hist w @ pre" by (auto simp: prefix_def)
  then have "prefix (pre @ [Shell (rm_command kind i)]) (drop (length (hist w)) (h @ [Shell (rm_command kind i)] @ later))" by simp
  with c(2) pre show ?thesis unfolding justified_def by blast
qed

theorem only_own_containers_removed_witness:
  "\<exists>s h later. reachable demo_env (make_runtime_backend None demo_env) init_world s
    \<and> hist (mworld (mgr s)) = h @ [Shell (rm_command None ''abc123'')] @ later \<and> made_here None demo_env [] h ''abc123''"
proof -
  let ?s = "sys6\<lparr>mgr := reap_round demo_env demo_be (mgr sys6)\<rparr>"
  have r: "reachable demo_env demo_be init_world ?s" using reach_step [OF sys6_reachable reaped] .
  have "kept (rm_command None) (mgr sys6) (mgr ?s)"
    using chosen.kept_reap_round chosen.reachable_mgr_ok sys6_reachable by simp
  with sys6_find sys7_untracked have "Shell (rm_command None ''abc123'') \<in> set (hist (mworld (mgr ?s)))"
    using kept_untracked new_effects_hist by (fastforce simp: demo_runtime_def)
  then obtain h later where h: "hist (mworld (mgr ?s)) = h @ [Shell (rm_command None ''abc123'')] @ later"
    by (metis append_Cons append_Nil split_list)
  have "made_here None demo_env (hist init_world) h ''abc123''"
    by (rule only_own_containers_removed [OF r h]) (simp add: init_world_def)
  then have "made_here None demo_env [] h ''abc123''" by (simp add: init_world_def)
  with r h show ?thesis by blast
qed

section \<open>One invocation\<close>

text \<open>
  C9: The outcome of an invocation, whatever the environment does: its status is one of
  success, error, timeout and infra\_error; afterwards the function has an IDLE runtime
  exactly when the function answered (success or error) and none after a timeout or an
  infrastructure error; no other function's runtime is touched; and a runtime was created
  exactly when the invocation reports a cold start.
\<close>
theorem invoke_outcome:
  assumes "invoke env be spec inp mg = Some (r, mg')"
  shows "ir_status r \<in> {''success'', ''error'', ''timeout'', ''infra_error''}
    \<and> (case om_find (runtimes mg') (fs_name spec) of
         None \<Rightarrow> ir_status r = ''timeout'' \<or> ir_status r = ''infra_error''
       | Some rt \<Rightarrow> (ir_status r = ''success'' \<or> ir_status r = ''error'') \<and> rt_state rt = IDLE)
    \<and> (\<forall>k. k \<noteq> fs_name spec \<longrightarrow> om_find (runtimes mg') k = om_find (runtimes mg) k)
    \<and> runtimes_created (mmetrics mg') = runtimes_created (mmetrics mg) + (if ir_cold_start r then 1 else 0)"
  using invoke_post [OF assms] unfolding invocation_post_def .

theorem invoke_outcome_witness:
  "\<exists>r mg'. invoke demo_env (make_runtime_backend None demo_env) demo_spec ''x'' demo_warm = Some (r, mg')
     \<and> ir_status r \<in> {''success'', ''error'', ''timeout'', ''infra_error''}"
proof -
  obtain r mg' where "invoke demo_env demo_be demo_spec ''x'' demo_warm = Some (r, mg')"
    using chosen.invoke_returns [OF demo_finite demo_timeout] by blast
  with invoke_outcome [OF this] show ?thesis by blast
qed

text \<open>
  C18: A warm invocation that is answered costs exactly one HTTP exchange: two clock
  readings, one connection to the runtime's port with the function's timeout as socket
  timeout, one POST of the input, two clock readings; no shell command and no health check.
  It reports the answer's body and class and the time between the first and the third
  reading, is not a cold start, and leaves the same container IDLE with the clock's last
  reading.
\<close>
theorem warm_invocation:
  assumes "om_find (runtimes mg) (fs_name spec) = Some rt"
    and "call_runtime env spec inp (host_port rt) (snd (steady_now env (snd (steady_now env (mworld mg))))) = Some (resp, w2)"
    and "cr_ok resp" "\<not> cr_timed_out resp"
  shows "\<exists>r mg'. invoke env be spec inp mg = Some (r, mg')
    \<and> ir_status r = (if 200 \<le> cr_status resp \<and> cr_status resp < 300 then ''success'' else ''error'')
    \<and> ir_output r = cr_body resp \<and> \<not> ir_cold_start r
    \<and> ir_duration_ms r = ms_of_ns (e_now env (hist w2) - e_now env (hist (mworld mg)))
    \<and> om_find (runtimes mg') (fs_name spec) =
        Some (rt\<lparr>rt_state := IDLE, last_used_at := e_now env (hist w2 @ [ClockRead])\<rparr>)
    \<and> hist (mworld mg') = hist (mworld mg) @
        [ClockRead, ClockRead,
         Connect ''127.0.0.1'' (host_port rt mod 65536) (timeval_of (sint (fs_timeout_ms spec))),
         Send (request_bytes ''127.0.0.1'' ''POST'' ''/invoke'' inp ''application/json''),
         ClockRead, ClockRead]"
  using assms by (rule invoke_warm)

theorem warm_invocation_witness:
  "\<exists>r mg'. invoke demo_env (make_runtime_backend None demo_env) demo_spec ''x'' demo_warm = Some (r, mg')
    \<and> ir_status r = ''success'' \<and> ir_output r = ''hi'' \<and> \<not> ir_cold_start r"
proof -
  obtain w2 where call: "call_runtime demo_env demo_spec ''x'' (host_port demo_runtime)
      (snd (steady_now demo_env (snd (steady_now demo_env (mworld demo_warm))))) =
      Some (demo_answer\<lparr>cr_headers := [(''Content-Type'', ''text/plain'')]\<rparr>, w2)"
    using demo_warm_call by auto
  show ?thesis
    using warm_invocation [OF demo_warm_find call, of demo_be]
    by (auto simp: demo_answer_def default_response_def)
qed

text \<open>
  C19: A warm runtime that turns out to be dead is replaced within the same invocation: its
  container is removed, it is counted as terminated with reason \<^verbatim>\<open>dead\<close>, and the input is
  sent once more, to a container started for this invocation (the result is a cold start),
  unless that start fails, whose error is then the result. There is no third attempt.
\<close>
theorem dead_runtime_retried:
  assumes "mgr_ok mg" "om_find (runtimes mg) (fs_name spec) = Some rt"
    and "call_runtime env spec inp (host_port rt) (snd (steady_now env (snd (steady_now env (mworld mg))))) = Some (resp, w2)"
    and "\<not> cr_ok resp" "\<not> cr_timed_out resp"
    and "invoke env (make_runtime_backend kind env) spec inp mg = Some (r, mg')"
  shows "Shell (rm_command kind (container_id rt)) \<in> set (new_effects (mworld mg) (mworld mg'))
    \<and> (\<exists>mg1 cf mg2. om_find (runtimes mg1) (fs_name spec) = None
        \<and> runtimes_terminated (mmetrics mg1) = om_incr ''dead'' (runtimes_terminated (mmetrics mg))
        \<and> try_invoke env (make_runtime_backend kind env) spec inp (e_now env (hist (mworld mg))) mg1 = Some (r, cf, mg2)
        \<and> mg' = finish_invoke r mg2
        \<and> (ir_cold_start r \<or> ir_status r = ''infra_error''
            \<and> (\<exists>w'. start_runtime env (make_runtime_backend kind env) spec (mworld mg1) = Some (Inl (ir_output r), w'))))"
proof -
  let ?be = "make_runtime_backend kind env"
  let ?mg0 = "mg\<lparr>mworld := snd (steady_now env (mworld mg))\<rparr>"
  let ?start = "e_now env (hist (mworld mg))"
  obtain r1 mg1 where t1: "try_invoke env ?be spec inp ?start ?mg0 = Some (r1, True, mg1)"
    and r1: "\<not> ir_cold_start r1"
    and mg1: "runtimes_terminated (mmetrics mg1) = om_incr ''dead'' (runtimes_terminated (mmetrics mg))"
    using try_invoke_warm [of ?mg0 spec rt env inp resp w2 ?be] assms(2-5) by simp
  from t1 r1 assms(6) obtain cf mg2 where t2: "try_invoke env ?be spec inp ?start mg1 = Some (r, cf, mg2)"
    and mg': "mg' = finish_invoke r mg2"
    by (auto simp: invoke_def case_prod_beta split: option.splits)
  have none: "om_find (runtimes mg1) (fs_name spec) = None" using t1 by (rule try_invoke_failed_untracked)
  have k1: "kept (rm_command kind) ?mg0 mg1" using chosen.kept_try_invoke [OF _ t1] assms(1) by simp
  then have "kept (rm_command kind) mg1 mg2" using chosen.kept_try_invoke [OF _ t2] by (simp add: kept_def)
  then have ext: "extends (mworld mg1) (mworld mg')" by (simp add: kept_def mg')
  have k: "kept (rm_command kind) mg mg1"
    using kept_trans [OF _ k1] assms(1) by (simp add: kept_world)
  then have "extends (mworld mg) (mworld mg1)" by (simp add: kept_def)
  with kept_untracked [OF k assms(2) none]
  have "Shell (rm_command kind (container_id rt)) \<in> set (new_effects (mworld mg) (mworld mg'))"
    using ext by (blast intro: new_effects_left)
  with none mg1 t2 mg' try_invoke_untracked [OF none t2] show ?thesis by blast
qed

theorem dead_runtime_retried_witness:
  "\<exists>r mg'. invoke dead_env (make_runtime_backend None dead_env) demo_spec ''x'' demo_warm = Some (r, mg')
    \<and> Shell (rm_command None ''abc123'') \<in> set (new_effects (mworld demo_warm) (mworld mg'))"
proof -
  obtain r mg' where inv: "invoke dead_env (make_runtime_backend None dead_env) demo_spec ''x'' demo_warm = Some (r, mg')"
    using chosen.invoke_returns [OF dead_finite demo_timeout] by blast
  obtain resp w2 where call: "call_runtime dead_env demo_spec ''x'' (host_port demo_runtime)
      (snd (steady_now dead_env (snd (steady_now dead_env (mworld demo_warm))))) = Some (resp, w2)"
    "\<not> cr_ok resp" "\<not> cr_timed_out resp"
    using dead_call by auto
  show ?thesis
    using dead_runtime_retried [OF demo_warm_ok demo_warm_find call inv] inv by (auto simp: demo_runtime_def)
qed

text \<open>
  C20: A call that times out ends the invocation with status timeout: the container is
  removed, the function is no longer tracked, the termination is counted with reason
  \<^verbatim>\<open>timeout\<close>, and nothing is retried (the removal is the last thing the manager does).
\<close>
theorem timeout_tears_down:
  assumes "mgr_ok mg"
    and "checkout env (make_runtime_backend kind env) spec (mg\<lparr>mworld := snd (steady_now env (mworld mg))\<rparr>)
      = Some (Inr (cold, port, cid), mg1)"
    and "call_runtime env spec inp port (mworld mg1) = Some (resp, w2)" "cr_timed_out resp"
  shows "\<exists>r mg'. invoke env (make_runtime_backend kind env) spec inp mg = Some (r, mg')
    \<and> ir_status r = ''timeout'' \<and> ir_cold_start r = cold
    \<and> ir_output r = ''function exceeded timeout of '' @ show_int (sint (fs_timeout_ms spec)) @ ''ms''
    \<and> om_find (runtimes mg') (fs_name spec) = None
    \<and> runtimes_terminated (mmetrics mg') = om_incr ''timeout'' (runtimes_terminated (mmetrics mg))
    \<and> mworld mg' = snd (remove_container (make_runtime_backend kind env) cid (snd (steady_now env w2)))
    \<and> Shell (rm_command kind cid) \<in> set (new_effects w2 (mworld mg'))"
proof -
  let ?be = "make_runtime_backend kind env"
  let ?w3 = "snd (steady_now env w2)"
  from assms(2) obtain rt where rt: "om_find (runtimes mg1) (fs_name spec) = Some rt" "container_id rt = cid"
    "runtimes_terminated (mmetrics mg1) = runtimes_terminated (mmetrics mg)"
    by (auto elim!: checkout_InrD)
  have "mgr_ok mg1" using chosen.kept_checkout [OF _ assms(2)] assms(1) by (simp add: kept_def)
  with rt have "is_safe_token cid" by (auto simp: mgr_ok_def tracked_ok_def)
  then have "Shell (rm_command kind cid) \<in> set (new_effects w2 (snd (remove_container ?be cid ?w3)))"
    by (rule chosen.remove_after [OF extends_now])
  moreover have "settle env ?be spec cid resp (mg1\<lparr>mworld := ?w3\<rparr>) =
      ((''timeout'', ''function exceeded timeout of '' @ show_int (sint (fs_timeout_ms spec)) @ ''ms'', False),
       drop_runtime ?be (fs_name spec) cid ''timeout'' (mg1\<lparr>mworld := ?w3\<rparr>))"
    using rt assms(4) by (simp add: settle_def still_tracked_def)
  ultimately show ?thesis
    using assms(2,3) rt by (simp add: invoke_def try_invoke_def case_prod_beta Let_def om_find_erase)
qed

theorem timeout_tears_down_witness:
  "\<exists>r mg'. invoke silent_env (make_runtime_backend None silent_env) demo_spec ''x'' demo_warm = Some (r, mg')
    \<and> ir_status r = ''timeout''"
proof -
  let ?be = "make_runtime_backend None silent_env"
  let ?mg0 = "demo_warm\<lparr>mworld := snd (steady_now silent_env (mworld demo_warm))\<rparr>"
  obtain mg1 where c: "checkout silent_env ?be demo_spec ?mg0 = Some (Inr (False, host_port demo_runtime, ''abc123''), mg1)"
    "mworld mg1 = snd (steady_now silent_env (snd (steady_now silent_env (mworld demo_warm))))"
    using demo_warm_find by (simp add: checkout_def mark_busy_def case_prod_beta Let_def demo_runtime_def)
  obtain resp w2 where "call_runtime silent_env demo_spec ''x'' (host_port demo_runtime) (mworld mg1) = Some (resp, w2)"
    "cr_timed_out resp"
    using silent_call c(2) by auto
  from timeout_tears_down [OF demo_warm_ok c(1) this] show ?thesis by blast
qed

lemma unsafe_id_start:
  assumes "rr_ok (fst (run_container (make_runtime_backend kind env) (fs_image spec) kContainerPort w))"
    and "\<not> is_safe_token (rr_id (fst (run_container (make_runtime_backend kind env) (fs_image spec) kContainerPort w)))"
  shows "start_runtime env (make_runtime_backend kind env) spec w =
    Some (Inl (''failed to determine host port for container ''
           @ rr_id (fst (run_container (make_runtime_backend kind env) (fs_image spec) kContainerPort w))),
          snd (run_container (make_runtime_backend kind env) (fs_image spec) kContainerPort w))"
  using assms
  by (simp add: start_runtime_def Let_def case_prod_beta chosen.port_unsafe chosen.remove_unsafe)

text \<open>
  C34: What a cold start that fails after its container was created (no host port, or not healthy
  within the startup window) does about the container. If the backend reported an id that
  can be handed to the shell, the removal command is issued on it. If not (\<^verbatim>\<open>docker run\<close> printed
  something else first), nothing is run after the command that created the container, and it stays.
\<close>
theorem failed_start_cleans_up:
  assumes "run = run_container (make_runtime_backend kind env) (fs_image spec) kContainerPort w" "rr_ok (fst run)"
    and "start_runtime env (make_runtime_backend kind env) spec w = Some (Inl err, w')"
  shows "if is_safe_token (rr_id (fst run)) then Shell (rm_command kind (rr_id (fst run))) \<in> set (new_effects w w') else w' = snd run"
proof (cases "is_safe_token (rr_id (fst run))")
  case True
  with chosen.start_runtime_failed [OF assms(3)] assms(1,2) show ?thesis by simp
next
  case False
  with unsafe_id_start [of kind env spec w] assms show ?thesis by simp
qed

theorem failed_start_cleans_up_witness:
  "\<exists>err w' err2. start_runtime refusing_env (make_runtime_backend None refusing_env) demo_spec init_world = Some (Inl err, w')
    \<and> Shell (rm_command None (rr_id (fst (run_container (make_runtime_backend None refusing_env)
        (fs_image demo_spec) kContainerPort init_world)))) \<in> set (new_effects init_world w')
    \<and> start_runtime pull_env (make_runtime_backend None pull_env) demo_spec init_world
        = Some (Inl err2, snd (run_container (make_runtime_backend None pull_env) (fs_image demo_spec) kContainerPort init_world))"
proof -
  obtain err w' where st: "start_runtime refusing_env (make_runtime_backend None refusing_env) demo_spec init_world
      = Some (Inl err, w')"
    using refusing_start by blast
  obtain err2 w2 where st2: "start_runtime pull_env (make_runtime_backend None pull_env) demo_spec init_world = Some (Inl err2, w2)"
    using unsafe_id_start [of None pull_env demo_spec init_world] pull_run by auto
  from failed_start_cleans_up [OF refl _ st] failed_start_cleans_up [OF refl _ st2] demo_run pull_run st st2 show ?thesis by auto
qed

text \<open>
  The readiness loop makes at most 50 health checks: it pauses 100 ms after each failed
  one, at most 50 times, and reports a ready runtime exactly when a check succeeded before
  the 50th pause.
\<close>
theorem readiness_bounded:
  assumes "wait_ready env port kReadinessAttempts w = Some (ready, w')"
  shows "pauses w w' \<le> 50 \<and> (ready \<longleftrightarrow> pauses w w' < 50)"
  using wait_ready_pauses [OF assms] by (simp add: kReadinessAttempts_def)

theorem readiness_bounded_witness:
  "\<exists>w'. wait_ready refusing_env 32768 kReadinessAttempts init_world = Some (False, w') \<and> pauses init_world w' = 50"
proof -
  obtain w' where w: "wait_ready refusing_env 32768 kReadinessAttempts init_world = Some (False, w')"
    using refusing_not_ready by blast
  from readiness_bounded [OF w] w show ?thesis by auto
qed

text \<open>
  C23: An invocation is bounded work. With either backend, in every state and whatever the
  outside answers, an invocation that has returned ran at most eight commands, opened at most
  52 connections (50 health checks and two calls) and slept at most 50 times; and it does
  return if the function has a positive timeout and no peer sends bytes for ever, given
  that the commands it runs end, as the environment's answers have it: the readiness loop, the
  single retry and the receive loop add no way to go on for ever.
\<close>
theorem invocation_work_bounded:
  "(\<forall>r mg'. invoke env (make_runtime_backend kind env) spec inp mg = Some (r, mg') \<longrightarrow>
      how_many is_command (new_effects (mworld mg) (mworld mg')) \<le> 8
      \<and> how_many is_connection (new_effects (mworld mg) (mworld mg')) \<le> 52
      \<and> how_many is_sleep (new_effects (mworld mg) (mworld mg')) \<le> 50)
    \<and> ((\<forall>h host port. finite_peer (e_peer env h host port)) \<and> 0 < sint (fs_timeout_ms spec) \<longrightarrow>
      (\<exists>r mg'. invoke env (make_runtime_backend kind env) spec inp mg = Some (r, mg')))"
  using frugal.invoke_spends chosen.invoke_returns by (fastforce simp: spends_def kReadinessAttempts_def)

theorem invocation_work_bounded_witness:
  "\<exists>r mg'. invoke silent_env (make_runtime_backend (Some ''k8s'') silent_env) demo_spec ''x'' demo_warm = Some (r, mg')
    \<and> how_many is_command (new_effects (mworld demo_warm) (mworld mg')) \<le> 8
    \<and> how_many is_connection (new_effects (mworld demo_warm) (mworld mg')) \<le> 52"
proof -
  have "\<forall>h host port. finite_peer (e_peer silent_env h host port)"
    unfolding finite_peer_def silent_env_def demo_peer_def stops_def by (intro allI exI [of _ 1]) simp
  with invocation_work_bounded [of silent_env "Some ''k8s''" demo_spec "''x''" demo_warm] demo_timeout show ?thesis by blast
qed

text \<open>
  With a steady clock the duration an invocation reports is never negative and never
  longer than the time that passed on the clock while it ran.
\<close>
theorem duration_bounds:
  assumes "steady env" "mgr_ok mg" "invoke env (make_runtime_backend kind env) spec inp mg = Some (r, mg')"
  shows "0 \<le> ir_duration_ms r
    \<and> ir_duration_ms r \<le> ms_of_ns (e_now env (hist (mworld mg')) - e_now env (hist (mworld mg)))"
  using assms by (rule chosen.invoke_duration)

theorem duration_bounds_witness:
  "\<exists>r mg'. invoke demo_env (make_runtime_backend None demo_env) demo_spec ''x'' demo_warm = Some (r, mg')
    \<and> 0 \<le> ir_duration_ms r"
proof -
  obtain r mg' where inv: "invoke demo_env demo_be demo_spec ''x'' demo_warm = Some (r, mg')"
    using chosen.invoke_returns [OF demo_finite demo_timeout] by blast
  from duration_bounds [OF demo_steady demo_warm_ok inv] inv show ?thesis by blast
qed

section \<open>The reaper and deletion\<close>

text \<open>
  C26: One pass of the reaper removes exactly the expired runtimes and no other: the IDLE
  ones whose idle time has reached the idle timeout they were started with. Every removed
  container has the removal command issued on it, and the terminations are counted.
\<close>
theorem reap_exact:
  assumes "mgr_ok mg"
  shows "runtimes (reap_locked env (make_runtime_backend kind env) mg) =
      filter (\<lambda>e. \<not> (rt_state (snd e) = IDLE
        \<and> sint (idle_timeout_ms (snd e)) \<le> ms_of_ns (e_now env (hist (mworld mg)) - last_used_at (snd e)))) (runtimes mg)
    \<and> (\<forall>k rt. (k, rt) \<in> set (runtimes mg) \<and> (k, rt) \<notin> set (runtimes (reap_locked env (make_runtime_backend kind env) mg))
        \<longrightarrow> Shell (rm_command kind (container_id rt))
          \<in> set (new_effects (mworld mg) (mworld (reap_locked env (make_runtime_backend kind env) mg))))
    \<and> om_total (runtimes_terminated (mmetrics (reap_locked env (make_runtime_backend kind env) mg)))
        = om_total (runtimes_terminated (mmetrics mg)) + int (length (runtimes mg))
          - int (length (runtimes (reap_locked env (make_runtime_backend kind env) mg)))"
proof -
  let ?mg' = "reap_locked env (make_runtime_backend kind env) mg"
  have rts: "runtimes ?mg' = filter (\<lambda>e. \<not> expired (e_now env (hist (mworld mg))) (snd e)) (runtimes mg)"
    by (simp add: reap_locked_def case_prod_beta Let_def reap_entries_runtimes)
  have k: "kept (rm_command kind) mg ?mg'" using assms by (rule chosen.kept_reap_locked)
  then have ok: "mgr_ok ?mg'" by (simp add: kept_def)
  have "Shell (rm_command kind (container_id rt)) \<in> set (new_effects (mworld mg) (mworld ?mg'))"
    if "(k, rt) \<in> set (runtimes mg)" "(k, rt) \<notin> set (runtimes ?mg')" for k rt
  proof (rule kept_untracked [OF k])
    show f: "om_find (runtimes mg) k = Some rt" using that(1) assms by (simp add: mgr_ok_def om_in_find)
    show "om_find (runtimes ?mg') k = None"
      using that f assms om_find_filter [of "runtimes mg" "\<lambda>rt. \<not> expired (e_now env (hist (mworld mg))) rt" k]
      by (simp add: rts mgr_ok_def)
  qed
  moreover have "runtimes_created (mmetrics ?mg') = runtimes_created (mmetrics mg)"
    using chosen.reap_entries_metrics [of "mmetrics mg"] assms
    by (simp add: reap_locked_def case_prod_beta Let_def mgr_ok_def)
  ultimately show ?thesis
    using assms ok rts by (auto simp: mgr_ok_def balanced_def expired_def)
qed

theorem reap_exact_witness:
  "runtimes (reap_locked demo_env (make_runtime_backend None demo_env) demo_warm) = runtimes demo_warm"
  using reap_exact [OF demo_warm_ok, of demo_env None]
  by (simp add: demo_warm_def demo_runtime_def init_manager_def init_world_def demo_env_def ms_of_ns_def)

text \<open>
  C21: Scale to zero: if the clock is steady and a sleep lasts at least as long as asked, a
  runtime that is left IDLE is gone after any number of reaper rounds whose sleeps (500 ms
  each) add up to its idle timeout, counted from the moment it was last used.
\<close>
theorem scale_to_zero:
  assumes "steady env" "sleeps env" "mgr_ok mg"
    and "om_find (runtimes mg) k = Some rt" "rt_state rt = IDLE"
    and "last_used_at rt \<le> e_now env (hist (mworld mg))" "sint (idle_timeout_ms rt) \<le> 500 * int (Suc n)"
  shows "om_find (runtimes (reap_idle_runtimes env (make_runtime_backend kind env) (Suc n) mg)) k = None"
  using assms by (intro chosen.reaped_in_time) (auto simp: mgr_ok_def)

theorem scale_to_zero_witness:
  "om_find (runtimes (reap_idle_runtimes demo_env (make_runtime_backend None demo_env) 2 demo_warm)) ''hello'' = None"
  using scale_to_zero [OF demo_steady demo_sleeps demo_warm_ok, of "''hello''" demo_runtime 1 None] demo_warm_find
  by (simp add: demo_runtime_def demo_spec_def demo_warm_def init_manager_def init_world_def demo_env_def numeral_2_eq_2)

text \<open>
  Deleting a function removes its runtime, whatever state it is in: the container's
  removal is issued, the function is no longer tracked, one termination with reason
  \<^verbatim>\<open>deleted\<close> is counted and no other runtime is touched; without a runtime nothing happens.
\<close>
theorem terminate_removes:
  assumes "mgr_ok mg"
  shows "(case om_find (runtimes mg) k of
      None \<Rightarrow> terminate (make_runtime_backend kind env) k mg = mg
    | Some rt \<Rightarrow> Shell (rm_command kind (container_id rt))
          \<in> set (new_effects (mworld mg) (mworld (terminate (make_runtime_backend kind env) k mg)))
        \<and> runtimes_terminated (mmetrics (terminate (make_runtime_backend kind env) k mg))
            = om_incr ''deleted'' (runtimes_terminated (mmetrics mg)))
    \<and> (\<forall>j. om_find (runtimes (terminate (make_runtime_backend kind env) k mg)) j
        = (if j = k then None else om_find (runtimes mg) j))"
proof (cases "om_find (runtimes mg) k")
  case None
  then show ?thesis by (simp add: terminate_def)
next
  case (Some rt)
  have "kept (rm_command kind) mg (terminate (make_runtime_backend kind env) k mg)"
    using assms by (rule chosen.kept_terminate)
  from kept_untracked [OF this Some] Some show ?thesis
    by (simp add: terminate_def om_find_erase)
qed

theorem terminate_removes_witness:
  "Shell (rm_command None ''abc123'') \<in> set (new_effects (mworld demo_warm)
     (mworld (terminate (make_runtime_backend None demo_env) ''hello'' demo_warm)))"
  using terminate_removes [where k = "''hello''" and kind = None and env = demo_env, OF demo_warm_ok] demo_warm_find
  by (simp add: demo_spec_def demo_runtime_def)

end
