(* ===== verification/Http_Server.thy ===== *)
theory Http_Server
  imports World Http_Text
begin

text \<open>
  \<^verbatim>\<open>common/src/http_server.cpp\<close>: routing, reading one request from a connection, dispatching
  it and writing the response. The bytes of a connection come from a function that gives
  the result of its \<open>n\<close>-th \<^verbatim>\<open>recv\<close>; the server sets no receive timeout, so a silent client
  blocks the connection's thread for ever. Handlers act on a state \<open>'s\<close> that is a parameter
  here and the control plane's state in \<open>Control_Plane\<close>.
\<close>

section \<open>Definitions\<close>

record http_request =
  rq_method :: string
  rq_path :: string
  rq_headers :: "(string, string) omap"
  rq_body :: string

record response =
  rp_status :: int
  rp_headers :: "(string, string) omap"
  rp_body :: string

definition default_reply :: response where
  "default_reply = \<lparr>rp_status = 200, rp_headers = [], rp_body = ''''\<rparr>"

definition response_json :: "int \<Rightarrow> string \<Rightarrow> response" where
  "response_json status body =
     default_reply\<lparr>rp_status := status, rp_headers := om_put ''Content-Type'' ''application/json'' [], rp_body := body\<rparr>"

definition response_text :: "int \<Rightarrow> string \<Rightarrow> response" where
  "response_text status body =
     default_reply\<lparr>rp_status := status, rp_headers := om_put ''Content-Type'' ''text/plain'' [], rp_body := body\<rparr>"

definition response_empty :: "int \<Rightarrow> response" where
  "response_empty status = default_reply\<lparr>rp_status := status\<rparr>"

text \<open>
  What a handler does: it returns a response, throws (which nothing catches: the thread is
  detached and the process ends), or blocks for ever; in each case with the state it has
  reached.
\<close>

datatype 'a outcome = Returns 'a | Throws | Blocks

type_synonym 's handler = "http_request \<Rightarrow> string list \<Rightarrow> 's \<Rightarrow> response outcome \<times> 's"

record 's route =
  ro_method :: string
  ro_segments :: "string list"
  ro_handler :: "'s handler"

text \<open>The loop of \<^verbatim>\<open>split_path\<close> with its two locals.\<close>

fun split_loop :: "string \<Rightarrow> string \<Rightarrow> string list \<Rightarrow> string list" where
  "split_loop [] current segments = (if current \<noteq> [] then segments @ [current] else segments)"
| "split_loop (c # s) current segments =
     (if c = CHR ''?'' then (if current \<noteq> [] then segments @ [current] else segments)
      else if c = CHR ''/'' then
        (if current \<noteq> [] then split_loop s [] (segments @ [current]) else split_loop s current segments)
      else split_loop s (current @ [c]) segments)"

definition split_path :: "string \<Rightarrow> string list" where
  "split_path path = split_loop path [] []"

definition reason_phrase :: "int \<Rightarrow> string" where
  "reason_phrase status =
     (if status = 200 then ''OK'' else if status = 201 then ''Created'' else if status = 204 then ''No Content''
      else if status = 400 then ''Bad Request'' else if status = 404 then ''Not Found''
      else if status = 405 then ''Method Not Allowed'' else if status = 409 then ''Conflict''
      else if status = 500 then ''Internal Server Error'' else if status = 501 then ''Not Implemented'' else '''')"

subsection \<open>Reading a request\<close>

text \<open>
  The header loop. \<^const>\<open>None\<close>: it blocks. \<^term>\<open>Some None\<close>: it returns false. Otherwise the
  header block, what was read past it, and how many \<^verbatim>\<open>recv\<close> calls were made. The bound on the
  size makes it terminate.
\<close>

function read_headers :: "(nat \<Rightarrow> recv_result) \<Rightarrow> nat \<Rightarrow> string \<Rightarrow> (string \<times> string \<times> nat) option option" where
  "read_headers r i data =
     (case find_sub CRLF2 data of
        Some pos \<Rightarrow> Some (Some (take pos data, drop (pos + 4) data, i))
      | None \<Rightarrow>
          (case r i of
             Bytes bs \<Rightarrow>
               if bs = [] then Some None
               else if length (data @ bs) > 2 ^ 20 then Some None
               else read_headers r (Suc i) (data @ bs)
           | RecvError \<Rightarrow> Some None
           | Silent \<Rightarrow> None))"
  by pat_completeness auto
termination
proof (relation "measure (\<lambda>(r, i, data). 2 ^ 20 - length data)")
  show "((r, Suc i, data @ bs), (r, i, data)) \<in> measure (\<lambda>(r, i, data). 2 ^ 20 - length data)"
    if "bs \<noteq> []" "\<not> 2 ^ 20 < length (data @ bs)" for r :: "nat \<Rightarrow> recv_result" and i data bs
  proof -
    have "length data < length (data @ bs)" using that(1) by simp
    with that(2) show ?thesis by (simp del: length_append)
  qed
qed simp

declare read_headers.simps [simp del]

text \<open>The body loop: until \<^verbatim>\<open>content_length\<close> bytes are there or the stream ends.\<close>

function read_body :: "(nat \<Rightarrow> recv_result) \<Rightarrow> nat \<Rightarrow> nat \<Rightarrow> string \<Rightarrow> string option" where
  "read_body r i content_length body =
     (if length body < content_length
      then (case r i of
              Bytes bs \<Rightarrow> if bs = [] then Some body else read_body r (Suc i) content_length (body @ bs)
            | RecvError \<Rightarrow> Some body
            | Silent \<Rightarrow> None)
      else Some body)"
  by pat_completeness auto
termination
  by (relation "measure (\<lambda>(r, i, n, body). n - length body)") (auto intro!: diff_less_mono2)

declare read_body.simps [simp del]

fun server_headers :: "string list \<Rightarrow> (string, string) omap \<Rightarrow> (string, string) omap" where
  "server_headers [] hs = hs"
| "server_headers (line # ls) hs =
     (let header_line = strip_cr line in
      if header_line = [] then server_headers ls hs
      else case find_char (CHR '':'') header_line of
        None \<Rightarrow> server_headers ls hs
      | Some colon \<Rightarrow>
          server_headers ls
            (om_put (take colon header_line) (drop_spaces (drop (colon + 1) header_line)) hs))"

text \<open>The request line and the headers, from the header block.\<close>

definition parse_head :: "string \<Rightarrow> http_request" where
  "parse_head block =
     (let lines = get_lines block;
          request_line = strip_cr (case lines of [] \<Rightarrow> [] | l # _ \<Rightarrow> l);
          (method, rest1) = read_word request_line;
          (path, rest2) = read_word rest1
      in \<lparr>rq_method = method, rq_path = path, rq_headers = server_headers (drop 1 lines) [], rq_body = ''''\<rparr>)"

text \<open>
  \<^verbatim>\<open>handle_connection\<close> up to the routing: the request, or why there is none. \<^verbatim>\<open>std::stoul\<close> on the
  \<^verbatim>\<open>Content-Length\<close> header throws on anything that does not start with a number that fits.
\<close>

datatype received = Received http_request | NoRequest | BadLength | WaitsForever

definition receive_request :: "(nat \<Rightarrow> recv_result) \<Rightarrow> received" where
  "receive_request r =
     (case read_headers r 0 [] of
        None \<Rightarrow> WaitsForever
      | Some None \<Rightarrow> NoRequest
      | Some (Some (block, leftover, i)) \<Rightarrow>
          let req = parse_head block in
          (case (case om_find (rq_headers req) ''Content-Length'' of None \<Rightarrow> Inr 0 | Some v \<Rightarrow> stoul v) of
             Inl _ \<Rightarrow> BadLength
           | Inr content_length \<Rightarrow>
               (case read_body r i content_length leftover of
                  None \<Rightarrow> WaitsForever
                | Some body \<Rightarrow> Received (req\<lparr>rq_body := take (min (length body) content_length) body\<rparr>))))"

subsection \<open>Routing\<close>

definition is_param :: "string \<Rightarrow> bool" where
  "is_param expected \<longleftrightarrow> expected \<noteq> [] \<and> hd expected = CHR ''{'' \<and> last expected = CHR ''}''"

fun match_loop :: "string list \<Rightarrow> string list \<Rightarrow> string list \<Rightarrow> string list option" where
  "match_loop (expected # es) (seg # segs) params =
     (if is_param expected then match_loop es segs (params @ [seg])
      else if expected \<noteq> seg then None
      else match_loop es segs params)"
| "match_loop _ _ params = Some params"

definition match_route :: "'s route \<Rightarrow> string list \<Rightarrow> string list option" where
  "match_route route segments =
     (if length (ro_segments route) \<noteq> length segments then None else match_loop (ro_segments route) segments [])"

definition make_route :: "string \<Rightarrow> string \<Rightarrow> 's handler \<Rightarrow> 's route" where
  "make_route method pattern h = \<lparr>ro_method = method, ro_segments = split_path pattern, ro_handler = h\<rparr>"

text \<open>The loop over the routes, with \<^verbatim>\<open>path_matched_any_method\<close>.\<close>

fun dispatch :: "'s route list \<Rightarrow> http_request \<Rightarrow> string list \<Rightarrow> bool \<Rightarrow> 's \<Rightarrow> response outcome \<times> 's" where
  "dispatch [] req segments path_matched_any_method s =
     (Returns (if path_matched_any_method
               then response_json 405 (''{'' @ [CHR 0x22] @ ''error'' @ [CHR 0x22] @ '':'' @ [CHR 0x22] @ ''method not allowed'' @ [CHR 0x22] @ ''}'')
               else response_json 404 (''{'' @ [CHR 0x22] @ ''error'' @ [CHR 0x22] @ '':'' @ [CHR 0x22] @ ''not found'' @ [CHR 0x22] @ ''}'')), s)"
| "dispatch (route # routes) req segments path_matched_any_method s =
     (case match_route route segments of
        None \<Rightarrow> dispatch routes req segments path_matched_any_method s
      | Some params \<Rightarrow>
          if ro_method route \<noteq> rq_method req then dispatch routes req segments True s
          else ro_handler route req params s)"

definition finish_headers :: "response \<Rightarrow> response" where
  "finish_headers resp =
     resp\<lparr>rp_headers := om_put ''Connection'' ''close''
            (om_put ''Content-Length'' (show_nat (length (rp_body resp))) (rp_headers resp))\<rparr>"

definition header_line_of :: "string \<times> string \<Rightarrow> string" where
  "header_line_of h = fst h @ '': '' @ snd h"

definition response_bytes :: "response \<Rightarrow> string" where
  "response_bytes resp =
     ''HTTP/1.1 '' @ show_int (rp_status resp) @ '' '' @ reason_phrase (rp_status resp) @ CRLF
     @ concat (map (\<lambda>h. fst h @ '': '' @ snd h @ CRLF) (rp_headers resp))
     @ CRLF @ rp_body resp"

text \<open>
  What becomes of a connection: closed without an answer, answered with the given bytes,
  never finished, or the end of the process by an exception nobody catches.
\<close>

datatype conn_result = Closed | Answered string | Stuck | Crashed

definition handle_connection :: "'s route list \<Rightarrow> (nat \<Rightarrow> recv_result) \<Rightarrow> 's \<Rightarrow> conn_result \<times> 's" where
  "handle_connection routes r s =
     (case receive_request r of
        WaitsForever \<Rightarrow> (Stuck, s)
      | NoRequest \<Rightarrow> (Closed, s)
      | BadLength \<Rightarrow> (Crashed, s)
      | Received req \<Rightarrow>
          (case dispatch routes req (split_path (rq_path req)) False s of
             (Returns resp, s') \<Rightarrow> (Answered (response_bytes (finish_headers resp)), s')
           | (Throws, s') \<Rightarrow> (Crashed, s')
           | (Blocks, s') \<Rightarrow> (Stuck, s')))"

text \<open>
  The end of \<^verbatim>\<open>handle_connection\<close>: one \<^verbatim>\<open>send\<close> of the whole answer, whose result is not looked at, and
  the \<^verbatim>\<open>close\<close>. The kernel may take fewer bytes, or none because the connection has failed; on a
  connection that is no longer there \<^verbatim>\<open>send\<close> raises SIGPIPE, which the program neither handles
  nor suppresses with \<^verbatim>\<open>MSG_NOSIGNAL\<close>, so it ends the process.
\<close>

datatype send_result = Sent nat | SendError | BrokenPipe

datatype conn_end = Dropped | Replied string | Hung | Died

definition serve_connection ::
  "'s route list \<Rightarrow> (nat \<Rightarrow> recv_result) \<Rightarrow> (string \<Rightarrow> send_result) \<Rightarrow> 's \<Rightarrow> conn_end \<times> 's" where
  "serve_connection routes r snd_call s =
     (case handle_connection routes r s of
        (Closed, s') \<Rightarrow> (Dropped, s')
      | (Stuck, s') \<Rightarrow> (Hung, s')
      | (Crashed, s') \<Rightarrow> (Died, s')
      | (Answered out, s') \<Rightarrow>
          (case snd_call out of
             Sent n \<Rightarrow> (Replied (take n out), s')
           | SendError \<Rightarrow> (Dropped, s')
           | BrokenPipe \<Rightarrow> (Died, s')))"

subsection \<open>Listening\<close>

text \<open>
  \<^verbatim>\<open>Server::listen\<close>: the set-up, with the message of the exception it throws when a call
  fails (the descriptor \<^verbatim>\<open>socket\<close> gives and whether the two other calls succeed are arguments),
  and the accept loop. An event is the result of one \<^verbatim>\<open>accept\<close>, and whether another thread
  called \<^verbatim>\<open>Server::stop\<close> during it. The result is the connections for which a thread was
  started.
\<close>

record server_state =
  sv_listen_fd :: int
  sv_running :: bool

definition init_server :: server_state where
  "init_server = \<lparr>sv_listen_fd = - 1, sv_running = False\<rparr>"

text \<open>The address given to \<^verbatim>\<open>bind\<close>: the port is cast to 16 bits; \<open>inet\<close> stands for \<^verbatim>\<open>inet_addr\<close>.\<close>

definition bind_address :: "(string \<Rightarrow> 32 word) \<Rightarrow> string \<Rightarrow> int \<Rightarrow> 32 word \<times> 16 word" where
  "bind_address inet host port = (if host = ''0.0.0.0'' then 0 else inet host, word_of_int port)"

definition listen_setup :: "int \<Rightarrow> bool \<Rightarrow> bool \<Rightarrow> string \<Rightarrow> int \<Rightarrow> server_state \<Rightarrow> (string + unit) \<times> server_state" where
  "listen_setup fd bind_ok listen_ok host port sv =
     (let sv1 = sv\<lparr>sv_listen_fd := fd\<rparr> in
      if fd < 0 then (Inl ''failed to create listening socket'', sv1)
      else if \<not> bind_ok then (Inl (''failed to bind to '' @ host @ '':'' @ show_int port), sv1)
      else if \<not> listen_ok then (Inl (''failed to listen on '' @ host @ '':'' @ show_int port), sv1)
      else (Inr (), sv1\<lparr>sv_running := True\<rparr>))"

definition server_stop :: "server_state \<Rightarrow> server_state" where
  "server_stop sv =
     (let sv1 = sv\<lparr>sv_running := False\<rparr>
      in if 0 \<le> sv_listen_fd sv1 then sv1\<lparr>sv_listen_fd := - 1\<rparr> else sv1)"

datatype 'c accept_event = Accepted 'c | AcceptFailed

fun accept_loop :: "server_state \<Rightarrow> ('c accept_event \<times> bool) list \<Rightarrow> 'c list \<times> server_state" where
  "accept_loop sv [] = ([], sv)"
| "accept_loop sv ((ev, stopped) # evs) =
     (if \<not> sv_running sv then ([], sv)
      else let sv' = (if stopped then server_stop sv else sv) in
        case ev of
          AcceptFailed \<Rightarrow> if \<not> sv_running sv' then ([], sv') else accept_loop sv' evs
        | Accepted c \<Rightarrow> (case accept_loop sv' evs of (cs, sv'') \<Rightarrow> (c # cs, sv'')))"

section \<open>Reading in pieces\<close>

lemma find_sub_iff:
  "find_sub pat s = Some i \<longleftrightarrow> i \<le> length s \<and> prefix pat (drop i s) \<and> (\<forall>j < i. \<not> prefix pat (drop j s))"
proof
  assume "find_sub pat s = Some i"
  then show "i \<le> length s \<and> prefix pat (drop i s) \<and> (\<forall>j < i. \<not> prefix pat (drop j s))"
    using find_sub_Some_prefix find_sub_least by blast
next
  assume a: "i \<le> length s \<and> prefix pat (drop i s) \<and> (\<forall>j < i. \<not> prefix pat (drop j s))"
  then obtain k where k: "find_sub pat s = Some k" by (metis find_sub_None_iff not_None_eq)
  with a have "k = i" using find_sub_Some_prefix find_sub_least by (metis linorder_neqE_nat)
  with k show "find_sub pat s = Some i" by simp
qed

lemma find_sub_append:
  assumes "find_sub pat s = Some i"
  shows "find_sub pat (s @ t) = Some i"
proof -
  have i: "i \<le> length s" "prefix pat (drop i s)" "\<forall>j < i. \<not> prefix pat (drop j s)"
    using assms by (simp_all add: find_sub_iff)
  have len: "i + length pat \<le> length s" using i(1) prefix_length_le [OF i(2)] by simp
  have "\<not> prefix pat (drop j (s @ t))" if "j < i" for j
  proof
    assume p: "prefix pat (drop j (s @ t))"
    have "drop j (s @ t) = drop j s @ t" using that i(1) by simp
    moreover have "length pat \<le> length (drop j s)" using that len by simp
    ultimately have "prefix pat (drop j s)" using p by (auto simp: prefix_def append_eq_append_conv2)
    with i(3) that show False by blast
  qed
  with i show ?thesis by (auto simp: find_sub_iff prefix_append)
qed

lemma find_sub_late:
  assumes "find_sub pat (s @ t) = Some i" "find_sub pat s = None"
  shows "length s < i + length pat"
proof (rule ccontr)
  assume n: "\<not> length s < i + length pat"
  have "prefix pat (drop i (s @ t))" using assms(1) by (simp add: find_sub_iff)
  moreover have "drop i (s @ t) = drop i s @ t" "length pat \<le> length (drop i s)" using n by simp_all
  ultimately have "prefix pat (drop i s)" by (auto simp: prefix_def append_eq_append_conv2)
  with n assms(2) show False by (auto simp: find_sub_None_iff)
qed

text \<open>
  However the bytes of a message arrive, the same header block is found; what was read past
  it and what is still to be read make up the rest of the message.
\<close>

lemma read_headers_chunks:
  assumes "\<And>j. j < length bss \<Longrightarrow> r (i + j) = Bytes (bss ! j)"
    and "list_all (\<lambda>b. b \<noteq> [] \<and> length b \<le> 4096) bss"
    and "find_sub CRLF2 (data @ concat bss) = Some pos" "pos + 4100 \<le> 2 ^ 20"
  shows "\<exists>n leftover. n \<le> length bss
    \<and> read_headers r i data = Some (Some (take pos (data @ concat bss), leftover, i + n))
    \<and> leftover @ concat (drop n bss) = drop (pos + 4) (data @ concat bss)"
  using assms(1-3)
proof (induction bss arbitrary: i data)
  case Nil
  then have "read_headers r i data = Some (Some (take pos data, drop (pos + 4) data, i))"
    by (simp add: read_headers.simps)
  then show ?case by simp
next
  case (Cons b bss)
  show ?case
  proof (cases "find_sub CRLF2 data")
    case (Some p)
    have p: "p = pos" using find_sub_append [OF Some, of "concat (b # bss)"] Cons.prems(3) by simp
    have "pos + 4 \<le> length data"
      using Some p prefix_length_le [of CRLF2 "drop pos data"] by (auto simp: find_sub_iff)
    moreover have "read_headers r i data = Some (Some (take pos data, drop (pos + 4) data, i))"
      using Some p by (simp add: read_headers.simps)
    ultimately show ?thesis by (intro exI [of _ 0] exI [of _ "drop (pos + 4) data"]) simp
  next
    case None
    have "length data < pos + 4" using find_sub_late [OF Cons.prems(3) None] by simp
    with assms(4) Cons.prems(2) have short: "\<not> length (data @ b) > 2 ^ 20" by simp
    have "r i = Bytes b" using Cons.prems(1) [of 0] by simp
    with None short Cons.prems(2) have step: "read_headers r i data = read_headers r (Suc i) (data @ b)"
      by (subst read_headers.simps) simp
    have "r (Suc i + j) = Bytes (bss ! j)" if "j < length bss" for j
      using Cons.prems(1) [of "Suc j"] that by simp
    from Cons.IH [of "Suc i" "data @ b", OF this] Cons.prems(2,3)
    obtain n leftover where n: "n \<le> length bss"
      "read_headers r (Suc i) (data @ b) = Some (Some (take pos ((data @ b) @ concat bss), leftover, Suc i + n))"
      "leftover @ concat (drop n bss) = drop (pos + 4) ((data @ b) @ concat bss)" by auto
    show ?thesis
      by (rule exI [of _ "Suc n"], rule exI [of _ leftover]) (use n step in simp)
  qed
qed

lemma read_body_chunks:
  assumes "\<And>j. j < length bss \<Longrightarrow> r (i + j) = Bytes (bss ! j)" "list_all (\<lambda>b. b \<noteq> []) bss"
    and "n \<le> length (body @ concat bss)"
  shows "\<exists>rest. read_body r i n body = Some (body @ rest) \<and> prefix rest (concat bss) \<and> n \<le> length (body @ rest)"
  using assms
proof (induction bss arbitrary: i body)
  case Nil
  then show ?case by (simp add: read_body.simps)
next
  case (Cons b bss)
  show ?case
  proof (cases "length body < n")
    case False
    then show ?thesis by (intro exI [of _ "[]"]) (simp add: read_body.simps)
  next
    case True
    have "r i = Bytes b" using Cons.prems(1) [of 0] by simp
    with True Cons.prems(2) have step: "read_body r i n body = read_body r (Suc i) n (body @ b)"
      by (subst read_body.simps) simp
    have "r (Suc i + j) = Bytes (bss ! j)" if "j < length bss" for j
      using Cons.prems(1) [of "Suc j"] that by simp
    from Cons.IH [OF this, of "body @ b"] Cons.prems(2,3)
    obtain rest where "read_body r (Suc i) n (body @ b) = Some ((body @ b) @ rest)" "prefix rest (concat bss)"
      "n \<le> length ((body @ b) @ rest)" by auto
    with step show ?thesis by (intro exI [of _ "b @ rest"]) simp
  qed
qed

definition content_length_of :: "http_request \<Rightarrow> cxx_error + nat" where
  "content_length_of req = (case om_find (rq_headers req) ''Content-Length'' of None \<Rightarrow> Inr 0 | Some v \<Rightarrow> stoul v)"

lemma receive_request_chunks:
  assumes "\<And>j. j < length bss \<Longrightarrow> r j = Bytes (bss ! j)"
    and "list_all (\<lambda>b. b \<noteq> [] \<and> length b \<le> 4096) bss"
    and "find_sub CRLF2 (concat bss) = Some pos" "pos + 4100 \<le> 2 ^ 20"
    and "content_length_of (parse_head (take pos (concat bss))) = Inr n" "pos + 4 + n \<le> length (concat bss)"
  shows "receive_request r = Received ((parse_head (take pos (concat bss)))\<lparr>rq_body := take n (drop (pos + 4) (concat bss))\<rparr>)"
proof -
  obtain k leftover where k: "k \<le> length bss"
    "read_headers r 0 [] = Some (Some (take pos (concat bss), leftover, k))"
    "leftover @ concat (drop k bss) = drop (pos + 4) (concat bss)"
    using read_headers_chunks [of bss r 0 "[]" pos] assms(1-4) by auto
  have "r (k + j) = Bytes (drop k bss ! j)" if "j < length (drop k bss)" for j
    using assms(1) [of "k + j"] that by simp
  moreover have "list_all (\<lambda>b. b \<noteq> []) (drop k bss)"
    using assms(2) by (auto simp: list_all_iff dest: in_set_dropD)
  moreover have "n \<le> length (leftover @ concat (drop k bss))" using k(3) assms(6) by simp
  ultimately obtain rest where rest: "read_body r k n leftover = Some (leftover @ rest)"
    "prefix rest (concat (drop k bss))" "n \<le> length (leftover @ rest)"
    using read_body_chunks by blast
  have "take n (leftover @ rest) = take n (drop (pos + 4) (concat bss))"
    using rest(2,3) unfolding k(3) [symmetric] by (auto simp: prefix_def)
  with k(2) rest(1,3) assms(5) show ?thesis
    by (simp add: receive_request_def content_length_of_def Let_def min_absorb2)
qed

section \<open>Paths and routes\<close>

text \<open>A path made of segments, each after a slash.\<close>

definition path_of :: "string list \<Rightarrow> string" where
  "path_of segs = concat (map (\<lambda>s. CHR ''/'' # s) segs)"

definition plain_segment :: "string \<Rightarrow> bool" where
  "plain_segment s \<longleftrightarrow> s \<noteq> [] \<and> CHR ''/'' \<notin> set s \<and> CHR ''?'' \<notin> set s"

lemma split_loop_segment:
  "CHR ''/'' \<notin> set s \<Longrightarrow> CHR ''?'' \<notin> set s \<Longrightarrow> split_loop (s @ t) cur segs = split_loop t (cur @ s) segs"
  by (induction s arbitrary: cur) auto

lemma split_loop_path:
  assumes "list_all plain_segment segs" "q = [] \<or> hd q = CHR ''?''"
  shows "split_loop (path_of segs @ q) cur acc = (if cur \<noteq> [] then acc @ [cur] else acc) @ segs"
  using assms(1)
proof (induction segs arbitrary: cur acc)
  case Nil
  then show ?case using assms(2) by (cases q) (auto simp: path_of_def)
next
  case (Cons s segs)
  have "plain_segment s" and rest: "list_all plain_segment segs"
    using Cons.prems by simp_all
  then have s: "s \<noteq> []" "CHR ''/'' \<notin> set s" "CHR ''?'' \<notin> set s"
    by (simp_all add: plain_segment_def)
  have "path_of (s # segs) @ q = CHR ''/'' # s @ (path_of segs @ q)" by (simp add: path_of_def)
  then show ?case
    using s Cons.IH [OF rest] split_loop_segment [OF s(2,3), of "path_of segs @ q"] by simp
qed

lemma split_path_path_of:
  "list_all plain_segment segs \<Longrightarrow> q = [] \<or> hd q = CHR ''?'' \<Longrightarrow> split_path (path_of segs @ q) = segs"
  by (simp add: split_path_def split_loop_path)

text \<open>Reference for \<^verbatim>\<open>Server::match\<close>: the segments agree except at parameters.\<close>

definition seg_ok :: "string \<Rightarrow> string \<Rightarrow> bool" where
  "seg_ok e s \<longleftrightarrow> is_param e \<or> e = s"

definition captured :: "string list \<Rightarrow> string list \<Rightarrow> string list" where
  "captured es segs = map snd (filter (\<lambda>p. is_param (fst p)) (zip es segs))"

lemma match_loop_eq:
  "length es = length segs \<Longrightarrow>
    match_loop es segs ps = (if list_all2 seg_ok es segs then Some (ps @ captured es segs) else None)"
  by (induction es segs ps rule: match_loop.induct) (auto simp: captured_def seg_ok_def)

lemma match_route_eq:
  "match_route route segs =
    (if list_all2 seg_ok (ro_segments route) segs then Some (captured (ro_segments route) segs) else None)"
  by (auto simp: match_route_def match_loop_eq dest: list_all2_lengthD)

text \<open>Reference for the routing loop: the first route that fits in path and method.\<close>

definition route_fits :: "http_request \<Rightarrow> string list \<Rightarrow> 's route \<Rightarrow> bool" where
  "route_fits req segs route \<longleftrightarrow> ro_method route = rq_method req \<and> list_all2 seg_ok (ro_segments route) segs"

definition error_json :: "string \<Rightarrow> string" where
  "error_json msg = ''{'' @ [CHR 0x22] @ ''error'' @ [CHR 0x22] @ '':'' @ [CHR 0x22] @ msg @ [CHR 0x22] @ ''}''"

lemma dispatch_eq:
  "dispatch routes req segs b s =
    (case find (route_fits req segs) routes of
       Some route \<Rightarrow> ro_handler route req (captured (ro_segments route) segs) s
     | None \<Rightarrow>
         (Returns (if b \<or> (\<exists>route \<in> set routes. list_all2 seg_ok (ro_segments route) segs)
                   then response_json 405 (error_json ''method not allowed'')
                   else response_json 404 (error_json ''not found'')), s))"
  by (induction routes arbitrary: b) (auto simp: match_route_eq route_fits_def error_json_def split: option.splits)

section \<open>The accept loop\<close>

text \<open>
  While nobody stops the server, every accepted connection gets its thread and failures of
  \<^verbatim>\<open>accept\<close> are skipped; after a stop at most the connection being accepted is still served.
\<close>

lemma accept_loop_running:
  "sv_running sv \<Longrightarrow> list_all (\<lambda>e. \<not> snd e) evs \<Longrightarrow>
    accept_loop sv evs = (concat (map (\<lambda>e. case fst e of Accepted c \<Rightarrow> [c] | AcceptFailed \<Rightarrow> []) evs), sv)"
  by (induction evs) (auto simp: Let_def split: accept_event.splits)

lemma accept_loop_stopped: "\<not> sv_running sv \<Longrightarrow> accept_loop sv evs = ([], sv)"
  by (cases evs) auto

lemma accept_loop_stop:
  assumes "sv_running sv" "list_all (\<lambda>e. \<not> snd e) evs"
  shows "accept_loop sv (evs @ (ev, True) # evs') =
    (concat (map (\<lambda>e. case fst e of Accepted c \<Rightarrow> [c] | AcceptFailed \<Rightarrow> []) (evs @ [(ev, True)])), server_stop sv)"
proof -
  have "\<not> sv_running (server_stop sv)" by (simp add: server_stop_def Let_def)
  note stop = this accept_loop_stopped [OF this]
  show ?thesis
    using assms by (induction evs) (auto simp: Let_def stop split: accept_event.splits)
qed

section \<open>Headers\<close>

text \<open>One line of the header loop, and the loop as a fold.\<close>

definition add_header :: "string \<Rightarrow> (string, string) omap \<Rightarrow> (string, string) omap" where
  "add_header l hs = (case find_char (CHR '':'') l of None \<Rightarrow> hs
     | Some colon \<Rightarrow> om_put (take colon l) (drop_spaces (drop (colon + 1) l)) hs)"

lemma server_headers_fold: "server_headers ls hs = fold add_header (map strip_cr ls) hs"
  by (induction ls hs rule: server_headers.induct) (auto simp: Let_def add_header_def split: option.splits)

definition plain_header :: "string \<times> string \<Rightarrow> bool" where
  "plain_header h \<longleftrightarrow> CHR '':'' \<notin> set (fst h) \<and> CR \<notin> set (fst h) \<and> LF \<notin> set (fst h)
     \<and> CR \<notin> set (snd h) \<and> LF \<notin> set (snd h) \<and> (snd h = [] \<or> hd (snd h) \<noteq> CHR '' '')"

lemma add_header_line:
  assumes "plain_header h"
  shows "add_header (header_line_of h) hs = om_put (fst h) (snd h) hs"
proof -
  have "find_char (CHR '':'') (header_line_of h) = Some (length (fst h))"
    using find_char_append [of "CHR '':''" "fst h" "CHR '' '' # snd h"] assms
    by (simp add: plain_header_def header_line_of_def)
  moreover have "drop_spaces (snd h) = snd h"
    using assms by (cases "snd h") (auto simp: plain_header_def)
  ultimately show ?thesis by (simp add: add_header_def header_line_of_def)
qed

lemma fold_add_headers:
  "list_all plain_header hs \<Longrightarrow>
    fold add_header (map header_line_of hs) m = fold (\<lambda>h. om_put (fst h) (snd h)) hs m"
  by (induction hs arbitrary: m) (simp_all add: add_header_line)

lemma om_put_last: "\<forall>e \<in> set m. fst e < k \<Longrightarrow> om_put k v m = m @ [(k, v)]"
  by (induction k v m rule: om_put.induct) auto

text \<open>Putting the entries of a map into an empty one, in its order, gives the map again.\<close>

lemma fold_om_put: "om_ok m \<Longrightarrow> fold (\<lambda>h. om_put (fst h) (snd h)) m [] = m"
proof (induction m rule: rev_induct)
  case (snoc e m)
  then have "om_ok m" "\<forall>x \<in> set m. fst x < fst e"
    by (auto simp: om_ok_def sorted_wrt_append)
  with snoc.IH show ?case by (simp add: om_put_last)
qed simp

lemma header_line_plain: "plain_header h \<Longrightarrow> plain_line (header_line_of h)"
  by (auto simp: plain_header_def plain_line_def header_line_of_def)

lemma plain_header_lines: "list_all plain_header hs \<Longrightarrow> list_all plain_line (map header_line_of hs)"
  by (simp add: list_all_iff header_line_plain)

lemma parse_head_lines:
  assumes "plain_line l" "list_all plain_header hs"
  shows "parse_head (header_block l (map header_line_of hs)) =
    \<lparr>rq_method = fst (read_word l), rq_path = fst (read_word (snd (read_word l))),
     rq_headers = fold (\<lambda>h. om_put (fst h) (snd h)) hs [], rq_body = ''''\<rparr>"
proof -
  let ?ls = "get_lines (header_block l (map header_line_of hs))"
  have m: "map strip_cr ?ls = l # map header_line_of hs"
    using get_lines_header_block [OF assms(1) plain_header_lines [OF assms(2)]] .
  then obtain l' ls' where ls: "?ls = l' # ls'" by (cases ?ls) auto
  with m have "strip_cr l' = l" "map strip_cr ls' = map header_line_of hs" by simp_all
  then show ?thesis
    by (simp add: parse_head_def ls case_prod_beta server_headers_fold fold_add_headers [OF assms(2)])
qed

section \<open>Bounds of the header loop\<close>

lemma read_headers_bounds:
  "read_headers r i data = Some (Some (block, leftover, n)) \<Longrightarrow> length data \<le> 2 ^ 20 \<Longrightarrow>
    length block + 4 + length leftover \<le> 2 ^ 20 \<and> n + length data \<le> i + 2 ^ 20"
proof (induction r i data rule: read_headers.induct)
  case (1 r i data)
  show ?case
  proof (cases "find_sub CRLF2 data")
    case (Some pos)
    have "pos + 4 \<le> length data"
      using Some prefix_length_le [of CRLF2 "drop pos data"] by (auto simp: find_sub_iff)
    with Some "1.prems" show ?thesis by (auto simp: read_headers.simps)
  next
    case None
    with "1.prems"(1) obtain bs where bs: "r i = Bytes bs" "bs \<noteq> []" "\<not> length (data @ bs) > 2 ^ 20"
      "read_headers r (Suc i) (data @ bs) = Some (Some (block, leftover, n))"
      by (auto simp: read_headers.simps [of r i data] split: recv_result.splits if_splits)
    have "length bs \<ge> 1" using bs(2) by (cases bs) auto
    with "1.IH" [OF None bs(1-4)] bs(3) show ?thesis by simp
  qed
qed

lemma read_headers_returns:
  "(\<And>j. r j \<noteq> Silent) \<Longrightarrow> read_headers r i data \<noteq> None"
proof (induction r i data rule: read_headers.induct)
  case (1 r i data)
  show ?case
  proof (cases "find_sub CRLF2 data")
    case (Some pos)
    then show ?thesis by (simp add: read_headers.simps)
  next
    case None
    with "1.prems" [of i] "1.IH" [OF None _ _ _ "1.prems"] show ?thesis
      by (subst read_headers.simps) (auto split: recv_result.splits)
  qed
qed

end
