(* ===== verification/Http_Exchange.thy ===== *)
theory Http_Exchange
  imports Http_Client Http_Server
begin

text \<open>
  The HTTP client and the HTTP server against each other: what one writes the other reads.
\<close>

section \<open>From the client to the server\<close>

definition request_headers :: "string \<Rightarrow> string \<Rightarrow> string \<Rightarrow> (string \<times> string) list" where
  "request_headers host body content_type =
     [(''Host'', host), (''Connection'', ''close'')]
     @ (if body \<noteq> [] then [(''Content-Type'', content_type), (''Content-Length'', show_nat (length body))] else [])"

definition request_map :: "string \<Rightarrow> string \<Rightarrow> string \<Rightarrow> (string, string) omap" where
  "request_map host body ct = fold (\<lambda>h. om_put (fst h) (snd h)) (request_headers host body ct) []"

definition request_line :: "string \<Rightarrow> string \<Rightarrow> string" where
  "request_line method path = method @ '' '' @ path @ '' HTTP/1.1''"

lemma request_bytes_lines:
  "request_bytes host method path body ct =
     crlf_lines (request_line method path # map header_line_of (request_headers host body ct)) @ CRLF @ body"
  by (simp add: request_bytes_def request_line_def request_headers_def header_line_of_def)

text \<open>A token of the request line, and a header value that survives the header loop.\<close>

definition plain_word :: "string \<Rightarrow> bool" where
  "plain_word w \<longleftrightarrow> w \<noteq> [] \<and> list_all (\<lambda>c. \<not> is_space c) w"

definition plain_value :: "string \<Rightarrow> bool" where
  "plain_value v \<longleftrightarrow> CR \<notin> set v \<and> LF \<notin> set v \<and> (v = [] \<or> hd v \<noteq> CHR '' '')"

lemma plain_word_no_crlf: "plain_word w \<Longrightarrow> CR \<notin> set w \<and> LF \<notin> set w"
proof -
  assume "plain_word w"
  then have "\<And>c. c \<in> set w \<Longrightarrow> \<not> is_space c" by (simp add: plain_word_def list_all_iff)
  moreover have "is_space CR" "is_space LF" by (simp_all add: is_space_def)
  ultimately show ?thesis by blast
qed

lemma show_nat_plain_value: "plain_value (show_nat n)"
proof -
  have "\<And>c. c \<in> set (show_nat n) \<Longrightarrow> is_digit c" using show_nat_digits [of n] by (simp add: list_all_iff)
  moreover have "\<not> is_digit CR" "\<not> is_digit LF" "\<not> is_digit (CHR '' '')" by (simp_all add: is_digit_def)
  ultimately show ?thesis using hd_show_nat_digit [of n] unfolding plain_value_def by metis
qed

lemma request_line_plain: "plain_word m \<Longrightarrow> plain_word p \<Longrightarrow> plain_line (request_line m p)"
  using plain_word_no_crlf [of m] plain_word_no_crlf [of p]
  by (auto simp: plain_line_def request_line_def plain_word_def)

lemma request_headers_plain:
  "plain_value host \<Longrightarrow> plain_value ct \<Longrightarrow> list_all plain_header (request_headers host body ct)"
  using show_nat_plain_value [of "length body"]
  by (auto simp: request_headers_def plain_header_def plain_value_def)

lemma request_line_words:
  assumes "plain_word m" "plain_word p"
  shows "fst (read_word (request_line m p)) = m" "fst (read_word (snd (read_word (request_line m p)))) = p"
proof -
  have sp: "is_space (CHR '' '')" by (simp add: is_space_def)
  have 1: "read_word (request_line m p) = (m, '' '' @ p @ '' HTTP/1.1'')"
    using read_word_plain [of m "'' '' @ p @ '' HTTP/1.1''"] assms(1) sp
    by (simp add: request_line_def plain_word_def)
  have "read_word (CHR '' '' # p @ '' HTTP/1.1'') = (p, '' HTTP/1.1'')"
    using read_word_plain [of p "'' HTTP/1.1''"] assms(2) sp
    by (simp add: read_word_blank plain_word_def)
  with 1 show "fst (read_word (request_line m p)) = m" "fst (read_word (snd (read_word (request_line m p)))) = p"
    by simp_all
qed

lemma stoul_show_nat: "n < 2 ^ 64 \<Longrightarrow> stoul (show_nat n) = Inr n"
  using scan_number_show_int [of "int n"] by (simp add: show_int_def stoul_def)

text \<open>Where the header block of a message ends, and what it is.\<close>

lemma message_parts:
  fixes body :: string
  assumes "plain_line l" "list_all plain_header hs"
  defines "msg \<equiv> crlf_lines (l # map header_line_of hs) @ CRLF @ body"
    and "pos \<equiv> length l + length (crlf_lines (map header_line_of hs))"
  shows "find_sub CRLF2 msg = Some pos" "take pos msg = header_block l (map header_line_of hs)"
    "drop (pos + 4) msg = body" "length msg = pos + 4 + length body"
proof -
  show "find_sub CRLF2 msg = Some pos"
    unfolding msg_def pos_def by (rule find_sub_message [OF assms(1) plain_header_lines [OF assms(2)]])
  have len: "length (crlf_lines (l # map header_line_of hs)) = pos + 2" by (simp add: pos_def)
  have "take pos msg = take pos (crlf_lines (l # map header_line_of hs))"
    unfolding msg_def using len by (simp only: take_append) simp
  then show "take pos msg = header_block l (map header_line_of hs)"
    by (simp add: header_block_def pos_def)
  have "drop (pos + 4) (x @ CRLF @ body) = body" if "length x = pos + 2" for x :: string
    using that by simp
  from this [OF len] show "drop (pos + 4) msg = body" unfolding msg_def .
  show "length msg = pos + 4 + length body"
    unfolding msg_def using len by simp
qed

definition head_length :: "string \<Rightarrow> string \<Rightarrow> string \<Rightarrow> string \<Rightarrow> string \<Rightarrow> nat" where
  "head_length host method path body ct =
     length (request_line method path) + length (crlf_lines (map header_line_of (request_headers host body ct)))"

lemma request_received:
  assumes "plain_word method" "plain_word path" "plain_value host" "plain_value ct"
    and "concat bss = request_bytes host method path body ct"
    and "list_all (\<lambda>b. b \<noteq> [] \<and> length b \<le> 4096) bss" "\<And>j. j < length bss \<Longrightarrow> r j = Bytes (bss ! j)"
    and "head_length host method path body ct + 4100 \<le> 2 ^ 20" "length body < 2 ^ 64"
  shows "receive_request r = Received \<lparr>rq_method = method, rq_path = path,
    rq_headers = request_map host body ct, rq_body = body\<rparr>"
proof -
  let ?hs = "request_headers host body ct"
  let ?l = "request_line method path"
  have l: "plain_line ?l" using assms(1,2) by (rule request_line_plain)
  have hs: "list_all plain_header ?hs" using assms(3,4) by (rule request_headers_plain)
  note parts = message_parts [OF l hs, of body, folded request_bytes_lines head_length_def, folded assms(5)]
  let ?req = "parse_head (take (head_length host method path body ct) (concat bss))"
  have req: "?req = \<lparr>rq_method = method, rq_path = path,
      rq_headers = fold (\<lambda>h. om_put (fst h) (snd h)) ?hs [], rq_body = ''''\<rparr>"
    unfolding parts(2) by (simp add: parse_head_lines [OF l hs] request_line_words assms(1,2))
  have cl: "content_length_of ?req = Inr (length body)"
    using stoul_show_nat [OF assms(9)]
    by (simp add: content_length_of_def req request_headers_def om_find_put)
  have "receive_request r = Received (?req\<lparr>rq_body := take (length body) (drop (head_length host method path body ct + 4) (concat bss))\<rparr>)"
    using receive_request_chunks [OF assms(7,6) parts(1) assms(8) cl] parts(4) by simp
  then show ?thesis unfolding parts(3) req by (simp add: request_map_def)
qed

section \<open>From the server to the client\<close>

lemma client_headers_fold: "client_headers ls hs = fold add_header (map strip_cr ls) hs"
  by (induction ls hs rule: client_headers.induct) (auto simp: Let_def add_header_def split: option.splits)

definition status_line :: "int \<Rightarrow> string" where
  "status_line status = ''HTTP/1.1 '' @ show_int status @ '' '' @ reason_phrase status"

lemma response_bytes_lines:
  "response_bytes resp =
     crlf_lines (status_line (rp_status resp) # map header_line_of (rp_headers resp)) @ CRLF @ rp_body resp"
  by (simp add: response_bytes_def status_line_def header_line_of_def crlf_lines_def o_def)

lemma reason_phrase_plain: "CR \<notin> set (reason_phrase n) \<and> LF \<notin> set (reason_phrase n)"
  by (simp add: reason_phrase_def)

lemma show_int_no_crlf: "CR \<notin> set (show_int n) \<and> LF \<notin> set (show_int n)"
  using show_nat_digits [of "nat n"] show_nat_digits [of "nat (- n)"]
  by (auto simp: show_int_def list_all_iff is_digit_def)

lemma status_line_plain: "plain_line (status_line n)"
  using reason_phrase_plain [of n] show_int_no_crlf [of n] by (auto simp: plain_line_def status_line_def)

lemma status_line_read:
  assumes "0 \<le> n" "n < 2 ^ 31" "l = status_line n \<or> l = status_line n @ [CR]"
  shows "fst (read_word l) \<noteq> [] \<and> read_int (snd (read_word l)) = n"
proof -
  have sp: "is_space (CHR '' '')" by (simp add: is_space_def)
  obtain t where l: "l = ''HTTP/1.1'' @ CHR '' '' # show_int n @ CHR '' '' # t"
    using assms(3) by (auto simp: status_line_def)
  have "list_all (\<lambda>c. \<not> is_space c) ''HTTP/1.1''" by (simp add: is_space_def)
  then have "read_word l = (''HTTP/1.1'', CHR '' '' # show_int n @ CHR '' '' # t)"
    unfolding l by (intro read_word_plain) (simp_all add: sp)
  moreover have "\<not> is_digit (CHR '' '')" by (simp add: is_digit_def)
  ultimately show ?thesis
    using read_int_show [of n "CHR '' '' # t" "CHR '' ''", OF assms(1,2)] sp by simp
qed

lemma strip_cr_eq: "strip_cr l' = l \<Longrightarrow> l' = l \<or> l' = l @ [CR]"
  by (auto simp: strip_cr_def split: if_splits) (metis append_butlast_last_id)

lemma response_parsed:
  assumes "0 \<le> rp_status resp" "rp_status resp < 2 ^ 31"
    and "om_ok (rp_headers resp)" "list_all plain_header (rp_headers resp)"
  shows "parse_response (response_bytes resp) =
    default_response\<lparr>cr_status := rp_status resp, cr_headers := rp_headers resp, cr_body := rp_body resp, cr_ok := True\<rparr>"
proof -
  let ?l = "status_line (rp_status resp)" and ?hs = "rp_headers resp"
  note parts = message_parts [OF status_line_plain assms(4), of "rp_status resp" "rp_body resp",
      folded response_bytes_lines]
  let ?ls = "get_lines (header_block ?l (map header_line_of ?hs))"
  have m: "map strip_cr ?ls = ?l # map header_line_of ?hs"
    using get_lines_header_block [OF status_line_plain plain_header_lines [OF assms(4)]] .
  then obtain l' ls' where ls: "?ls = l' # ls'" by (cases ?ls) auto
  with m have l': "strip_cr l' = ?l" and ls': "map strip_cr ls' = map header_line_of ?hs" by simp_all
  have "client_headers ls' [] = ?hs"
    by (simp add: client_headers_fold ls' fold_add_headers [OF assms(4)] fold_om_put [OF assms(3)])
  moreover have "fst (read_word l') \<noteq> [] \<and> read_int (snd (read_word l')) = rp_status resp"
    using status_line_read [OF assms(1,2) strip_cr_eq [OF l']] .
  moreover have "response_bytes resp \<noteq> []" by (simp add: response_bytes_def)
  ultimately show ?thesis
    unfolding parse_response_def by (simp add: parts ls case_prod_beta)
qed

lemma finish_headers_plain:
  assumes "om_ok (rp_headers resp)" "list_all plain_header (rp_headers resp)"
  shows "om_ok (rp_headers (finish_headers resp)) \<and> list_all plain_header (rp_headers (finish_headers resp))"
proof -
  have put: "list_all plain_header (om_put k v m)" if "list_all plain_header m" "plain_header (k, v)" for k v m
    using that by (induction k v m rule: om_put.induct) auto
  have "plain_header (''Content-Length'', show_nat n)" for n
    using show_nat_plain_value [of n] by (simp add: plain_header_def plain_value_def)
  moreover have "plain_header (''Connection'', ''close'')" by (simp add: plain_header_def)
  ultimately show ?thesis using assms by (simp add: finish_headers_def om_ok_put put)
qed

lemma response_json_plain:
  "om_ok (rp_headers (response_json st b)) \<and> list_all plain_header (rp_headers (response_json st b))"
  by (simp add: response_json_def default_reply_def plain_header_def)

end
