(* ===== verification/Http_Properties.thy ===== *)
theory Http_Properties
  imports Http_Exchange Demo_Env
begin

text \<open>
  The properties of the HTTP client and server: messages survive the trip in both
  directions, routing is first match, the loops are bounded or end exactly when the other
  side lets them, and two ways in which the code trusts the other side too much.
\<close>

section \<open>Examples\<close>

definition whole :: "string \<Rightarrow> nat \<Rightarrow> recv_result" where
  "whole msg j = (if j = 0 then Bytes msg else Bytes [])"

definition demo_routes :: "unit route list" where
  "demo_routes =
     [make_route ''GET'' ''/functions/{name}'' (\<lambda>req params s. (Returns (response_json 200 (hd params)), s)),
      make_route ''POST'' ''/functions/{name}/invoke'' (\<lambda>req params s. (Returns (response_json 201 (rq_body req)), s))]"

definition bad_length_request :: string where
  "bad_length_request = ''GET /health HTTP/1.1'' @ CRLF @ ''Content-Length: many'' @ CRLF @ CRLF"

lemma demo_words: "plain_word ''POST''" "plain_word ''/functions/f/invoke''" "plain_value ''127.0.0.1''" "plain_value ''application/json''"
  by (simp_all add: plain_word_def plain_value_def is_space_def)

lemma demo_request_short:
  "length (request_bytes ''127.0.0.1'' ''POST'' ''/functions/f/invoke'' ''data'' ''application/json'') = 128
   \<and> head_length ''127.0.0.1'' ''POST'' ''/functions/f/invoke'' ''data'' ''application/json'' = 120"
  by code_simp

section \<open>Messages\<close>

text \<open>
  Whatever pieces of at most 4096 bytes the network cuts a request into, the server
  reads the request the client wrote: the same method, path, headers and body, for every
  body, provided method and path are single words, host and content type are plain header
  values and the header block stays under the server's limit.
\<close>
theorem request_roundtrip:
  assumes "plain_word method" "plain_word path" "plain_value host" "plain_value ct"
    and "concat bss = request_bytes host method path body ct"
    and "list_all (\<lambda>b. b \<noteq> [] \<and> length b \<le> 4096) bss" "\<And>j. j < length bss \<Longrightarrow> r j = Bytes (bss ! j)"
    and "head_length host method path body ct + 4100 \<le> 2 ^ 20" "length body < 2 ^ 64"
  shows "receive_request r = Received \<lparr>rq_method = method, rq_path = path,
    rq_headers = request_map host body ct, rq_body = body\<rparr>"
  using assms by (rule request_received)

theorem request_roundtrip_witness:
  "receive_request (whole (request_bytes ''127.0.0.1'' ''POST'' ''/functions/f/invoke'' ''data'' ''application/json'')) =
    Received \<lparr>rq_method = ''POST'', rq_path = ''/functions/f/invoke'',
      rq_headers = request_map ''127.0.0.1'' ''data'' ''application/json'', rq_body = ''data''\<rparr>"
proof (rule request_roundtrip [where bss = "[request_bytes ''127.0.0.1'' ''POST'' ''/functions/f/invoke'' ''data'' ''application/json'']"])
  show "head_length ''127.0.0.1'' ''POST'' ''/functions/f/invoke'' ''data'' ''application/json'' + 4100 \<le> 2 ^ 20"
    using demo_request_short by simp
  show "list_all (\<lambda>b. b \<noteq> [] \<and> length b \<le> 4096)
      [request_bytes ''127.0.0.1'' ''POST'' ''/functions/f/invoke'' ''data'' ''application/json'']"
    using demo_request_short by auto
qed (simp_all add: demo_words whole_def)

text \<open>
  The client does not check \<^verbatim>\<open>Content-Length\<close>: if the connection ends anywhere inside the
  body of a response, the client still reports a complete response (\<^verbatim>\<open>ok\<close>), with the body
  cut short.
\<close>
theorem truncated_response_accepted:
  assumes "0 \<le> rp_status resp" "rp_status resp < 2 ^ 31"
    and "om_ok (rp_headers resp)" "list_all plain_header (rp_headers resp)" "k \<le> length (rp_body resp)"
  shows "cr_ok (parse_response (take (length (response_bytes (finish_headers resp)) - k) (response_bytes (finish_headers resp))))
    \<and> cr_body (parse_response (take (length (response_bytes (finish_headers resp)) - k) (response_bytes (finish_headers resp))))
       = take (length (rp_body resp) - k) (rp_body resp)"
proof -
  let ?r = "finish_headers resp"
  let ?cut = "?r\<lparr>rp_body := take (length (rp_body resp) - k) (rp_body resp)\<rparr>"
  obtain pre where pre: "response_bytes ?r = pre @ rp_body ?r" "response_bytes ?cut = pre @ rp_body ?cut"
    by (simp add: response_bytes_def)
  have "rp_body ?r = rp_body resp" by (simp add: finish_headers_def)
  with assms(5) pre have "take (length (response_bytes ?r) - k) (response_bytes ?r) = response_bytes ?cut" by simp
  moreover have "parse_response (response_bytes ?cut) = default_response\<lparr>cr_status := rp_status ?cut,
      cr_headers := rp_headers ?cut, cr_body := rp_body ?cut, cr_ok := True\<rparr>"
    using response_parsed [of ?cut] finish_headers_plain [OF assms(3,4)] assms(1,2)
    by (simp add: finish_headers_def)
  ultimately show ?thesis by simp
qed

theorem truncated_response_accepted_witness:
  "cr_ok (parse_response (take (length (response_bytes (finish_headers (response_json 200 ''abcdef''))) - 4)
      (response_bytes (finish_headers (response_json 200 ''abcdef'')))))
    \<and> cr_body (parse_response (take (length (response_bytes (finish_headers (response_json 200 ''abcdef''))) - 4)
      (response_bytes (finish_headers (response_json 200 ''abcdef''))))) = ''ab''"
  using truncated_response_accepted [of "response_json 200 ''abcdef''" 4] response_json_plain [of 200 "''abcdef''"]
  by (simp add: response_json_def)

section \<open>Routing\<close>

text \<open>
  Routing is by the first route that agrees in method and in every segment (a segment
  in braces agrees with anything), whose handler gets the segments at the braces in order;
  otherwise the answer is 405 when some route agrees in the segments and 404 when none does.
\<close>
theorem dispatch_first_match:
  "dispatch routes req (split_path (rq_path req)) False s =
    (case find (\<lambda>route. ro_method route = rq_method req
        \<and> list_all2 (\<lambda>e seg. is_param e \<or> e = seg) (ro_segments route) (split_path (rq_path req))) routes of
       Some route \<Rightarrow> ro_handler route req
         (map snd (filter (\<lambda>p. is_param (fst p)) (zip (ro_segments route) (split_path (rq_path req))))) s
     | None \<Rightarrow>
         (Returns (if list_ex (\<lambda>route. list_all2 (\<lambda>e seg. is_param e \<or> e = seg) (ro_segments route) (split_path (rq_path req))) routes
                   then response_json 405 (error_json ''method not allowed'')
                   else response_json 404 (error_json ''not found'')), s))"
proof -
  have seg: "seg_ok = (\<lambda>e seg. is_param e \<or> e = seg)" by (simp add: fun_eq_iff seg_ok_def)
  have fits: "route_fits req segs = (\<lambda>route. ro_method route = rq_method req
      \<and> list_all2 (\<lambda>e seg. is_param e \<or> e = seg) (ro_segments route) segs)" for segs :: "string list"
    by (simp add: fun_eq_iff route_fits_def seg)
  show ?thesis unfolding dispatch_eq fits captured_def seg list_ex_iff by (simp only: simp_thms)
qed

text \<open>
  Splitting a path into segments undoes putting it together: for non-empty segments
  without slash and question mark, and whatever query string follows.
\<close>
theorem split_path_roundtrip:
  assumes "list_all plain_segment segs" "q = [] \<or> hd q = CHR ''?''"
  shows "split_path (path_of segs @ q) = segs"
  using assms by (rule split_path_path_of)

theorem split_path_roundtrip_witness: "split_path (path_of [''functions'', ''f''] @ ''?x=/y'') = [''functions'', ''f'']"
  by (rule split_path_roundtrip) (simp_all add: plain_segment_def)

section \<open>Loops\<close>

text \<open>The bytes that the first \<open>n\<close> reads from number \<open>i\<close> on have brought.\<close>

definition bytes_read :: "(nat \<Rightarrow> recv_result) \<Rightarrow> nat \<Rightarrow> nat \<Rightarrow> nat" where
  "bytes_read r i n = (\<Sum>j\<leftarrow>[i..<n]. case r j of Bytes bs \<Rightarrow> length bs | _ \<Rightarrow> 0)"

lemma bytes_read_Cons: "i < n \<Longrightarrow> bytes_read r i n = (case r i of Bytes bs \<Rightarrow> length bs | _ \<Rightarrow> 0) + bytes_read r (Suc i) n"
  by (simp add: bytes_read_def upt_conv_Cons)

text \<open>From read \<open>i\<close> on, with these bytes held, the header loop reads up to \<open>n\<close> and no further.\<close>

definition reads_upto :: "(nat \<Rightarrow> recv_result) \<Rightarrow> nat \<Rightarrow> string \<Rightarrow> nat \<Rightarrow> bool" where
  "reads_upto r i data n \<longleftrightarrow> (\<forall>r'. (\<forall>j. i \<le> j \<and> j < n \<longrightarrow> r' j = r j) \<longrightarrow> read_headers r' i data = read_headers r i data)"

lemma reads_one:
  assumes "\<not> (find_sub CRLF2 data = None \<and> (\<exists>bs. r i = Bytes bs \<and> bs \<noteq> [] \<and> \<not> length (data @ bs) > 2 ^ 20))"
  shows "reads_upto r i data (Suc i)"
  unfolding reads_upto_def
proof (intro allI impI)
  fix r' assume "\<forall>j. i \<le> j \<and> j < Suc i \<longrightarrow> r' j = r j"
  then have eq: "r' i = r i" by simp
  show "read_headers r' i data = read_headers r i data"
    unfolding read_headers.simps [of r' i data] read_headers.simps [of r i data] eq using assms
    by (cases "find_sub CRLF2 data"; cases "r i") auto
qed

lemma reads_more:
  assumes "find_sub CRLF2 data = None" "r i = Bytes bs" "bs \<noteq> []" "\<not> length (data @ bs) > 2 ^ 20"
    and "reads_upto r (Suc i) (data @ bs) n" "Suc i \<le> n"
  shows "reads_upto r i data n"
  unfolding reads_upto_def
proof (intro allI impI)
  fix r' assume eq: "\<forall>j. i \<le> j \<and> j < n \<longrightarrow> r' j = r j"
  then have "r' i = Bytes bs" using assms(2,6) by simp
  moreover have "read_headers r' (Suc i) (data @ bs) = read_headers r (Suc i) (data @ bs)"
    by (rule assms(5) [unfolded reads_upto_def, rule_format]) (use eq in simp)
  ultimately show "read_headers r' i data = read_headers r i data"
    unfolding read_headers.simps [of r' i data] read_headers.simps [of r i data] using assms(1-4) by simp
qed

lemma read_headers_uses:
  assumes "\<And>j bs. r j = Bytes bs \<Longrightarrow> length bs \<le> 4096"
  shows "length data \<le> 2 ^ 20 \<Longrightarrow>
    \<exists>n \<ge> i. reads_upto r i data n \<and> length data + bytes_read r i n \<le> 2 ^ 20 + 4096 \<and> n + length data \<le> i + 2 ^ 20 + 1"
  using assms
proof (induction r i data rule: read_headers.induct)
  case (1 r i data)
  show ?case
  proof (cases "find_sub CRLF2 data = None \<and> (\<exists>bs. r i = Bytes bs \<and> bs \<noteq> [] \<and> \<not> length (data @ bs) > 2 ^ 20)")
    case True
    then obtain bs where bs: "find_sub CRLF2 data = None" "r i = Bytes bs" "bs \<noteq> []" "\<not> length (data @ bs) > 2 ^ 20" by blast
    obtain n where n: "Suc i \<le> n" "reads_upto r (Suc i) (data @ bs) n"
      "length (data @ bs) + bytes_read r (Suc i) n \<le> 2 ^ 20 + 4096" "n + length (data @ bs) \<le> Suc i + 2 ^ 20 + 1"
      using "1.IH" [OF bs] bs(4) "1.prems"(2) unfolding not_less by blast
    have "length bs \<ge> 1" using bs(3) by (cases bs) auto
    with n reads_more [OF bs n(2,1)] bs(2) show ?thesis by (intro exI [of _ n]) (simp add: bytes_read_Cons)
  next
    case False
    have "(case r i of Bytes bs \<Rightarrow> length bs | _ \<Rightarrow> 0) \<le> 4096" using "1.prems"(2) by (simp split: recv_result.split)
    with reads_one [of data r i, OF False] "1.prems"(1) show ?thesis by (intro exI [of _ "Suc i"]) (simp add: bytes_read_def)
  qed
qed

text \<open>
  C35: The server's header loop is bounded: unless the client falls silent it returns; what it
  returns is determined by at most \<open>2 ^ 20 + 1\<close> reads of at most 4096 bytes each, which bring no
  more than \<open>2 ^ 20 + 4096\<close> bytes together, so it never holds more than that; and a header
  block that it accepts, with what was read past it, is at most a mebibyte.
\<close>
theorem read_headers_bounded:
  assumes "\<And>j bs. r j = Bytes bs \<Longrightarrow> length bs \<le> 4096"
  shows "((\<forall>j. r j \<noteq> Silent) \<longrightarrow> read_headers r 0 [] \<noteq> None)
    \<and> (\<exists>n \<le> 2 ^ 20 + 1. (\<forall>r'. (\<forall>j < n. r' j = r j) \<longrightarrow> read_headers r' 0 [] = read_headers r 0 [])
         \<and> bytes_read r 0 n \<le> 2 ^ 20 + 4096)
    \<and> (\<forall>block leftover n. read_headers r 0 [] = Some (Some (block, leftover, n)) \<longrightarrow>
         length block + 4 + length leftover \<le> 2 ^ 20)"
proof (intro conjI)
  obtain n where n: "\<And>r'. (\<And>j. j < n \<Longrightarrow> r' j = r j) \<Longrightarrow> read_headers r' 0 [] = read_headers r 0 []"
    "bytes_read r 0 n \<le> 2 ^ 20 + 4096" "n \<le> 2 ^ 20 + 1"
    using read_headers_uses [of r "[]" 0] assms by (auto simp: reads_upto_def simp del: power_numeral)
  show "\<exists>n \<le> 2 ^ 20 + 1. (\<forall>r'. (\<forall>j < n. r' j = r j) \<longrightarrow> read_headers r' 0 [] = read_headers r 0 [])
      \<and> bytes_read r 0 n \<le> 2 ^ 20 + 4096"
    by (intro exI [of _ n] conjI allI impI n) simp
  show "(\<forall>j. r j \<noteq> Silent) \<longrightarrow> read_headers r 0 [] \<noteq> None" using read_headers_returns [of r 0 "[]"] by blast
  show "\<forall>block leftover n. read_headers r 0 [] = Some (Some (block, leftover, n)) \<longrightarrow> length block + 4 + length leftover \<le> 2 ^ 20"
    using read_headers_bounds [of r 0 "[]"] by simp
qed

theorem read_headers_bounded_witness:
  "\<exists>n \<le> 2 ^ 20 + 1. (\<forall>r'. (\<forall>j < n. r' j = whole bad_length_request j) \<longrightarrow> read_headers r' 0 [] = read_headers (whole bad_length_request) 0 [])"
proof -
  have "length bad_length_request \<le> 4096" by code_simp
  then have "length bs \<le> 4096" if "whole bad_length_request j = Bytes bs" for j bs using that by (auto simp: whole_def split: if_splits)
  with read_headers_bounded [of "whole bad_length_request"] show ?thesis by blast
qed

text \<open>
  A request returns exactly when the connection lets it: it fails before the first
  \<^verbatim>\<open>recv\<close>, or after some number of non-empty pieces the stream ends, breaks, or (only when a
  timeout is set) falls silent. Without a timeout a silent peer blocks the caller for ever,
  and with one a peer that keeps sending still does.
\<close>
theorem request_returns_iff:
  "request env host port m path body ct t w \<noteq> None \<longleftrightarrow>
    (let p = e_peer env (hist w) host (port mod 65536); req = request_bytes host m path body ct in
     \<not> p_socket p \<or> (\<not> p_pton p \<and> \<not> p_resolve p) \<or> \<not> p_connect p \<or> \<not> p_send p req
     \<or> (\<exists>n. stops (0 < t) (p_recv p req n) \<and> (\<forall>j < n. piece (p_recv p req j))))"
proof -
  let ?p = "e_peer env (hist w) host (port mod 65536)"
  let ?r = "p_recv ?p (request_bytes host m path body ct)"
  have t: "(timeval_of t \<noteq> None) = (0 < t)" by (simp add: timeval_of_def)
  have "request env host port m path body ct t w \<noteq> None \<longleftrightarrow>
      \<not> p_socket ?p \<or> (\<not> p_pton ?p \<and> \<not> p_resolve ?p) \<or> \<not> p_connect ?p \<or> \<not> p_send ?p (request_bytes host m path body ct)
      \<or> recv_all ?r (0 < t) 0 [] \<noteq> None"
    unfolding request_def t by (auto simp: Let_def split: option.splits)
  then show ?thesis unfolding recv_all_iff Let_def by blast
qed

theorem request_returns_iff_witness:
  "request demo_env ''127.0.0.1'' 8080 ''GET'' ''/health'' '''' '''' 0 init_world \<noteq> None
   \<and> request (demo_env\<lparr>e_peer := (\<lambda>_ _ _. (demo_peer demo_reply)\<lparr>p_recv := (\<lambda>_ _. Silent)\<rparr>)\<rparr>)
       ''127.0.0.1'' 8080 ''GET'' ''/health'' '''' '''' 0 init_world = None"
proof
  have "\<exists>n. stops (0 < (0::int)) (p_recv (demo_peer demo_reply) q n) \<and> (\<forall>j < n. piece (p_recv (demo_peer demo_reply) q j))" for q
    by (rule exI [of _ 1]) (simp add: stops_def piece_def demo_peer_def demo_reply_def)
  then show "request demo_env ''127.0.0.1'' 8080 ''GET'' ''/health'' '''' '''' 0 init_world \<noteq> None"
    unfolding request_returns_iff by (simp add: Let_def demo_env_def)
  show "request (demo_env\<lparr>e_peer := (\<lambda>_ _ _. (demo_peer demo_reply)\<lparr>p_recv := (\<lambda>_ _. Silent)\<rparr>)\<rparr>)
      ''127.0.0.1'' 8080 ''GET'' ''/health'' '''' '''' 0 init_world = None"
    using request_returns_iff [of "demo_env\<lparr>e_peer := (\<lambda>_ _ _. (demo_peer demo_reply)\<lparr>p_recv := (\<lambda>_ _. Silent)\<rparr>)\<rparr>"
        "''127.0.0.1''" 8080 "''GET''" "''/health''" "''''" "''''" 0 init_world]
    by (simp add: Let_def demo_peer_def stops_def del: not_None_eq)
qed

section \<open>Malformed input\<close>

text \<open>
  A request whose \<^verbatim>\<open>Content-Length\<close> is not a number takes the whole server down:
  \<^verbatim>\<open>std::stoul\<close> throws in the connection's detached thread, where nothing catches it, whatever
  the routes and the state are.
\<close>
theorem bad_content_length_crashes:
  "handle_connection routes (whole bad_length_request) s = (Crashed, s)"
proof -
  have "receive_request (whole bad_length_request) = BadLength" by code_simp
  then show ?thesis by (simp add: handle_connection_def)
qed

end
