(* ===== verification/Backend_Properties.thy ===== *)
theory Backend_Properties
  imports Demo_Env
begin

text \<open>
  The properties of the shell helpers, the two container backends and the metrics registry.
\<close>

section \<open>Shell helpers\<close>

lemma trim_all_blank: "list_all is_blank s \<Longrightarrow> trim s = ''''"
proof -
  assume "list_all is_blank s"
  then have "first_not_blank s = None" by (induction s) auto
  then show ?thesis by (simp add: trim_def)
qed

lemma blank_ends:
  assumes "\<not> list_all is_blank s"
  obtains a x m b where "s = a @ (x # m) @ b" "list_all is_blank a" "list_all is_blank b"
    "\<not> is_blank x" "\<not> is_blank (last (x # m))"
proof -
  let ?d = "dropWhile is_blank s"
  have d: "?d \<noteq> []" using assms by (simp add: dropWhile_eq_Nil_conv list_all_iff)
  let ?e = "rev (dropWhile is_blank (rev ?d))"
  have hd: "\<not> is_blank (hd ?d)" using d by (rule hd_dropWhile)
  have ne: "dropWhile is_blank (rev ?d) \<noteq> []"
    using hd hd_in_set [OF d] unfolding dropWhile_eq_Nil_conv set_rev by blast
  have split: "?d = ?e @ rev (takeWhile is_blank (rev ?d))"
    by (metis rev_append rev_rev_ident takeWhile_dropWhile_id)
  obtain x m where xm: "?e = x # m" using ne by (cases ?e) auto
  have "x = hd ?d" using split xm by (metis append_Cons list.sel(1))
  moreover have "\<not> is_blank (last ?e)" using hd_dropWhile [OF ne] by (simp add: last_rev)
  moreover have "s = takeWhile is_blank s @ (x # m) @ rev (takeWhile is_blank (rev ?d))"
    using split xm by (metis append_assoc takeWhile_dropWhile_id)
  moreover have "list_all is_blank (takeWhile is_blank s)" "list_all is_blank (rev (takeWhile is_blank (rev ?d)))"
    by (auto simp: list_all_iff dest: set_takeWhileD)
  ultimately show ?thesis using that hd xm by metis
qed

text \<open>
  \<^verbatim>\<open>trim\<close>, which computes two positions and a length, removes exactly the blanks, tabs,
  carriage returns and line feeds at both ends of a string and nothing else.
\<close>
theorem trim_correct: "trim s = rev (dropWhile is_blank (rev (dropWhile is_blank s)))"
proof (cases "list_all is_blank s")
  case True
  then have "dropWhile is_blank s = []" by (simp add: dropWhile_eq_Nil_conv list_all_iff)
  then show ?thesis using trim_all_blank [OF True] by (simp del: dropWhile_eq_Nil_conv)
next
  case False
  then obtain a x m b where s: "s = a @ (x # m) @ b" "list_all is_blank a" "list_all is_blank b"
    "\<not> is_blank x" "\<not> is_blank (last (x # m))" by (rule blank_ends)
  have a: "dropWhile is_blank (u @ v) = dropWhile is_blank v" if "list_all is_blank u" for u v
    using that by (induction u) auto
  have "dropWhile is_blank s = (x # m) @ b" using s(1,2,4) by (simp add: a)
  moreover have "dropWhile is_blank (rev ((x # m) @ b)) = rev (x # m)"
  proof -
    have "dropWhile is_blank (rev b @ rev (x # m)) = dropWhile is_blank (rev (x # m))"
      using s(3) by (intro a) (simp add: list_all_rev)
    also have "\<dots> = rev (x # m)"
      using s(5) by (cases "rev (x # m)") (auto simp: last_rev hd_rev [symmetric])
    finally show ?thesis by simp
  qed
  ultimately show ?thesis using trim_split [OF s(4,5,2,3)] s(1) by simp
qed

section \<open>Docker\<close>

lemma docker_line_words:
  assumes "is_safe_token t"
  shows "words_of (docker_run_line t p) = [''docker'', ''run'', ''-d'', ''-p'', show_int p, t]"
    and "words_of (docker_port_line t p) = [''docker'', ''port'', t, show_int p]"
    and "words_of (docker_rm_line t) = [''docker'', ''rm'', ''-f'', t]"
proof -
  have last: "words_of t = [t]" "words_of (show_int p) = [show_int p]"
    using safe_word [OF assms] safe_word [OF show_int_safe, of p] by (simp_all add: words_of_word)
  have mid: "words_of (show_int p @ CHR '' '' # s) = show_int p # words_of s" "words_of (t @ CHR '' '' # s) = t # words_of s" for s
    using safe_word [OF assms] safe_word [OF show_int_safe, of p] by (simp_all add: words_of_cons_word)
  have w: "words_of (w @ CHR '' '' # s) = w # words_of s" if "w \<noteq> []" "CHR '' '' \<notin> set w" for w s
    using that by (rule words_of_cons_word)
  show "words_of (docker_run_line t p) = [''docker'', ''run'', ''-d'', ''-p'', show_int p, t]"
    using w [of "''docker''"] w [of "''run''"] w [of "''-d''"] w [of "''-p''"] mid(1) [of t] last
    by (simp add: docker_run_line_def del: words_of.simps)
  show "words_of (docker_port_line t p) = [''docker'', ''port'', t, show_int p]"
    using w [of "''docker''"] w [of "''port''"] mid(2) [of "show_int p"] last
    by (simp add: docker_port_line_def del: words_of.simps)
  show "words_of (docker_rm_line t) = [''docker'', ''rm'', ''-f'', t]"
    using w [of "''docker''"] w [of "''rm''"] w [of "''-f''"] last
    by (simp add: docker_rm_line_def del: words_of.simps)
qed

text \<open>
  C33: No shell injection through an image name: an image that passes the token check
  reaches the shell as exactly one word of exactly one command, and holds no character the
  shell treats specially; any other image reaches no shell at all.
\<close>
theorem docker_run_no_injection:
  "if is_safe_token img
   then new_effects w (snd (docker_run_container env img p w)) = [Shell (docker_run_line img p @ '' 2>&1'')]
     \<and> words_of (docker_run_line img p) = [''docker'', ''run'', ''-d'', ''-p'', show_int p, img]
     \<and> list_all (\<lambda>c. \<not> shell_special c) img
   else docker_run_container env img p w = (default_run_result\<lparr>rr_error := ''invalid image name: '' @ img\<rparr>, w)"
proof (cases "is_safe_token img")
  case True
  then have "list_all (\<lambda>c. \<not> shell_special c) img"
    using safe_token_no_special by (simp add: list_all_iff)
  with True show ?thesis
    by (simp add: docker_line_words docker_run_container_def case_prod_beta Let_def new_effects_def)
qed (simp add: docker_unsafe)

text \<open>
  The host port that \<^verbatim>\<open>docker port\<close> prints is the port that is used: from an output whose
  first line is an address, a colon and a port number, \<^verbatim>\<open>get_host_port\<close> recovers the number,
  whatever colons the address has (IPv6) and whatever lines follow.
\<close>
theorem docker_port_parsed:
  assumes "is_safe_token i" "0 \<le> p" "p < 2 ^ 31"
    and "e_popen env (hist w) (docker_port_line i cp @ '' 2>&1'') = PopenOk blocks (Exited 0)"
    and "read_pipe blocks [] = addr @ '':'' @ show_int p @ [LF] @ rest"
    and "addr \<noteq> []" "\<not> is_blank (hd addr)" "LF \<notin> set addr"
  shows "fst (docker_get_host_port env i cp w) = p"
proof -
  let ?line = "addr @ '':'' @ show_int p"
  have dig: "\<And>c. c \<in> set (show_int p) \<Longrightarrow> is_digit c"
    using show_nat_digits [of "nat p"] assms(2) by (simp add: show_int_def list_all_iff)
  have nd: "\<not> is_digit LF" "\<not> is_digit (CHR '':'')" by (simp_all add: is_digit_def)
  have "LF \<notin> set ?line" using dig nd(1) assms(8) by auto
  then have fl: "first_line (?line @ LF # rest) = ?line"
    unfolding first_line_prefix by (subst takeWhile_append2) auto
  obtain x m where xm: "addr = x # m" using assms(6) by (cases addr) auto
  have "\<not> is_blank (last ?line)"
  proof -
    have "show_int p \<noteq> []" using assms(2) by (simp add: show_int_def)
    then have "is_digit (last ?line)" using dig by simp
    then show ?thesis by (auto simp: is_blank_def is_digit_def)
  qed
  then have "trim ?line = ?line"
    using trim_split [of x "m @ '':'' @ show_int p" "[]" "[]"] assms(7) xm by simp
  moreover have "find_last (CHR '':'') ?line = Some (length addr)"
    using find_last_append [of "CHR '':''" "show_int p" addr] dig nd(2) by auto
  moreover have "stoi (show_int p) = Inr p" using assms(2,3) by (intro stoi_show_int) auto
  ultimately show ?thesis
    using assms(1,4,5) fl
    by (simp add: docker_get_host_port_def exec_capture_def Let_def)
qed

theorem docker_port_parsed_witness: "fst (docker_get_host_port demo_env ''abc123'' 8080 init_world) = 32768"
proof (rule docker_port_parsed [where addr = "''0.0.0.0''" and rest = "[]" and blocks = "[''0.0.0.0:32768'' @ [LF]]"])
  show "e_popen demo_env (hist init_world) (docker_port_line ''abc123'' 8080 @ '' 2>&1'')
      = PopenOk [''0.0.0.0:32768'' @ [LF]] (Exited 0)"
    by code_simp
  show "read_pipe [''0.0.0.0:32768'' @ [LF]] [] = ''0.0.0.0'' @ '':'' @ show_int 32768 @ [LF] @ []"
    by code_simp
  show "is_safe_token ''abc123''" by code_simp
qed (simp_all add: is_blank_def)

section \<open>Kubernetes\<close>

text \<open>
  The names of pods never collide within a process: two runs, the second at any later
  state of the process-wide counter, give different names, however the clock behaves, and
  every name can be handed to the shell.
\<close>
theorem pod_names_distinct:
  assumes "0 \<le> pod_counter w" "rr_ok (fst (k8s_run_container env img p w))"
    and "pod_counter (snd (k8s_run_container env img p w)) \<le> pod_counter w'"
    and "rr_ok (fst (k8s_run_container env img' p' w'))"
  shows "rr_id (fst (k8s_run_container env img p w)) \<noteq> rr_id (fst (k8s_run_container env img' p' w'))
    \<and> is_safe_token (rr_id (fst (k8s_run_container env img p w)))"
proof -
  have safe: "is_safe_token img" using assms(2) k8s_unsafe(1) [of img env p w] by (cases "is_safe_token img") auto
  have id1: "rr_id (fst (k8s_run_container env img p w)) = pod_name (ms_of_ns (e_now env (hist w))) (pod_counter w + 1)"
    using assms(2) by (rule k8s_run_ok_name)
  have id2: "rr_id (fst (k8s_run_container env img' p' w')) = pod_name (ms_of_ns (e_now env (hist w'))) (pod_counter w' + 1)"
    using assms(4) by (rule k8s_run_ok_name)
  have "pod_counter w + 1 \<le> pod_counter w'" using assms(3) safe by (simp add: k8s_run_counter)
  then show ?thesis
    using pod_name_inj [of "pod_counter w + 1" "pod_counter w' + 1"] assms(1)
    by (auto simp: id1 id2 pod_name_safe)
qed

lemma demo_k8s_run: "rr_ok (fst (k8s_run_container demo_env ''hello:v1'' 8080 w))"
proof -
  have "is_safe_token ''hello:v1''" by code_simp
  moreover have "exit_code (fst (exec_capture demo_env (CHR ''k'' # c) w)) = 0" for c w
    by (simp add: exec_capture_def Let_def demo_env_def demo_popen_def)
  ultimately show ?thesis
    by (simp add: k8s_run_container_def Let_def case_prod_beta kubectl_run_line_def kubectl_wait_line_def kubectl_expose_line_def)
qed

theorem pod_names_distinct_witness:
  "rr_id (fst (k8s_run_container demo_env ''hello:v1'' 8080 init_world))
    \<noteq> rr_id (fst (k8s_run_container demo_env ''hello:v1'' 8080 (snd (k8s_run_container demo_env ''hello:v1'' 8080 init_world))))"
  using pod_names_distinct [of init_world demo_env "''hello:v1''" 8080 "snd (k8s_run_container demo_env ''hello:v1'' 8080 init_world)"]
    demo_k8s_run by (simp add: init_world_def)

text \<open>
  A Kubernetes run that fails after its pod was created deletes the pod: whenever
  \<^verbatim>\<open>kubectl run\<close> succeeds and the run as a whole does not, the deletion of that pod is issued.
\<close>
theorem k8s_failed_run_deletes_pod:
  assumes "is_safe_token img" "nm = pod_name (ms_of_ns (e_now env (hist w))) (pod_counter w + 1)"
    and "exit_code (fst (exec_capture env (kubectl_run_line nm img p) (snd (generate_pod_name env w)))) = 0"
    and "\<not> rr_ok (fst (k8s_run_container env img p w))"
  shows "Shell (kubectl_delete_pod_line nm @ '' 2>&1'') \<in> set (new_effects w (snd (k8s_run_container env img p w)))"
  using assms
  by (auto simp: k8s_run_container_def Let_def case_prod_beta new_effects_def)

definition not_ready_env :: env where
  "not_ready_env = demo_env\<lparr>e_popen := (\<lambda>h c. if prefix ''kubectl wait'' c then PopenOk [''timed out''] (Exited 1) else PopenOk [] (Exited 0))\<rparr>"

theorem k8s_failed_run_deletes_pod_witness:
  "Shell (kubectl_delete_pod_line ''faas-0-1'' @ '' 2>&1'')
    \<in> set (new_effects init_world (snd (k8s_run_container not_ready_env ''hello:v1'' 8080 init_world)))"
proof (rule k8s_failed_run_deletes_pod)
  show "is_safe_token ''hello:v1''" by code_simp
  show "''faas-0-1'' = pod_name (ms_of_ns (e_now not_ready_env (hist init_world))) (pod_counter init_world + 1)" by code_simp
  show "exit_code (fst (exec_capture not_ready_env (kubectl_run_line ''faas-0-1'' ''hello:v1'' 8080)
      (snd (generate_pod_name not_ready_env init_world)))) = 0" by code_simp
  show "\<not> rr_ok (fst (k8s_run_container not_ready_env ''hello:v1'' 8080 init_world))" by code_simp
qed

section \<open>Metrics\<close>

lemma kBucketsMs_sorted: "sorted kBucketsMs"
  by (simp add: kBucketsMs_def)

lemma at_most_sorted: "sorted bs \<Longrightarrow> sorted (map (at_most ds) bs)"
  by (induction bs) (auto simp: at_most_mono)

text \<open>
  After any sequence of recorded invocations the duration histogram of the warm (or of
  the cold) ones is a correct cumulative histogram: each bucket counts the durations at or
  below its bound, buckets never decrease from one bound to the next and never exceed the
  total count (the \<^verbatim>\<open>+Inf\<close> bucket), and the sum is exact while the absolute durations stay
  below \<open>2 ^ 53\<close> ms in total, where \<^verbatim>\<open>double\<close> addition is exact.
\<close>
theorem histogram_cumulative:
  assumes "durations cold evs \<noteq> []"
  shows "\<exists>h. om_find (duration_histograms (foldl record_event init_metrics evs)) cold = Some h
    \<and> bucket_counts h = map (\<lambda>b. int (length (filter (\<lambda>d. d \<le> b) (durations cold evs)))) kBucketsMs
    \<and> sorted (bucket_counts h) \<and> list_all (\<lambda>n. n \<le> h_count h) (bucket_counts h)
    \<and> h_count h = int (length (durations cold evs))
    \<and> (sum_list (map abs (durations cold evs)) < 2 ^ 53 \<longrightarrow> sum_ms h = sum_list (durations cold evs))"
proof -
  let ?ds = "durations cold evs"
  have "om_find (duration_histograms (foldl record_event init_metrics evs)) cold = Some (hist_of ?ds)"
    using reflects_fold [of evs] assms by (simp add: reflects_def)
  moreover have b: "bucket_counts (hist_of ?ds) = map (at_most ?ds) kBucketsMs" using assms by (rule hist_of_buckets)
  moreover have "sorted (map (at_most ?ds) kBucketsMs)" using kBucketsMs_sorted by (rule at_most_sorted)
  moreover have "list_all (\<lambda>n. n \<le> h_count (hist_of ?ds)) (map (at_most ?ds) kBucketsMs)"
    by (simp add: hist_of_count list_all_iff at_most_le_length)
  ultimately show ?thesis
    using hist_of_count [of ?ds] hist_of_sum [of ?ds] by (simp add: at_most_def [abs_def])
qed

theorem histogram_cumulative_witness:
  "\<exists>h. om_find (duration_histograms (foldl record_event init_metrics
      [(''success'', False, 3), (''error'', False, 7), (''success'', True, 900)])) False = Some h
    \<and> bucket_counts h = [0, 1, 2, 2, 2, 2, 2, 2, 2, 2, 2, 2] \<and> sum_ms h = 10"
  using histogram_cumulative [of False "[(''success'', False, 3), (''error'', False, 7), (''success'', True, 900)]"]
  by (auto simp: durations_def kBucketsMs_def)

text \<open>
  The exposition shows what was recorded: for every status and cold flag that occurs
  among the recorded invocations there is a line with the number of times it occurs, and
  the gauge line shows the number of active runtimes it was given.
\<close>
theorem render_shows_counts:
  assumes "occurrences status cold evs \<noteq> 0"
  shows "sublist (''faas_invocations_total{status='' @ DQ @ status @ DQ @ '',cold_start='' @ DQ
      @ (if cold then ''true'' else ''false'') @ DQ @ ''} '' @ show_int (occurrences status cold evs) @ [LF])
      (render active (foldl record_event init_metrics evs))
    \<and> sublist (''faas_active_runtimes '' @ show_int active @ [LF]) (render active (foldl record_event init_metrics evs))"
proof -
  let ?m = "foldl record_event init_metrics evs"
  have "om_find (invocation_counts ?m) (status, cold) = Some (occurrences status cold evs)"
    using reflects_fold [of evs] assms by (simp add: reflects_def)
  then have "((status, cold), occurrences status cold evs) \<in> set (invocation_counts ?m)" by (rule om_find_in)
  from render_contains(4) [OF this] render_contains(1) show ?thesis by (simp add: invocation_line_def bool_str_def)
qed

theorem render_shows_counts_witness:
  "sublist (''faas_invocations_total{status='' @ DQ @ ''success'' @ DQ @ '',cold_start='' @ DQ @ ''true'' @ DQ @ ''} '' @ show_int 1 @ [LF])
     (render 4 (foldl record_event init_metrics [(''success'', True, 900)]))"
  using render_shows_counts [of "''success''" True "[(''success'', True, 900)]" 4] by (simp add: occurrences_def)

section \<open>Doubles in the metrics\<close>

text \<open>
  The integers by which the metrics' doubles are modelled behave like the doubles: the
  text of a finite double that equals the integer \<open>n\<close> is the one computed from \<open>n\<close> (the stream's
  six significant digits, exponent form from a million on), and rounding an integer result,
  as adding to a histogram's sum does, gives the IEEE double nearest to it, ties to even.
\<close>
theorem metrics_doubles:
  assumes "dbl_finite x" "dbl_value x = of_int n" "n = 0 \<Longrightarrow> \<not> dbl_neg x"
  shows "double_text x = show_double n
    \<and> real_of_int (round53 k) = (if k < 0 then - mag_value (round_bits (- k) 1) else mag_value (round_bits k 1))"
proof
  show "double_text x = show_double n" using assms by (rule integral_double_text)
  have neg: "round53 (- k) = - round53 k" by (simp add: round53_def Let_def)
  consider "k = 0" | "0 < k" | "k < 0" by linarith
  then show "real_of_int (round53 k) = (if k < 0 then - mag_value (round_bits (- k) 1) else mag_value (round_bits k 1))"
    by cases (use round53_ieee_pos [of k] round53_ieee_pos [of "- k"] neg in
      \<open>simp_all add: round_bits_def mag_value_def mag_parts_def round53_def Let_def\<close>)
qed

theorem metrics_doubles_witness: "double_text 0x4093480000000000 = show_double 1234 \<and> show_double 1234 = ''1234''"
proof -
  have "dbl_mag 0x4093480000000000 = 0x4093480000000000" "\<not> dbl_neg 0x4093480000000000" by code_simp+
  moreover have "dbl_finite 0x4093480000000000" by code_simp
  moreover have "mag_parts 0x4093480000000000 = (5427189394702336, - 42)" by code_simp
  ultimately have "dbl_finite 0x4093480000000000" "dbl_value 0x4093480000000000 = of_int 1234" "\<not> dbl_neg 0x4093480000000000"
    by (simp_all add: dbl_value_def mag_value_def power_int_minus)
  moreover have "show_double 1234 = ''1234''" by code_simp
  ultimately show ?thesis using metrics_doubles [of "0x4093480000000000" 1234] by simp
qed

end
