(* ===== verification/Database.thy ===== *)
theory Database
  imports Prelude
begin

text \<open>
  \<^verbatim>\<open>control-plane/src/database.cpp\<close>: the wrapper around one SQLite connection. The SQLite C
  library is not part of the repository: it is a parameter, a record of the functions the
  wrapper calls, over a type \<open>'d\<close> of connections and a type \<open>'st\<close> of prepared statements.
  Nothing is assumed of it here; what the two stores rely on is stated next to them.
\<close>

section \<open>The SQLite functions\<close>

text \<open>
  The result codes of \<^verbatim>\<open>sqlite3_step\<close> the wrapper tells apart; every other code comes with the
  message of \<^verbatim>\<open>sqlite3_errmsg\<close>. A missing error message is a null pointer.
\<close>

datatype step_rc = SQLITE_ROW | SQLITE_DONE | SQLITE_FAILED string

record ('d, 'st) sqlite3 =
  sq_open :: "string \<Rightarrow> string option + 'd"
  sq_exec :: "'d \<Rightarrow> string \<Rightarrow> (string option + unit) \<times> 'd"
  sq_prepare :: "'d \<Rightarrow> string \<Rightarrow> string + 'st"
  sq_bind_text :: "'st \<Rightarrow> nat \<Rightarrow> string \<Rightarrow> 'st"
  sq_bind_int64 :: "'st \<Rightarrow> nat \<Rightarrow> c_long \<Rightarrow> 'st"
  sq_bind_double :: "'st \<Rightarrow> nat \<Rightarrow> c_double \<Rightarrow> 'st"
  sq_step :: "'d \<Rightarrow> 'st \<Rightarrow> step_rc \<times> 'd \<times> 'st"
  sq_column_text :: "'st \<Rightarrow> nat \<Rightarrow> string option"
  sq_column_int64 :: "'st \<Rightarrow> nat \<Rightarrow> c_long"
  sq_column_double :: "'st \<Rightarrow> nat \<Rightarrow> c_double"
  sq_changes :: "'d \<Rightarrow> c_int"
  sq_last_insert_rowid :: "'d \<Rightarrow> c_long"

section \<open>The wrapper\<close>

text \<open>
  A result is the message of the \<^verbatim>\<open>std::runtime_error\<close> that is thrown, or a value.
\<close>

definition db_open :: "('d, 'st) sqlite3 \<Rightarrow> string \<Rightarrow> string + 'd" where
  "db_open api path =
     (case sq_open api (c_str path) of
        Inr d \<Rightarrow> Inr d
      | Inl err \<Rightarrow> Inl (''failed to open database at '' @ path @ '': ''
           @ (case err of None \<Rightarrow> ''unknown error'' | Some e \<Rightarrow> e)))"

definition db_exec :: "('d, 'st) sqlite3 \<Rightarrow> string \<Rightarrow> 'd \<Rightarrow> (string + unit) \<times> 'd" where
  "db_exec api sql d =
     (case sq_exec api d (c_str sql) of
        (Inr _, d') \<Rightarrow> (Inr (), d')
      | (Inl err, d') \<Rightarrow> (Inl (''sqlite exec failed: '' @ (case err of None \<Rightarrow> ''unknown error'' | Some e \<Rightarrow> e)), d'))"

definition db_changes :: "('d, 'st) sqlite3 \<Rightarrow> 'd \<Rightarrow> int" where
  "db_changes api d = sint (sq_changes api d)"

definition db_last_insert_id :: "('d, 'st) sqlite3 \<Rightarrow> 'd \<Rightarrow> c_long" where
  "db_last_insert_id api d = sq_last_insert_rowid api d"

definition stmt_new :: "('d, 'st) sqlite3 \<Rightarrow> string \<Rightarrow> 'd \<Rightarrow> string + 'st" where
  "stmt_new api sql d =
     (case sq_prepare api d (c_str sql) of
        Inr st \<Rightarrow> Inr st
      | Inl err \<Rightarrow> Inl (''failed to prepare statement: '' @ err))"

text \<open>A bound text ends at its first NUL byte: it is passed as a C string of unknown length.\<close>

definition bind_text :: "('d, 'st) sqlite3 \<Rightarrow> nat \<Rightarrow> string \<Rightarrow> 'st \<Rightarrow> 'st" where
  "bind_text api index value st = sq_bind_text api st index (c_str value)"

definition bind_long :: "('d, 'st) sqlite3 \<Rightarrow> nat \<Rightarrow> c_long \<Rightarrow> 'st \<Rightarrow> 'st" where
  "bind_long api index value st = sq_bind_int64 api st index value"

definition bind_double :: "('d, 'st) sqlite3 \<Rightarrow> nat \<Rightarrow> c_double \<Rightarrow> 'st \<Rightarrow> 'st" where
  "bind_double api index value st = sq_bind_double api st index value"

definition stmt_step :: "('d, 'st) sqlite3 \<Rightarrow> 'd \<Rightarrow> 'st \<Rightarrow> (string + bool) \<times> 'd \<times> 'st" where
  "stmt_step api d st =
     (case sq_step api d st of
        (SQLITE_ROW, d', st') \<Rightarrow> (Inr True, d', st')
      | (SQLITE_DONE, d', st') \<Rightarrow> (Inr False, d', st')
      | (SQLITE_FAILED msg, d', st') \<Rightarrow> (Inl (''sqlite step failed: '' @ msg), d', st'))"

definition column_text :: "('d, 'st) sqlite3 \<Rightarrow> nat \<Rightarrow> 'st \<Rightarrow> string" where
  "column_text api index st = (case sq_column_text api st index of None \<Rightarrow> '''' | Some t \<Rightarrow> c_str t)"

definition column_int64 :: "('d, 'st) sqlite3 \<Rightarrow> nat \<Rightarrow> 'st \<Rightarrow> c_long" where
  "column_int64 api index st = sq_column_int64 api st index"

definition column_double :: "('d, 'st) sqlite3 \<Rightarrow> nat \<Rightarrow> 'st \<Rightarrow> c_double" where
  "column_double api index st = sq_column_double api st index"

section \<open>Values and parameters\<close>

text \<open>
  The values SQLite stores, the values bound to a statement, and what a statement holds
  when it is on a row. \<open>binds\<close> are the bind calls the wrapper makes, in any order.
\<close>

datatype sql_value = SText string | SInt c_long | SReal c_double

type_synonym sql_row = "string \<Rightarrow> sql_value option"

definition bind_value :: "('d, 'st) sqlite3 \<Rightarrow> nat \<times> sql_value \<Rightarrow> 'st \<Rightarrow> 'st" where
  "bind_value api b st =
     (case snd b of
        SText t \<Rightarrow> sq_bind_text api st (fst b) t
      | SInt n \<Rightarrow> sq_bind_int64 api st (fst b) n
      | SReal x \<Rightarrow> sq_bind_double api st (fst b) x)"

definition bind_all :: "('d, 'st) sqlite3 \<Rightarrow> (nat \<times> sql_value) list \<Rightarrow> 'st \<Rightarrow> 'st" where
  "bind_all api bs st = fold (bind_value api) bs st"

text \<open>Parameters are numbered from one, in the order of the question marks.\<close>

definition bound_params :: "sql_value list \<Rightarrow> (nat \<times> sql_value) list" where
  "bound_params vs = zip [1..<Suc (length vs)] vs"

definition holds :: "('d, 'st) sqlite3 \<Rightarrow> 'st \<Rightarrow> nat \<Rightarrow> sql_value option \<Rightarrow> bool" where
  "holds api st i v =
     (case v of
        None \<Rightarrow> True
      | Some (SText t) \<Rightarrow> sq_column_text api st i = Some t
      | Some (SInt n) \<Rightarrow> sq_column_int64 api st i = n
      | Some (SReal x) \<Rightarrow> sq_column_double api st i = x)"

text \<open>The statement is on a row whose columns are the given ones of the row.\<close>

definition on_row :: "('d, 'st) sqlite3 \<Rightarrow> 'st \<Rightarrow> string list \<Rightarrow> sql_row \<Rightarrow> bool" where
  "on_row api st cols row \<longleftrightarrow> list_all (\<lambda>i. holds api st i (row (cols ! i))) [0..<length cols]"

text \<open>Not-a-number is stored as NULL and the negative zero loses its sign.\<close>

definition storable_real :: "c_double \<Rightarrow> bool" where
  "storable_real x \<longleftrightarrow> x \<noteq> 0x8000000000000000
     \<and> \<not> (0x7FF0000000000000 < x mod 0x8000000000000000)"

lemma c_str_idem [simp]: "c_str (c_str s) = c_str s"
  by (simp add: c_str_def takeWhile_idem)

lemma on_rowD: "on_row api st cols row \<Longrightarrow> i < length cols \<Longrightarrow> holds api st i (row (cols ! i))"
  by (simp add: on_row_def list_all_iff)

lemma column_holds:
  "holds api st i (Some (SText t)) \<Longrightarrow> column_text api i st = c_str t"
  "holds api st i (Some (SInt n)) \<Longrightarrow> column_int64 api i st = n"
  "holds api st i (Some (SReal x)) \<Longrightarrow> column_double api i st = x"
  by (simp_all add: holds_def column_text_def column_int64_def column_double_def)

section \<open>What a statement leaves alone\<close>

text \<open>
  Executing a statement keeps a part of the database: what the text \<open>sql\<close> does not name, such
  as another table.
\<close>

definition keeps :: "('d, 'st) sqlite3 \<Rightarrow> string \<Rightarrow> ('d \<Rightarrow> 'p) \<Rightarrow> bool" where
  "keeps api sql part \<longleftrightarrow>
     (\<forall>d st0 bs. sq_prepare api d sql = Inr st0 \<longrightarrow> part (fst (snd (sq_step api d (bind_all api bs st0)))) = part d)"

lemma keepsD:
  assumes "keeps api sql part" "stmt_new api sql d = Inr st0" "c_str sql = sql" "stmt_step api d (bind_all api bs st0) = (x, d', st')"
  shows "part d' = part d"
proof -
  have "sq_prepare api d sql = Inr st0" using assms(2,3) by (auto simp: stmt_new_def split: sum.splits)
  with assms(1) have "part (fst (snd (sq_step api d (bind_all api bs st0)))) = part d" unfolding keeps_def by blast
  moreover have "fst (snd (sq_step api d (bind_all api bs st0))) = d'"
    using assms(4) by (auto simp: stmt_step_def split: prod.splits step_rc.splits)
  ultimately show ?thesis by simp
qed

lemma binds_all:
  "bind_text api i t st = bind_all api [(i, SText (c_str t))] st"
  "bind_long api i n st = bind_all api [(i, SInt n)] st"
  "bind_double api i x st = bind_all api [(i, SReal x)] st"
  "bind_all api bs (bind_all api cs st) = bind_all api (cs @ bs) st"
  by (simp_all add: bind_all_def bind_value_def bind_text_def bind_long_def bind_double_def)

end
