(* ===== verification/Function_Registry.thy ===== *)
theory Function_Registry
  imports Database Function_Spec
begin

text \<open>
  \<^verbatim>\<open>control-plane/src/function_registry.cpp\<close>: the registered functions, kept in a table of the
  database. The statements are the literal SQL texts of the source; what SQLite does on
  them is stated as laws (\<open>upsert_law\<close>, \<open>select_law\<close>, \<open>delete_law\<close>, \<open>select_all_law\<close>) over the rows of
  the table by column name, so that the order in which the code binds parameters and reads
  columns is part of what is proved.
\<close>

section \<open>Definitions\<close>

definition kCreateFunctionsSql :: string where
  "kCreateFunctionsSql = [LF] @ ''CREATE TABLE IF NOT EXISTS functions ('' @ [LF]
     @ ''    name TEXT PRIMARY KEY,'' @ [LF]
     @ ''    version INTEGER NOT NULL,'' @ [LF]
     @ ''    image TEXT NOT NULL,'' @ [LF]
     @ ''    timeout_ms INTEGER NOT NULL,'' @ [LF]
     @ ''    memory_mb INTEGER NOT NULL,'' @ [LF]
     @ ''    cpu REAL NOT NULL,'' @ [LF]
     @ ''    max_concurrency INTEGER NOT NULL,'' @ [LF]
     @ ''    idle_timeout_ms INTEGER NOT NULL,'' @ [LF]
     @ ''    status TEXT NOT NULL,'' @ [LF]
     @ ''    created_at INTEGER NOT NULL'' @ [LF] @ '');'' @ [LF]"

definition kSelectColumns :: string where
  "kSelectColumns = ''name, version, image, timeout_ms, memory_mb, cpu, max_concurrency, idle_timeout_ms, status, created_at''"

definition kUpsertSql :: string where
  "kUpsertSql = [LF]
     @ ''            INSERT INTO functions (name, version, image, timeout_ms, memory_mb, cpu, max_concurrency, idle_timeout_ms, status, created_at)'' @ [LF]
     @ ''            VALUES (?, ?, ?, ?, ?, ?, ?, ?, ?, strftime('' @ [CHR 0x27] @ ''%s'' @ [CHR 0x27] @ '', '' @ [CHR 0x27] @ ''now'' @ [CHR 0x27] @ ''))'' @ [LF]
     @ ''            ON CONFLICT(name) DO UPDATE SET'' @ [LF]
     @ ''                version = excluded.version,'' @ [LF]
     @ ''                image = excluded.image,'' @ [LF]
     @ ''                timeout_ms = excluded.timeout_ms,'' @ [LF]
     @ ''                memory_mb = excluded.memory_mb,'' @ [LF]
     @ ''                cpu = excluded.cpu,'' @ [LF]
     @ ''                max_concurrency = excluded.max_concurrency,'' @ [LF]
     @ ''                idle_timeout_ms = excluded.idle_timeout_ms,'' @ [LF]
     @ ''                status = excluded.status,'' @ [LF]
     @ ''                created_at = strftime('' @ [CHR 0x27] @ ''%s'' @ [CHR 0x27] @ '', '' @ [CHR 0x27] @ ''now'' @ [CHR 0x27] @ '')'' @ [LF]
     @ ''        ''"

definition kSelectOneSql :: string where
  "kSelectOneSql = ''SELECT '' @ kSelectColumns @ '' FROM functions WHERE name = ?''"

definition kDeleteSql :: string where
  "kDeleteSql = ''DELETE FROM functions WHERE name = ?''"

definition kSelectAllSql :: string where
  "kSelectAllSql = ''SELECT '' @ kSelectColumns @ '' FROM functions''"

definition row_to_function :: "('d, 'st) sqlite3 \<Rightarrow> 'st \<Rightarrow> function_rec" where
  "row_to_function api st =
     \<lparr>fn_spec =
        \<lparr>fs_name = column_text api 0 st,
         fs_version = ucast (column_int64 api 1 st),
         fs_image = column_text api 2 st,
         fs_timeout_ms = ucast (column_int64 api 3 st),
         fs_memory_mb = ucast (column_int64 api 4 st),
         fs_cpu = column_double api 5 st,
         fs_max_concurrency = ucast (column_int64 api 6 st),
         fs_idle_timeout_ms = column_int64 api 7 st\<rparr>,
      fn_status = FN_READY,
      fn_created_at = column_int64 api 9 st\<rparr>"

definition registry_new :: "('d, 'st) sqlite3 \<Rightarrow> 'd \<Rightarrow> (string + unit) \<times> 'd" where
  "registry_new api d = db_exec api kCreateFunctionsSql d"

text \<open>The block of \<^verbatim>\<open>register_function\<close> that holds the database's lock.\<close>

definition register_insert :: "('d, 'st) sqlite3 \<Rightarrow> function_spec \<Rightarrow> 'd \<Rightarrow> (string + unit) \<times> 'd" where
  "register_insert api spec d =
     (case stmt_new api kUpsertSql d of
        Inl e \<Rightarrow> (Inl e, d)
      | Inr st0 \<Rightarrow>
          let st1 = bind_text api 1 (fs_name spec) st0;
              st2 = bind_long api 2 (scast (fs_version spec)) st1;
              st3 = bind_text api 3 (fs_image spec) st2;
              st4 = bind_long api 4 (scast (fs_timeout_ms spec)) st3;
              st5 = bind_long api 5 (scast (fs_memory_mb spec)) st4;
              st6 = bind_double api 6 (fs_cpu spec) st5;
              st7 = bind_long api 7 (scast (fs_max_concurrency spec)) st6;
              st8 = bind_long api 8 (fs_idle_timeout_ms spec) st7;
              st9 = bind_text api 9 (function_status_to_string FN_READY) st8
          in case stmt_step api d st9 of
               (Inl e, d', _) \<Rightarrow> (Inl e, d')
             | (Inr _, d', _) \<Rightarrow> (Inr (), d'))"

definition registry_get :: "('d, 'st) sqlite3 \<Rightarrow> string \<Rightarrow> 'd \<Rightarrow> (string + function_rec option) \<times> 'd" where
  "registry_get api nm d =
     (case stmt_new api kSelectOneSql d of
        Inl e \<Rightarrow> (Inl e, d)
      | Inr st0 \<Rightarrow>
          (case stmt_step api d (bind_text api 1 nm st0) of
             (Inl e, d', _) \<Rightarrow> (Inl e, d')
           | (Inr False, d', _) \<Rightarrow> (Inr None, d')
           | (Inr True, d', st') \<Rightarrow> (Inr (Some (row_to_function api st')), d')))"

text \<open>
  \<^verbatim>\<open>return *get(spec.name)\<close>, after the lock was released: an empty optional is dereferenced,
  which is undefined, when the row is gone by then.
\<close>

datatype registry_error = DbError string | EmptyOptional

definition register_return :: "('d, 'st) sqlite3 \<Rightarrow> function_spec \<Rightarrow> 'd \<Rightarrow> (registry_error + function_rec) \<times> 'd" where
  "register_return api spec d =
     (case registry_get api (fs_name spec) d of
        (Inl e, d') \<Rightarrow> (Inl (DbError e), d')
      | (Inr None, d') \<Rightarrow> (Inl EmptyOptional, d')
      | (Inr (Some fn), d') \<Rightarrow> (Inr fn, d'))"

definition register_function :: "('d, 'st) sqlite3 \<Rightarrow> function_spec \<Rightarrow> 'd \<Rightarrow> (registry_error + function_rec) \<times> 'd" where
  "register_function api spec d =
     (case register_insert api spec d of
        (Inl e, d') \<Rightarrow> (Inl (DbError e), d')
      | (Inr _, d') \<Rightarrow> register_return api spec d')"

definition registry_remove :: "('d, 'st) sqlite3 \<Rightarrow> string \<Rightarrow> 'd \<Rightarrow> (string + bool) \<times> 'd" where
  "registry_remove api nm d =
     (case stmt_new api kDeleteSql d of
        Inl e \<Rightarrow> (Inl e, d)
      | Inr st0 \<Rightarrow>
          (case stmt_step api d (bind_text api 1 nm st0) of
             (Inl e, d', _) \<Rightarrow> (Inl e, d')
           | (Inr _, d', _) \<Rightarrow> (Inr (0 < db_changes api d'), d')))"

partial_function (option) list_rows ::
  "('d, 'st) sqlite3 \<Rightarrow> 'd \<Rightarrow> 'st \<Rightarrow> function_rec list \<Rightarrow> ((string + function_rec list) \<times> 'd) option" where
  "list_rows api d st result =
     (case stmt_step api d st of
        (Inl e, d', _) \<Rightarrow> Some (Inl e, d')
      | (Inr row, d', st') \<Rightarrow>
          if row then list_rows api d' st' (result @ [row_to_function api st']) else Some (Inr result, d'))"

declare list_rows.simps [code]

definition registry_list :: "('d, 'st) sqlite3 \<Rightarrow> 'd \<Rightarrow> ((string + function_rec list) \<times> 'd) option" where
  "registry_list api d =
     (case stmt_new api kSelectAllSql d of
        Inl e \<Rightarrow> Some (Inl e, d)
      | Inr st0 \<Rightarrow> list_rows api d st0 [])"

section \<open>What SQLite does on these statements\<close>

text \<open>The columns of the table, in the order of the column lists in both SQL texts.\<close>

definition function_columns :: "string list" where
  "function_columns = [''name'', ''version'', ''image'', ''timeout_ms'', ''memory_mb'', ''cpu'', ''max_concurrency'',
     ''idle_timeout_ms'', ''status'', ''created_at'']"

definition nul_free :: "sql_value \<Rightarrow> bool" where
  "nul_free v = (case v of SText t \<Rightarrow> NUL \<notin> set t | SReal x \<Rightarrow> storable_real x | SInt _ \<Rightarrow> True)"

text \<open>
  \<open>ok d\<close>: the connection is open and the schema is there; \<open>tbl d\<close>: the rows by primary key.
  The upsert puts the bound values into the named columns and the current time into
  \<^verbatim>\<open>created_at\<close>, replacing a row of the same name.
\<close>

definition upsert_law :: "('d, 'st) sqlite3 \<Rightarrow> ('d \<Rightarrow> bool) \<Rightarrow> ('d \<Rightarrow> string \<Rightarrow> sql_row option) \<Rightarrow> bool" where
  "upsert_law api ok tbl \<longleftrightarrow>
     (\<forall>d k vs. ok d \<and> length vs = 8 \<and> list_all nul_free (SText k # vs) \<longrightarrow>
        (\<exists>st0 st1 d' now. sq_prepare api d kUpsertSql = Inr st0
           \<and> sq_step api d (bind_all api (bound_params (SText k # vs)) st0) = (SQLITE_DONE, d', st1)
           \<and> ok d' \<and> tbl d' = (tbl d)(k \<mapsto> map_of (zip function_columns (SText k # vs @ [SInt now])))))"

definition select_law :: "('d, 'st) sqlite3 \<Rightarrow> ('d \<Rightarrow> bool) \<Rightarrow> ('d \<Rightarrow> string \<Rightarrow> sql_row option) \<Rightarrow> bool" where
  "select_law api ok tbl \<longleftrightarrow>
     (\<forall>d k. ok d \<and> NUL \<notin> set k \<longrightarrow>
        (\<exists>st0 st1 d'. sq_prepare api d kSelectOneSql = Inr st0 \<and> ok d' \<and> tbl d' = tbl d
           \<and> (case tbl d k of
                None \<Rightarrow> sq_step api d (bind_all api (bound_params [SText k]) st0) = (SQLITE_DONE, d', st1)
              | Some row \<Rightarrow> sq_step api d (bind_all api (bound_params [SText k]) st0) = (SQLITE_ROW, d', st1)
                  \<and> on_row api st1 function_columns row)))"

definition delete_law :: "('d, 'st) sqlite3 \<Rightarrow> ('d \<Rightarrow> bool) \<Rightarrow> ('d \<Rightarrow> string \<Rightarrow> sql_row option) \<Rightarrow> bool" where
  "delete_law api ok tbl \<longleftrightarrow>
     (\<forall>d k. ok d \<and> NUL \<notin> set k \<longrightarrow>
        (\<exists>st0 st1 d'. sq_prepare api d kDeleteSql = Inr st0
           \<and> sq_step api d (bind_all api (bound_params [SText k]) st0) = (SQLITE_DONE, d', st1)
           \<and> ok d' \<and> tbl d' = (tbl d)(k := None)
           \<and> sq_changes api d' = (if tbl d k = None then 0 else 1)))"

text \<open>
  Selecting everything gives each row once, in some order, and then ends, leaving the table
  as it was (\<open>fin\<close>).
\<close>

fun row_steps ::
  "('d, 'st) sqlite3 \<Rightarrow> ('d \<Rightarrow> bool) \<Rightarrow> (string \<Rightarrow> sql_row option) \<Rightarrow> 'd \<Rightarrow> 'st \<Rightarrow> string list \<Rightarrow> bool" where
  "row_steps api fin t d st [] = (\<exists>d' st'. sq_step api d st = (SQLITE_DONE, d', st') \<and> fin d')"
| "row_steps api fin t d st (k # ks) =
     (\<exists>d' st' row. sq_step api d st = (SQLITE_ROW, d', st') \<and> t k = Some row
        \<and> on_row api st' function_columns row \<and> row_steps api fin t d' st' ks)"

definition select_all_law :: "('d, 'st) sqlite3 \<Rightarrow> ('d \<Rightarrow> bool) \<Rightarrow> ('d \<Rightarrow> string \<Rightarrow> sql_row option) \<Rightarrow> bool" where
  "select_all_law api ok tbl \<longleftrightarrow>
     (\<forall>d. ok d \<longrightarrow> (\<exists>st0 ks. sq_prepare api d kSelectAllSql = Inr st0 \<and> distinct ks \<and> set ks = dom (tbl d)
        \<and> row_steps api (\<lambda>d'. ok d' \<and> tbl d' = tbl d) (tbl d) d st0 ks))"

text \<open>The SQL texts name the columns in this order.\<close>

lemma select_columns_text: "kSelectColumns = concat (map (\<lambda>c. c @ '', '') (butlast function_columns)) @ last function_columns"
  by (simp add: kSelectColumns_def function_columns_def)

section \<open>The registry is a map\<close>

lemma params_9: "bound_params [a, b, c, d, e, f, g, h, i] =
    [(1, a), (2, b), (3, c), (4, d), (5, e), (6, f), (7, g), (8, h), (9, i)]"
  by (simp add: bound_params_def upt_rec)

lemma params_1: "bound_params [a] = [(1, a)]"
  by (simp add: bound_params_def upt_rec)

definition spec_values :: "function_spec \<Rightarrow> sql_value list" where
  "spec_values spec = [SInt (scast (fs_version spec)), SText (c_str (fs_image spec)), SInt (scast (fs_timeout_ms spec)),
     SInt (scast (fs_memory_mb spec)), SReal (fs_cpu spec), SInt (scast (fs_max_concurrency spec)),
     SInt (fs_idle_timeout_ms spec), SText (function_status_to_string FN_READY)]"

definition spec_row :: "function_spec \<Rightarrow> c_long \<Rightarrow> sql_row" where
  "spec_row spec now = map_of (zip function_columns (SText (c_str (fs_name spec)) # spec_values spec @ [SInt now]))"

text \<open>What is stored of a function: its names up to their first NUL byte, all else as given.\<close>

definition stored :: "function_spec \<Rightarrow> function_spec" where
  "stored spec = spec\<lparr>fs_name := c_str (fs_name spec), fs_image := c_str (fs_image spec)\<rparr>"

lemma c_str_nul_free: "NUL \<notin> set (c_str s)"
  by (auto simp: c_str_def dest: set_takeWhileD)

lemma sql_no_nul:
  "c_str kUpsertSql = kUpsertSql" "c_str kSelectOneSql = kSelectOneSql" "c_str kDeleteSql = kDeleteSql"
  by code_simp+

lemma ucast_scast_int: "ucast (scast (x :: c_int) :: c_long) = x"
  by (rule bit_word_eqI) (simp add: bit_simps)

lemma row_to_function_spec_row:
  assumes "on_row api st function_columns (spec_row spec now)"
  shows "row_to_function api st = \<lparr>fn_spec = stored spec, fn_status = FN_READY, fn_created_at = now\<rparr>"
proof -
  have len: "length function_columns = 10" by (simp add: function_columns_def)
  have h: "holds api st i (spec_row spec now (function_columns ! i))" if "i < 10" for i
    using on_rowD [OF assms] that by (simp add: len)
  have r: "spec_row spec now (function_columns ! 0) = Some (SText (c_str (fs_name spec)))"
    "spec_row spec now (function_columns ! 1) = Some (SInt (scast (fs_version spec)))"
    "spec_row spec now (function_columns ! 2) = Some (SText (c_str (fs_image spec)))"
    "spec_row spec now (function_columns ! 3) = Some (SInt (scast (fs_timeout_ms spec)))"
    "spec_row spec now (function_columns ! 4) = Some (SInt (scast (fs_memory_mb spec)))"
    "spec_row spec now (function_columns ! 5) = Some (SReal (fs_cpu spec))"
    "spec_row spec now (function_columns ! 6) = Some (SInt (scast (fs_max_concurrency spec)))"
    "spec_row spec now (function_columns ! 7) = Some (SInt (fs_idle_timeout_ms spec))"
    "spec_row spec now (function_columns ! 9) = Some (SInt now)"
    by (simp_all add: spec_row_def spec_values_def function_columns_def)
  have c: "column_text api 0 st = c_str (fs_name spec)" "column_int64 api 1 st = scast (fs_version spec)"
    "column_text api 2 st = c_str (fs_image spec)" "column_int64 api 3 st = scast (fs_timeout_ms spec)"
    "column_int64 api 4 st = scast (fs_memory_mb spec)" "column_double api 5 st = fs_cpu spec"
    "column_int64 api 6 st = scast (fs_max_concurrency spec)" "column_int64 api 7 st = fs_idle_timeout_ms spec"
    "column_int64 api 9 st = now"
    using h [of 0] h [of 1] h [of 2] h [of 3] h [of 4] h [of 5] h [of 6] h [of 7] h [of 9]
    unfolding r by (simp_all add: column_holds)
  show ?thesis
    unfolding row_to_function_def c stored_def ucast_scast_int by simp
qed

lemma register_insert_ok:
  assumes "upsert_law api ok tbl" "ok d" "storable_real (fs_cpu spec)"
  shows "\<exists>d' now. register_insert api spec d = (Inr (), d') \<and> ok d'
    \<and> tbl d' = (tbl d)(c_str (fs_name spec) \<mapsto> spec_row spec now)"
proof -
  have "length (spec_values spec) = 8" "list_all nul_free (SText (c_str (fs_name spec)) # spec_values spec)"
    using assms(3) by (simp_all add: spec_values_def nul_free_def c_str_nul_free function_status_to_string_def)
  with assms(1,2) obtain st0 st1 d' now where *: "sq_prepare api d kUpsertSql = Inr st0"
    "sq_step api d (bind_all api (bound_params (SText (c_str (fs_name spec)) # spec_values spec)) st0) = (SQLITE_DONE, d', st1)"
    "ok d'" "tbl d' = (tbl d)(c_str (fs_name spec) \<mapsto> spec_row spec now)"
    unfolding upsert_law_def spec_row_def by blast
  have "c_str (function_status_to_string FN_READY) = function_status_to_string FN_READY"
    by (simp add: c_str_def function_status_to_string_def)
  with *(2) have "sq_step api d (bind_text api 9 (function_status_to_string FN_READY)
      (bind_long api 8 (fs_idle_timeout_ms spec) (bind_long api 7 (scast (fs_max_concurrency spec))
      (bind_double api 6 (fs_cpu spec) (bind_long api 5 (scast (fs_memory_mb spec))
      (bind_long api 4 (scast (fs_timeout_ms spec)) (bind_text api 3 (fs_image spec)
      (bind_long api 2 (scast (fs_version spec)) (bind_text api 1 (fs_name spec) st0))))))))) = (SQLITE_DONE, d', st1)"
    unfolding spec_values_def params_9
    by (simp add: bind_all_def bind_value_def bind_text_def bind_long_def bind_double_def)
  with *(1,3,4) show ?thesis
    by (auto simp: register_insert_def stmt_new_def sql_no_nul stmt_step_def Let_def)
qed

lemma bind_one: "bind_all api (bound_params [SText (c_str k)]) st = bind_text api 1 k st"
  by (simp add: params_1 bind_all_def bind_value_def bind_text_def)

lemma registry_get_ok:
  assumes "select_law api ok tbl" "ok d"
  shows "\<exists>d'. ok d' \<and> tbl d' = tbl d \<and>
    (case tbl d (c_str k) of
       None \<Rightarrow> registry_get api k d = (Inr None, d')
     | Some row \<Rightarrow> \<exists>st. on_row api st function_columns row \<and> registry_get api k d = (Inr (Some (row_to_function api st)), d'))"
proof -
  obtain st0 st1 d' where *: "sq_prepare api d kSelectOneSql = Inr st0" "ok d'" "tbl d' = tbl d"
    "case tbl d (c_str k) of
       None \<Rightarrow> sq_step api d (bind_text api 1 k st0) = (SQLITE_DONE, d', st1)
     | Some row \<Rightarrow> sq_step api d (bind_text api 1 k st0) = (SQLITE_ROW, d', st1) \<and> on_row api st1 function_columns row"
    using assms c_str_nul_free [of k] unfolding select_law_def bind_one [symmetric] by blast
  then show ?thesis
    by (intro exI [of _ d']) (auto simp: registry_get_def stmt_new_def sql_no_nul stmt_step_def split: option.splits)
qed

lemma registry_remove_ok:
  assumes "delete_law api ok tbl" "ok d"
  shows "\<exists>d'. registry_remove api k d = (Inr (tbl d (c_str k) \<noteq> None), d') \<and> ok d'
    \<and> tbl d' = (tbl d)(c_str k := None)"
proof -
  obtain st0 st1 d' where *: "sq_prepare api d kDeleteSql = Inr st0"
    "sq_step api d (bind_text api 1 k st0) = (SQLITE_DONE, d', st1)"
    "ok d'" "tbl d' = (tbl d)(c_str k := None)" "sq_changes api d' = (if tbl d (c_str k) = None then 0 else 1)"
    using assms c_str_nul_free [of k] unfolding delete_law_def bind_one [symmetric] by blast
  then show ?thesis
    by (intro exI [of _ d']) (auto simp: registry_remove_def stmt_new_def sql_no_nul stmt_step_def db_changes_def)
qed

text \<open>Registering a function and asking for it, in one thread.\<close>

lemma register_function_ok:
  assumes "upsert_law api ok tbl" "select_law api ok tbl" "ok d" "storable_real (fs_cpu spec)"
  shows "\<exists>d' now. register_function api spec d = (Inr \<lparr>fn_spec = stored spec, fn_status = FN_READY, fn_created_at = now\<rparr>, d')
    \<and> ok d' \<and> tbl d' = (tbl d)(c_str (fs_name spec) \<mapsto> spec_row spec now)"
proof -
  obtain d1 now where 1: "register_insert api spec d = (Inr (), d1)" "ok d1"
    "tbl d1 = (tbl d)(c_str (fs_name spec) \<mapsto> spec_row spec now)"
    using register_insert_ok [OF assms(1,3,4)] by blast
  from registry_get_ok [OF assms(2) 1(2), of "fs_name spec"] 1(3)
  obtain d' st where 2: "ok d'" "tbl d' = tbl d1" "on_row api st function_columns (spec_row spec now)"
    "registry_get api (fs_name spec) d1 = (Inr (Some (row_to_function api st)), d')"
    by auto
  have "register_function api spec d = (Inr (row_to_function api st), d')"
    by (simp add: register_function_def register_return_def 1(1) 2(4))
  with row_to_function_spec_row [OF 2(3)] 1(3) 2(1,2) show ?thesis by metis
qed

text \<open>Rows that the registry itself has written.\<close>

definition rows_ours :: "(string \<Rightarrow> sql_row option) \<Rightarrow> (string \<Rightarrow> function_rec option) \<Rightarrow> bool" where
  "rows_ours t fns \<longleftrightarrow> (\<forall>k. case t k of None \<Rightarrow> fns k = None
     | Some row \<Rightarrow> \<exists>spec now. row = spec_row spec now \<and> c_str (fs_name spec) = k
         \<and> fns k = Some \<lparr>fn_spec = stored spec, fn_status = FN_READY, fn_created_at = now\<rparr>)"

lemma list_rows_ok:
  assumes "rows_ours t fns"
  shows "row_steps api fin t d st ks \<Longrightarrow>
    \<exists>d'. list_rows api d st acc = Some (Inr (acc @ map (\<lambda>k. the (fns k)) ks), d') \<and> fin d'"
proof (induction ks arbitrary: d st acc)
  case Nil
  then show ?case by (subst list_rows.simps) (auto simp: stmt_step_def)
next
  case (Cons k ks)
  then obtain d1 st1 row where 1: "sq_step api d st = (SQLITE_ROW, d1, st1)" "t k = Some row"
    "on_row api st1 function_columns row" "row_steps api fin t d1 st1 ks" by auto
  from 1(2) obtain spec now where "row = spec_row spec now"
    "fns k = Some \<lparr>fn_spec = stored spec, fn_status = FN_READY, fn_created_at = now\<rparr>"
    using assms [unfolded rows_ours_def, rule_format, of k] by auto
  with 1(3) have "row_to_function api st1 = the (fns k)" by (simp add: row_to_function_spec_row)
  with 1(1) Cons.IH [OF 1(4), of "acc @ [the (fns k)]"] show ?case
    by (subst list_rows.simps) (simp add: stmt_step_def)
qed

section \<open>What the operations leave alone\<close>

lemma registry_get_keeps:
  "keeps api kSelectOneSql part \<Longrightarrow> registry_get api nm d = (x, d') \<Longrightarrow> part d' = part d"
  unfolding registry_get_def binds_all
  by (auto simp: sql_no_nul split: sum.splits prod.splits bool.splits dest: keepsD)

lemma registry_remove_keeps:
  "keeps api kDeleteSql part \<Longrightarrow> registry_remove api nm d = (x, d') \<Longrightarrow> part d' = part d"
  unfolding registry_remove_def binds_all
  by (auto simp: sql_no_nul split: sum.splits prod.splits dest: keepsD)

lemma register_insert_keeps:
  "keeps api kUpsertSql part \<Longrightarrow> register_insert api spec d = (x, d') \<Longrightarrow> part d' = part d"
  unfolding register_insert_def binds_all Let_def
  by (auto simp: sql_no_nul split: sum.splits prod.splits dest: keepsD)

end
