(* ===== verification/Invocation_Store.thy ===== *)
theory Invocation_Store
  imports Function_Registry
begin

text \<open>
  \<^verbatim>\<open>control-plane/src/invocation_store.cpp\<close>: the history of invocations, a table whose integer
  key SQLite generates. As for the registry, the SQL texts are literal and SQLite's behaviour
  on them is stated by column name (\<open>insert_invocation_law\<close>, \<open>select_invocation_law\<close>).
\<close>

section \<open>Definitions\<close>

record invocation_record =
  iv_id :: string
  iv_function_name :: string
  iv_input :: string
  iv_output :: string
  iv_status :: string
  iv_duration_ms :: c_long
  iv_cold_start :: bool
  iv_created_at :: c_long

definition kCreateInvocationsSql :: string where
  "kCreateInvocationsSql = [LF] @ ''CREATE TABLE IF NOT EXISTS invocations ('' @ [LF]
     @ ''    id INTEGER PRIMARY KEY AUTOINCREMENT,'' @ [LF]
     @ ''    function_name TEXT NOT NULL,'' @ [LF]
     @ ''    input TEXT NOT NULL,'' @ [LF]
     @ ''    output TEXT NOT NULL,'' @ [LF]
     @ ''    status TEXT NOT NULL,'' @ [LF]
     @ ''    duration_ms INTEGER NOT NULL,'' @ [LF]
     @ ''    cold_start INTEGER NOT NULL,'' @ [LF]
     @ ''    created_at INTEGER NOT NULL'' @ [LF] @ '');'' @ [LF]"

definition kInsertInvocationSql :: string where
  "kInsertInvocationSql = [LF]
     @ ''        INSERT INTO invocations (function_name, input, output, status, duration_ms, cold_start, created_at)'' @ [LF]
     @ ''        VALUES (?, ?, ?, ?, ?, ?, strftime('' @ [CHR 0x27] @ ''%s'' @ [CHR 0x27] @ '', '' @ [CHR 0x27] @ ''now'' @ [CHR 0x27] @ ''))'' @ [LF]
     @ ''    ''"

definition kSelectInvocationSql :: string where
  "kSelectInvocationSql =
     ''SELECT id, function_name, input, output, status, duration_ms, cold_start, created_at ''
     @ ''FROM invocations WHERE id = ?''"

definition store_new :: "('d, 'st) sqlite3 \<Rightarrow> 'd \<Rightarrow> (string + unit) \<times> 'd" where
  "store_new api d = db_exec api kCreateInvocationsSql d"

definition store_record ::
  "('d, 'st) sqlite3 \<Rightarrow> string \<Rightarrow> string \<Rightarrow> string \<Rightarrow> string \<Rightarrow> c_long \<Rightarrow> bool \<Rightarrow> 'd \<Rightarrow> (string + string) \<times> 'd" where
  "store_record api function_name input status out duration_ms cold_start d =
     (case stmt_new api kInsertInvocationSql d of
        Inl e \<Rightarrow> (Inl e, d)
      | Inr st0 \<Rightarrow>
          let st1 = bind_text api 1 function_name st0;
              st2 = bind_text api 2 input st1;
              st3 = bind_text api 3 out st2;
              st4 = bind_text api 4 status st3;
              st5 = bind_long api 5 duration_ms st4;
              st6 = bind_long api 6 (if cold_start then 1 else 0) st5
          in case stmt_step api d st6 of
               (Inl e, d', _) \<Rightarrow> (Inl e, d')
             | (Inr _, d', _) \<Rightarrow> (Inr (show_int (sint (db_last_insert_id api d'))), d'))"

definition row_to_record :: "('d, 'st) sqlite3 \<Rightarrow> 'st \<Rightarrow> invocation_record" where
  "row_to_record api st =
     \<lparr>iv_id = show_int (sint (column_int64 api 0 st)),
      iv_function_name = column_text api 1 st,
      iv_input = column_text api 2 st,
      iv_output = column_text api 3 st,
      iv_status = column_text api 4 st,
      iv_duration_ms = column_int64 api 5 st,
      iv_cold_start = (column_int64 api 6 st \<noteq> 0),
      iv_created_at = column_int64 api 7 st\<rparr>"

definition store_get :: "('d, 'st) sqlite3 \<Rightarrow> string \<Rightarrow> 'd \<Rightarrow> (string + invocation_record option) \<times> 'd" where
  "store_get api i d =
     (case stol i of
        Inl _ \<Rightarrow> (Inr None, d)
      | Inr numeric_id \<Rightarrow>
          (case stmt_new api kSelectInvocationSql d of
             Inl e \<Rightarrow> (Inl e, d)
           | Inr st0 \<Rightarrow>
               (case stmt_step api d (bind_long api 1 (word_of_int numeric_id) st0) of
                  (Inl e, d', _) \<Rightarrow> (Inl e, d')
                | (Inr False, d', _) \<Rightarrow> (Inr None, d')
                | (Inr True, d', st') \<Rightarrow> (Inr (Some (row_to_record api st')), d'))))"

section \<open>What SQLite does on these statements\<close>

definition insert_columns :: "string list" where
  "insert_columns = [''function_name'', ''input'', ''output'', ''status'', ''duration_ms'', ''cold_start'', ''created_at'']"

definition invocation_columns :: "string list" where
  "invocation_columns = [''id'', ''function_name'', ''input'', ''output'', ''status'', ''duration_ms'', ''cold_start'', ''created_at'']"

text \<open>
  The insert makes a row with a key that was not there before, which is the last rowid. Keys
  are 64-bit integers, so this holds while there is \<open>room\<close>: SQLite fails once the largest key
  has been used.
\<close>

definition insert_invocation_law ::
  "('d, 'st) sqlite3 \<Rightarrow> ('d \<Rightarrow> bool) \<Rightarrow> ('d \<Rightarrow> bool) \<Rightarrow> ('d \<Rightarrow> c_long \<Rightarrow> sql_row option) \<Rightarrow> bool" where
  "insert_invocation_law api ok room itbl \<longleftrightarrow>
     (\<forall>d vs. ok d \<and> room d \<and> length vs = 6 \<and> list_all nul_free vs \<longrightarrow>
        (\<exists>st0 st1 d' i now. sq_prepare api d kInsertInvocationSql = Inr st0
           \<and> sq_step api d (bind_all api (bound_params vs) st0) = (SQLITE_DONE, d', st1)
           \<and> ok d' \<and> itbl d i = None \<and> sq_last_insert_rowid api d' = i
           \<and> itbl d' = (itbl d)(i \<mapsto> (map_of (zip insert_columns (vs @ [SInt now])))(''id'' \<mapsto> SInt i))))"

definition select_invocation_law :: "('d, 'st) sqlite3 \<Rightarrow> ('d \<Rightarrow> bool) \<Rightarrow> ('d \<Rightarrow> c_long \<Rightarrow> sql_row option) \<Rightarrow> bool" where
  "select_invocation_law api ok itbl \<longleftrightarrow>
     (\<forall>d i. ok d \<longrightarrow>
        (\<exists>st0 st1 d'. sq_prepare api d kSelectInvocationSql = Inr st0 \<and> ok d' \<and> itbl d' = itbl d
           \<and> (case itbl d i of
                None \<Rightarrow> sq_step api d (bind_all api (bound_params [SInt i]) st0) = (SQLITE_DONE, d', st1)
              | Some row \<Rightarrow> sq_step api d (bind_all api (bound_params [SInt i]) st0) = (SQLITE_ROW, d', st1)
                  \<and> on_row api st1 invocation_columns row)))"

section \<open>The history\<close>

lemma params_6: "bound_params [a, b, c, d, e, f] = [(1, a), (2, b), (3, c), (4, d), (5, e), (6, f)]"
  by (simp add: bound_params_def upt_rec)

lemma invocation_sql_no_nul:
  "c_str kInsertInvocationSql = kInsertInvocationSql" "c_str kSelectInvocationSql = kSelectInvocationSql"
  by code_simp+

definition record_row :: "string \<Rightarrow> string \<Rightarrow> string \<Rightarrow> string \<Rightarrow> c_long \<Rightarrow> bool \<Rightarrow> c_long \<Rightarrow> c_long \<Rightarrow> sql_row" where
  "record_row fname inp st out dur cold i now =
     (map_of (zip insert_columns [SText (c_str fname), SText (c_str inp), SText (c_str out), SText (c_str st),
        SInt dur, SInt (if cold then 1 else 0), SInt now]))(''id'' \<mapsto> SInt i)"

definition stored_record :: "string \<Rightarrow> string \<Rightarrow> string \<Rightarrow> string \<Rightarrow> c_long \<Rightarrow> bool \<Rightarrow> c_long \<Rightarrow> c_long \<Rightarrow> invocation_record" where
  "stored_record fname inp st out dur cold i now =
     \<lparr>iv_id = show_int (sint i), iv_function_name = c_str fname, iv_input = c_str inp, iv_output = c_str out,
      iv_status = c_str st, iv_duration_ms = dur, iv_cold_start = cold, iv_created_at = now\<rparr>"

lemma store_record_ok:
  assumes "insert_invocation_law api ok room itbl" "ok d" "room d"
  shows "\<exists>d' i now. store_record api fname inp st out dur cold d = (Inr (show_int (sint i)), d') \<and> ok d'
    \<and> itbl d i = None \<and> itbl d' = (itbl d)(i \<mapsto> record_row fname inp st out dur cold i now)"
proof -
  let ?vs = "[SText (c_str fname), SText (c_str inp), SText (c_str out), SText (c_str st), SInt dur, SInt (if cold then 1 else 0)]"
  have "length ?vs = 6" "list_all nul_free ?vs" by (simp_all add: nul_free_def c_str_nul_free)
  with assms obtain st0 st1 d' i now where *: "sq_prepare api d kInsertInvocationSql = Inr st0"
    "sq_step api d (bind_all api (bound_params ?vs) st0) = (SQLITE_DONE, d', st1)"
    "ok d'" "itbl d i = None" "sq_last_insert_rowid api d' = i"
    "itbl d' = (itbl d)(i \<mapsto> (map_of (zip insert_columns (?vs @ [SInt now])))(''id'' \<mapsto> SInt i))"
    unfolding insert_invocation_law_def by blast
  have "sq_step api d (bind_long api 6 (if cold then 1 else 0) (bind_long api 5 dur (bind_text api 4 st
      (bind_text api 3 out (bind_text api 2 inp (bind_text api 1 fname st0)))))) = (SQLITE_DONE, d', st1)"
    using *(2) unfolding params_6 by (simp add: bind_all_def bind_value_def bind_text_def bind_long_def)
  then have "store_record api fname inp st out dur cold d = (Inr (show_int (sint i)), d')"
    by (simp add: store_record_def stmt_new_def invocation_sql_no_nul stmt_step_def Let_def *(1,5) db_last_insert_id_def)
  with *(3,4,6) show ?thesis unfolding record_row_def by (metis append_Cons append_Nil)
qed

lemma row_to_record_ok:
  assumes "on_row api s invocation_columns (record_row fname inp st out dur cold i now)"
  shows "row_to_record api s = stored_record fname inp st out dur cold i now"
proof -
  let ?row = "record_row fname inp st out dur cold i now"
  have h: "holds api s j (?row (invocation_columns ! j))" if "j < 8" for j
    using on_rowD [OF assms] that by (simp add: invocation_columns_def)
  have r: "?row (invocation_columns ! 0) = Some (SInt i)" "?row (invocation_columns ! 1) = Some (SText (c_str fname))"
    "?row (invocation_columns ! 2) = Some (SText (c_str inp))" "?row (invocation_columns ! 3) = Some (SText (c_str out))"
    "?row (invocation_columns ! 4) = Some (SText (c_str st))" "?row (invocation_columns ! 5) = Some (SInt dur)"
    "?row (invocation_columns ! 6) = Some (SInt (if cold then 1 else 0))" "?row (invocation_columns ! 7) = Some (SInt now)"
    by (simp_all add: record_row_def invocation_columns_def insert_columns_def)
  have c: "column_int64 api 0 s = i" "column_text api 1 s = c_str fname" "column_text api 2 s = c_str inp"
    "column_text api 3 s = c_str out" "column_text api 4 s = c_str st" "column_int64 api 5 s = dur"
    "column_int64 api 6 s = (if cold then 1 else 0)" "column_int64 api 7 s = now"
    using h [of 0] h [of 1] h [of 2] h [of 3] h [of 4] h [of 5] h [of 6] h [of 7]
    unfolding r by (simp_all add: column_holds)
  show ?thesis unfolding row_to_record_def c stored_record_def by simp
qed

lemma store_get_ok:
  assumes "select_invocation_law api ok itbl" "ok d"
  shows "\<exists>d'. ok d' \<and> itbl d' = itbl d \<and>
    (case itbl d i of
       None \<Rightarrow> store_get api (show_int (sint i)) d = (Inr None, d')
     | Some row \<Rightarrow> \<exists>s. on_row api s invocation_columns row
         \<and> store_get api (show_int (sint i)) d = (Inr (Some (row_to_record api s)), d'))"
proof -
  have stol: "stol (show_int (sint i)) = Inr (sint i)"
    using sint_greater_eq [of i] sint_less [of i] by (intro stol_show_int) simp_all
  have b: "bind_all api (bound_params [SInt i]) st = bind_long api 1 i st" for st
    by (simp add: params_1 bind_all_def bind_value_def bind_long_def)
  obtain st0 st1 d' where *: "sq_prepare api d kSelectInvocationSql = Inr st0" "ok d'" "itbl d' = itbl d"
    "case itbl d i of
       None \<Rightarrow> sq_step api d (bind_long api 1 i st0) = (SQLITE_DONE, d', st1)
     | Some row \<Rightarrow> sq_step api d (bind_long api 1 i st0) = (SQLITE_ROW, d', st1) \<and> on_row api st1 invocation_columns row"
    using assms unfolding select_invocation_law_def b [symmetric] by blast
  then show ?thesis
    by (intro exI [of _ d']) (auto simp: store_get_def stol stmt_new_def invocation_sql_no_nul stmt_step_def split: option.splits)
qed

lemma store_get_numeric:
  "stol k = Inr n \<Longrightarrow> store_get api k d = store_get api (show_int (sint (word_of_int n :: c_long))) d"
proof -
  assume n: "stol k = Inr n"
  have "stol (show_int (sint (word_of_int n :: c_long))) = Inr (sint (word_of_int n :: c_long))"
    using sint_greater_eq [of "word_of_int n :: c_long"] sint_less [of "word_of_int n :: c_long"] by (intro stol_show_int) simp_all
  with n show ?thesis by (simp add: store_get_def cong: sum.case_cong)
qed

lemma store_get_any:
  assumes "select_invocation_law api ok itbl" "ok d"
  shows "\<exists>x d'. store_get api k d = (Inr x, d') \<and> ok d' \<and> itbl d' = itbl d"
proof (cases "stol k")
  case (Inl e)
  with assms(2) show ?thesis by (simp add: store_get_def)
next
  case (Inr n)
  with store_get_ok [OF assms, of "word_of_int n"] show ?thesis by (auto simp: store_get_numeric split: option.splits)
qed

lemma store_get_none:
  assumes "select_invocation_law api ok itbl" "ok d" "\<And>i. itbl d i = None"
  shows "\<exists>d'. store_get api k d = (Inr None, d')"
proof (cases "stol k")
  case (Inr n)
  with store_get_ok [OF assms(1,2), of "word_of_int n"] assms(3) show ?thesis by (auto simp: store_get_numeric)
qed (simp add: store_get_def)

section \<open>Rows that the store has written\<close>

definition rows_recorded :: "(c_long \<Rightarrow> sql_row option) \<Rightarrow> (c_long \<Rightarrow> invocation_record option) \<Rightarrow> bool" where
  "rows_recorded t past \<longleftrightarrow> (\<forall>i. case t i of None \<Rightarrow> past i = None
     | Some row \<Rightarrow> \<exists>fname inp st out dur cold now. row = record_row fname inp st out dur cold i now
         \<and> past i = Some (stored_record fname inp st out dur cold i now))"

lemma store_get_recorded:
  assumes "select_invocation_law api ok itbl" "ok d" "rows_recorded (itbl d) past"
  shows "\<exists>d'. store_get api (show_int (sint i)) d = (Inr (past i), d') \<and> ok d' \<and> itbl d' = itbl d"
proof -
  have row: "case itbl d i of None \<Rightarrow> past i = None
      | Some row \<Rightarrow> \<exists>fname inp st out dur cold now. row = record_row fname inp st out dur cold i now
          \<and> past i = Some (stored_record fname inp st out dur cold i now)"
    using assms(3) unfolding rows_recorded_def by blast
  show ?thesis
  proof (cases "itbl d i")
    case None
    then show ?thesis using row store_get_ok [OF assms(1,2), of i] by auto
  next
    case (Some r)
    with row obtain fname inp st out dur cold now where r: "r = record_row fname inp st out dur cold i now"
      "past i = Some (stored_record fname inp st out dur cold i now)" by auto
    from Some store_get_ok [OF assms(1,2), of i] obtain d' s where "on_row api s invocation_columns r"
      "store_get api (show_int (sint i)) d = (Inr (Some (row_to_record api s)), d')" "ok d'" "itbl d' = itbl d" by auto
    then show ?thesis using r by (auto simp: row_to_record_ok)
  qed
qed

lemma rows_recorded_put:
  assumes "rows_recorded t past"
  shows "rows_recorded (t(i \<mapsto> record_row fname inp st out dur cold i now))
    (past(i \<mapsto> stored_record fname inp st out dur cold i now))"
  unfolding rows_recorded_def
proof
  fix j
  show "case (t(i \<mapsto> record_row fname inp st out dur cold i now)) j of
      None \<Rightarrow> (past(i \<mapsto> stored_record fname inp st out dur cold i now)) j = None
    | Some row \<Rightarrow> \<exists>fname' inp' st' out' dur' cold' now'. row = record_row fname' inp' st' out' dur' cold' j now'
        \<and> (past(i \<mapsto> stored_record fname inp st out dur cold i now)) j = Some (stored_record fname' inp' st' out' dur' cold' j now')"
    using assms [unfolded rows_recorded_def, rule_format, of j]
    by (cases "j = i") (simp, blast, simp split: option.splits)
qed

section \<open>What the operations leave alone, and a full table\<close>

text \<open>Once the largest key has been used, SQLite refuses to insert.\<close>

definition insert_full_law :: "('d, 'st) sqlite3 \<Rightarrow> ('d \<Rightarrow> bool) \<Rightarrow> ('d \<Rightarrow> bool) \<Rightarrow> bool" where
  "insert_full_law api ok room \<longleftrightarrow>
     (\<forall>d vs. ok d \<and> \<not> room d \<and> length vs = 6 \<longrightarrow>
        (\<exists>st0 st1 d' msg. sq_prepare api d kInsertInvocationSql = Inr st0
           \<and> sq_step api d (bind_all api (bound_params vs) st0) = (SQLITE_FAILED msg, d', st1)))"

lemma store_record_full:
  assumes "insert_full_law api ok room" "ok d" "\<not> room d"
  shows "\<exists>msg d'. store_record api fname inp st out dur cold d = (Inl msg, d')"
proof -
  let ?vs = "[SText (c_str fname), SText (c_str inp), SText (c_str out), SText (c_str st), SInt dur, SInt (if cold then 1 else 0)]"
  have "length ?vs = 6" by simp
  with assms obtain st0 st1 d' msg where "sq_prepare api d kInsertInvocationSql = Inr st0"
    "sq_step api d (bind_all api (bound_params ?vs) st0) = (SQLITE_FAILED msg, d', st1)"
    unfolding insert_full_law_def by blast
  then show ?thesis unfolding store_record_def binds_all Let_def params_6
    by (simp add: stmt_new_def invocation_sql_no_nul stmt_step_def)
qed

lemma store_record_new:
  assumes "insert_invocation_law api ok room itbl" "insert_full_law api ok room" "ok d"
    and "store_record api fname inp st out dur cold d = (Inr k, d')"
  shows "\<exists>i now. k = show_int (sint i) \<and> ok d' \<and> itbl d i = None
    \<and> itbl d' = (itbl d)(i \<mapsto> record_row fname inp st out dur cold i now)"
proof (cases "room d")
  case True
  then show ?thesis using store_record_ok [OF assms(1,3), of fname inp st out dur cold] assms(4) by auto
next
  case False
  then show ?thesis using store_record_full [OF assms(2,3), of fname inp st out dur cold] assms(4) by auto
qed

lemma store_record_keeps:
  "keeps api kInsertInvocationSql part \<Longrightarrow> store_record api nm inp st out dur cold d = (x, d') \<Longrightarrow> part d' = part d"
  unfolding store_record_def binds_all Let_def
  by (auto simp: invocation_sql_no_nul split: sum.splits prod.splits dest: keepsD)

lemma store_get_keeps:
  "keeps api kSelectInvocationSql part \<Longrightarrow> store_get api i d = (x, d') \<Longrightarrow> part d' = part d"
  unfolding store_get_def binds_all Let_def
  by (auto simp: invocation_sql_no_nul split: sum.splits prod.splits bool.splits dest: keepsD)

end
