(* ===== verification/Demo_Db.thy ===== *)
theory Demo_Db
  imports Invocation_Store
begin

text \<open>
  A small in-memory stand-in for SQLite that executes exactly the statements of the two
  stores. It shows that the laws the stores rely on can hold together, and lets the stores
  be run on examples.
\<close>

record mem_db =
  m_functions :: "(string \<times> (string \<times> sql_value) list) list"
  m_invocations :: "(c_long \<times> (string \<times> sql_value) list) list"
  m_changes :: c_int
  m_last :: c_long
  m_now :: c_long

record mem_stmt =
  ms_sql :: string
  ms_params :: "(nat \<times> sql_value) list"
  ms_row :: "sql_value list"
  ms_pending :: "sql_value list list option"

definition mem_empty :: mem_db where
  "mem_empty = \<lparr>m_functions = [], m_invocations = [], m_changes = 0, m_last = 0, m_now = 1700000000\<rparr>"

definition param :: "mem_stmt \<Rightarrow> nat \<Rightarrow> sql_value" where
  "param st i = (case map_of (ms_params st) i of Some v \<Rightarrow> v | None \<Rightarrow> SInt 0)"

definition text_of :: "sql_value \<Rightarrow> string" where
  "text_of v = (case v of SText t \<Rightarrow> t | _ \<Rightarrow> [])"

definition int_of :: "sql_value \<Rightarrow> c_long" where
  "int_of v = (case v of SInt n \<Rightarrow> n | _ \<Rightarrow> 0)"

definition real_of :: "sql_value \<Rightarrow> c_double" where
  "real_of v = (case v of SReal x \<Rightarrow> x | _ \<Rightarrow> 0)"


definition mem_step :: "mem_db \<Rightarrow> mem_stmt \<Rightarrow> step_rc \<times> mem_db \<times> mem_stmt" where
  "mem_step d st =
     (if ms_sql st = kUpsertSql then
        let k = text_of (param st 1);
            row = zip function_columns (map (param st) [1..<10] @ [SInt (m_now d)])
        in (SQLITE_DONE, d\<lparr>m_functions := (k, row) # filter (\<lambda>e. fst e \<noteq> k) (m_functions d), m_changes := 1\<rparr>, st)
      else if ms_sql st = kSelectOneSql then
        (case map_of (m_functions d) (text_of (param st 1)) of
           None \<Rightarrow> (SQLITE_DONE, d, st)
         | Some row \<Rightarrow> (SQLITE_ROW, d, st\<lparr>ms_row := map snd row\<rparr>))
      else if ms_sql st = kDeleteSql then
        let k = text_of (param st 1)
        in (SQLITE_DONE, d\<lparr>m_functions := filter (\<lambda>e. fst e \<noteq> k) (m_functions d),
              m_changes := (if map_of (m_functions d) k = None then 0 else 1)\<rparr>, st)
      else if ms_sql st = kSelectAllSql then
        (case (case ms_pending st of None \<Rightarrow> map (map snd \<circ> snd) (m_functions d) | Some rs \<Rightarrow> rs) of
           [] \<Rightarrow> (SQLITE_DONE, d, st)
         | r # rs \<Rightarrow> (SQLITE_ROW, d, st\<lparr>ms_row := r, ms_pending := Some rs\<rparr>))
      else if ms_sql st = kInsertInvocationSql then
        if \<not> m_last d < 0x7FFFFFFFFFFFFFFF then (SQLITE_FAILED ''database or disk is full'', d, st)
        else let i = m_last d + 1;
            row = (''id'', SInt i) # zip insert_columns (map (param st) [1..<7] @ [SInt (m_now d)])
        in (SQLITE_DONE, d\<lparr>m_invocations := (i, row) # m_invocations d, m_last := i, m_changes := 1\<rparr>, st)
      else if ms_sql st = kSelectInvocationSql then
        (case map_of (m_invocations d) (int_of (param st 1)) of
           None \<Rightarrow> (SQLITE_DONE, d, st)
         | Some row \<Rightarrow> (SQLITE_ROW, d, st\<lparr>ms_row := map snd row\<rparr>))
      else (SQLITE_FAILED ''no such statement'', d, st))"

definition mem_api :: "(mem_db, mem_stmt) sqlite3" where
  "mem_api = \<lparr>sq_open = (\<lambda>_. Inr mem_empty), sq_exec = (\<lambda>d _. (Inr (), d)),
     sq_prepare = (\<lambda>_ sql. Inr \<lparr>ms_sql = sql, ms_params = [], ms_row = [], ms_pending = None\<rparr>),
     sq_bind_text = (\<lambda>st i t. st\<lparr>ms_params := (i, SText t) # ms_params st\<rparr>),
     sq_bind_int64 = (\<lambda>st i n. st\<lparr>ms_params := (i, SInt n) # ms_params st\<rparr>),
     sq_bind_double = (\<lambda>st i x. st\<lparr>ms_params := (i, SReal x) # ms_params st\<rparr>),
     sq_step = mem_step,
     sq_column_text = (\<lambda>st i. if i < length (ms_row st) then Some (text_of (ms_row st ! i)) else None),
     sq_column_int64 = (\<lambda>st i. if i < length (ms_row st) then int_of (ms_row st ! i) else 0),
     sq_column_double = (\<lambda>st i. if i < length (ms_row st) then real_of (ms_row st ! i) else 0),
     sq_changes = m_changes, sq_last_insert_rowid = m_last\<rparr>"

definition mem_tbl :: "mem_db \<Rightarrow> string \<Rightarrow> sql_row option" where
  "mem_tbl d k = map_option map_of (map_of (m_functions d) k)"

definition mem_itbl :: "mem_db \<Rightarrow> c_long \<Rightarrow> sql_row option" where
  "mem_itbl d i = map_option map_of (map_of (m_invocations d) i)"

text \<open>
  The tables are well formed: rows have the columns of the schema, names are distinct, no id
  is beyond the last one given. There is room as long as the largest id has not been given.
\<close>

definition mem_ok :: "mem_db \<Rightarrow> bool" where
  "mem_ok d \<longleftrightarrow> list_all (\<lambda>e. map fst (snd e) = function_columns) (m_functions d)
     \<and> distinct (map fst (m_functions d))"

definition mem_iok :: "mem_db \<Rightarrow> bool" where
  "mem_iok d \<longleftrightarrow> list_all (\<lambda>e. map fst (snd e) = invocation_columns \<and> fst e \<le> m_last d) (m_invocations d)"

definition mem_room :: "mem_db \<Rightarrow> bool" where
  "mem_room d \<longleftrightarrow> m_last d < 0x7FFFFFFFFFFFFFFF"

section \<open>The laws hold\<close>

lemma mem_bind_all: "bind_all mem_api bs st = st\<lparr>ms_params := rev bs @ ms_params st\<rparr>"
proof (induction bs arbitrary: st)
  case (Cons b bs)
  have "bind_value mem_api b st = st\<lparr>ms_params := b # ms_params st\<rparr>"
    by (cases b; cases "snd b") (simp_all add: bind_value_def mem_api_def)
  with Cons show ?case by (simp add: bind_all_def)
qed (simp add: bind_all_def)

lemma mem_param:
  assumes "1 \<le> i" "i \<le> length vs" "ms_params st = rev (bound_params vs)"
  shows "param st i = vs ! (i - 1)"
proof -
  have "distinct (map fst (rev (bound_params vs)))" by (simp add: bound_params_def rev_map [symmetric])
  moreover have "(i, vs ! (i - 1)) \<in> set (rev (bound_params vs))"
    using assms(1,2) by (auto simp: bound_params_def in_set_zip simp del: upt_Suc intro!: exI [of _ "i - 1"])
  ultimately have "map_of (rev (bound_params vs)) i = Some (vs ! (i - 1))"
    by (rule map_of_is_SomeI)
  with assms(3) show ?thesis by (simp add: param_def)
qed

lemma mem_prepare: "sq_prepare mem_api d sql = Inr \<lparr>ms_sql = sql, ms_params = [], ms_row = [], ms_pending = None\<rparr>"
  by (simp add: mem_api_def)

lemma mem_api_step: "sq_step mem_api = mem_step"
  by (simp add: mem_api_def)

lemma mem_on_row:
  assumes "map fst row = cols" "distinct cols" "ms_row st = map snd row"
  shows "on_row mem_api st cols (map_of row)"
proof -
  have "holds mem_api st i (map_of row (cols ! i))" if "i < length cols" for i
  proof -
    have len: "length row = length cols" using assms(1) by auto
    have "map_of row (cols ! i) = Some (snd (row ! i))"
      using assms(1,2) that len by (metis map_of_eq_Some_iff nth_map nth_mem prod.collapse)
    moreover have "i < length (ms_row st)" "ms_row st ! i = snd (row ! i)"
      using assms(3) that len by simp_all
    ultimately show ?thesis
      by (cases "snd (row ! i)") (simp_all add: holds_def mem_api_def text_of_def int_of_def real_of_def)
  qed
  then show ?thesis by (simp add: on_row_def list_all_iff)
qed

lemma sql_distinct:
  "kSelectOneSql \<noteq> kUpsertSql" "kDeleteSql \<noteq> kUpsertSql" "kDeleteSql \<noteq> kSelectOneSql"
  "kSelectAllSql \<noteq> kUpsertSql" "kSelectAllSql \<noteq> kSelectOneSql" "kSelectAllSql \<noteq> kDeleteSql"
  "kInsertInvocationSql \<noteq> kUpsertSql" "kInsertInvocationSql \<noteq> kSelectOneSql" "kInsertInvocationSql \<noteq> kDeleteSql"
  "kInsertInvocationSql \<noteq> kSelectAllSql"
  "kSelectInvocationSql \<noteq> kUpsertSql" "kSelectInvocationSql \<noteq> kSelectOneSql" "kSelectInvocationSql \<noteq> kDeleteSql"
  "kSelectInvocationSql \<noteq> kSelectAllSql" "kSelectInvocationSql \<noteq> kInsertInvocationSql"
  by code_simp+

lemma columns_distinct: "distinct function_columns" "distinct invocation_columns"
  by code_simp+

lemma map_of_filter_key: "map_of (filter (\<lambda>e. fst e \<noteq> k) m) = (map_of m)(k := None)"
  by (induction m) (auto simp: fun_eq_iff)

lemma mem_upsert: "upsert_law mem_api mem_ok mem_tbl"
  unfolding upsert_law_def
proof (intro allI impI, elim conjE)
  fix d k and vs :: "sql_value list"
  assume a: "mem_ok d" "length vs = 8"
  let ?st = "\<lparr>ms_sql = kUpsertSql, ms_params = rev (bound_params (SText k # vs)), ms_row = [], ms_pending = None\<rparr>"
  let ?row = "zip function_columns (SText k # vs @ [SInt (m_now d)])"
  have "map (param ?st) [1..<10] = SText k # vs"
  proof (rule nth_equalityI)
    show "map (param ?st) [1..<10] ! j = (SText k # vs) ! j" if "j < length (map (param ?st) [1..<10])" for j
      using that a(2) mem_param [of "Suc j" "SText k # vs" ?st] by simp
  qed (simp add: a(2))
  moreover have "param ?st 1 = SText k" using mem_param [of 1 "SText k # vs" ?st] by simp
  ultimately have "mem_step d ?st = (SQLITE_DONE,
      d\<lparr>m_functions := (k, ?row) # filter (\<lambda>e. fst e \<noteq> k) (m_functions d), m_changes := 1\<rparr>, ?st)"
    by (simp add: mem_step_def text_of_def Let_def)
  moreover have "map fst ?row = function_columns" using a(2) by (simp add: function_columns_def)
  ultimately show "\<exists>st0 st1 d' now. sq_prepare mem_api d kUpsertSql = Inr st0
      \<and> sq_step mem_api d (bind_all mem_api (bound_params (SText k # vs)) st0) = (SQLITE_DONE, d', st1)
      \<and> mem_ok d' \<and> mem_tbl d' = (mem_tbl d)(k \<mapsto> map_of (zip function_columns (SText k # vs @ [SInt now])))"
    using a(1)
    by (auto simp: mem_prepare mem_bind_all mem_api_step mem_ok_def mem_tbl_def fun_eq_iff map_of_filter_key
        list_all_iff distinct_map_filter)
qed

lemma mem_select: "select_law mem_api mem_ok mem_tbl"
  unfolding select_law_def
proof (intro allI impI, elim conjE)
  fix d and k :: string
  assume a: "mem_ok d"
  let ?st = "\<lparr>ms_sql = kSelectOneSql, ms_params = rev (bound_params [SText k]), ms_row = [], ms_pending = None\<rparr>"
  have p: "param ?st 1 = SText k" using mem_param [of 1 "[SText k]" ?st] by simp
  show "\<exists>st0 st1 d'. sq_prepare mem_api d kSelectOneSql = Inr st0 \<and> mem_ok d' \<and> mem_tbl d' = mem_tbl d
      \<and> (case mem_tbl d k of
           None \<Rightarrow> sq_step mem_api d (bind_all mem_api (bound_params [SText k]) st0) = (SQLITE_DONE, d', st1)
         | Some row \<Rightarrow> sq_step mem_api d (bind_all mem_api (bound_params [SText k]) st0) = (SQLITE_ROW, d', st1)
             \<and> on_row mem_api st1 function_columns row)"
  proof (cases "map_of (m_functions d) k")
    case None
    then show ?thesis
      using a p by (auto simp: mem_prepare mem_bind_all mem_api_step mem_tbl_def mem_step_def sql_distinct text_of_def)
  next
    case (Some row)
    then have "map fst row = function_columns"
      using a by (auto simp: mem_ok_def list_all_iff dest!: map_of_SomeD)
    then have "on_row mem_api (?st\<lparr>ms_row := map snd row\<rparr>) function_columns (map_of row)"
      by (rule mem_on_row) (simp_all add: columns_distinct)
    then show ?thesis
      using a p Some by (auto simp: mem_prepare mem_bind_all mem_api_step mem_tbl_def mem_step_def sql_distinct text_of_def)
  qed
qed

lemma mem_delete: "delete_law mem_api mem_ok mem_tbl"
  unfolding delete_law_def
proof (intro allI impI, elim conjE)
  fix d and k :: string
  assume a: "mem_ok d"
  let ?st = "\<lparr>ms_sql = kDeleteSql, ms_params = rev (bound_params [SText k]), ms_row = [], ms_pending = None\<rparr>"
  have p: "param ?st 1 = SText k" using mem_param [of 1 "[SText k]" ?st] by simp
  show "\<exists>st0 st1 d'. sq_prepare mem_api d kDeleteSql = Inr st0
      \<and> sq_step mem_api d (bind_all mem_api (bound_params [SText k]) st0) = (SQLITE_DONE, d', st1)
      \<and> mem_ok d' \<and> mem_tbl d' = (mem_tbl d)(k := None)
      \<and> sq_changes mem_api d' = (if mem_tbl d k = None then 0 else 1)"
    using a p
    by (auto simp: mem_prepare mem_bind_all mem_api_step mem_tbl_def mem_step_def sql_distinct text_of_def Let_def
        mem_ok_def list_all_iff distinct_map_filter fun_eq_iff map_of_filter_key) (simp_all add: mem_api_def)
qed

lemma mem_select_all: "select_all_law mem_api mem_ok mem_tbl"
  unfolding select_all_law_def
proof (intro allI impI)
  fix d
  assume a: "mem_ok d"
  let ?st = "\<lparr>ms_sql = kSelectAllSql, ms_params = [], ms_row = [], ms_pending = None\<rparr>"
  have steps: "row_steps mem_api (\<lambda>d'. mem_ok d' \<and> mem_tbl d' = mem_tbl d) (mem_tbl d) d st (map fst es)"
    if "ms_sql st = kSelectAllSql" "set es \<subseteq> set (m_functions d)"
      "(case ms_pending st of None \<Rightarrow> map (map snd \<circ> snd) (m_functions d) | Some rs \<Rightarrow> rs) = map (map snd \<circ> snd) es" for st es
    using that
  proof (induction es arbitrary: st)
    case Nil
    then show ?case using a by (simp add: mem_api_step mem_step_def sql_distinct)
  next
    case (Cons e es)
    obtain k row where e: "e = (k, row)" by (cases e)
    have k: "map_of (m_functions d) k = Some row"
      using Cons.prems(2) a e by (auto simp: mem_ok_def)
    then have "map fst row = function_columns"
      using a by (auto simp: mem_ok_def list_all_iff dest!: map_of_SomeD)
    then have "on_row mem_api (st\<lparr>ms_row := map snd row, ms_pending := Some (map (map snd \<circ> snd) es)\<rparr>) function_columns (map_of row)"
      by (rule mem_on_row) (simp_all add: columns_distinct)
    moreover have "sq_step mem_api d st = (SQLITE_ROW, d, st\<lparr>ms_row := map snd row, ms_pending := Some (map (map snd \<circ> snd) es)\<rparr>)"
      using Cons.prems(1,3) e by (simp add: mem_api_step mem_step_def sql_distinct)
    moreover have "row_steps mem_api (\<lambda>d'. mem_ok d' \<and> mem_tbl d' = mem_tbl d) (mem_tbl d) d (st\<lparr>ms_row := map snd row, ms_pending := Some (map (map snd \<circ> snd) es)\<rparr>) (map fst es)"
      using Cons.prems(1,2) by (intro Cons.IH) simp_all
    moreover have "mem_tbl d k = Some (map_of row)" using k by (simp add: mem_tbl_def)
    ultimately show ?case using e by simp
  qed
  show "\<exists>st0 ks. sq_prepare mem_api d kSelectAllSql = Inr st0 \<and> distinct ks \<and> set ks = dom (mem_tbl d)
      \<and> row_steps mem_api (\<lambda>d'. mem_ok d' \<and> mem_tbl d' = mem_tbl d) (mem_tbl d) d st0 ks"
  proof (intro exI conjI)
    show "sq_prepare mem_api d kSelectAllSql = Inr ?st" by (rule mem_prepare)
    show "distinct (map fst (m_functions d))" using a by (simp add: mem_ok_def)
    show "set (map fst (m_functions d)) = dom (mem_tbl d)"
      by (auto simp: mem_tbl_def dom_def) (metis map_of_eq_None_iff not_None_eq fst_conv imageI, metis fst_conv imageI map_of_SomeD)
    show "row_steps mem_api (\<lambda>d'. mem_ok d' \<and> mem_tbl d' = mem_tbl d) (mem_tbl d) d ?st (map fst (m_functions d))" by (rule steps) simp_all
  qed
qed

lemma mem_insert_invocation: "insert_invocation_law mem_api mem_iok mem_room mem_itbl"
  unfolding insert_invocation_law_def
proof (intro allI impI, elim conjE)
  fix d and vs :: "sql_value list"
  assume a: "mem_iok d" "mem_room d" "length vs = 6"
  let ?st = "\<lparr>ms_sql = kInsertInvocationSql, ms_params = rev (bound_params vs), ms_row = [], ms_pending = None\<rparr>"
  let ?i = "m_last d + 1"
  let ?row = "(''id'', SInt ?i) # zip insert_columns (vs @ [SInt (m_now d)])"
  let ?d = "d\<lparr>m_invocations := (?i, ?row) # m_invocations d, m_last := ?i, m_changes := 1\<rparr>"
  have "map (param ?st) [1..<7] = vs"
  proof (rule nth_equalityI)
    show "map (param ?st) [1..<7] ! j = vs ! j" if "j < length (map (param ?st) [1..<7])" for j
      using that a(3) mem_param [of "Suc j" vs ?st] by simp
  qed (simp add: a(3))
  then have step: "mem_step d ?st = (SQLITE_DONE, ?d, ?st)"
    using a(2) by (simp add: mem_step_def sql_distinct Let_def mem_room_def)
  have lt: "m_last d < ?i" using a(2) unfolding mem_room_def by (simp add: word_less_nat_alt unat_word_ariths word_le_nat_alt)
  have cols: "map fst ?row = invocation_columns" using a(3) by (simp add: insert_columns_def invocation_columns_def)
  have ok: "mem_iok ?d"
    using a(1) lt cols by (auto simp: mem_iok_def list_all_iff)
  have fresh: "map_of (m_invocations d) ?i = None"
  proof (rule ccontr)
    assume "map_of (m_invocations d) ?i \<noteq> None"
    then obtain row where "(?i, row) \<in> set (m_invocations d)" by (auto dest: map_of_SomeD)
    with a(1) have "?i \<le> m_last d" by (auto simp: mem_iok_def list_all_iff)
    with lt show False by simp
  qed
  have tbl: "mem_itbl ?d = (mem_itbl d)(?i \<mapsto> (map_of (zip insert_columns (vs @ [SInt (m_now d)])))(''id'' \<mapsto> SInt ?i))"
    by (simp add: mem_itbl_def fun_eq_iff)
  show "\<exists>st0 st1 d' i now. sq_prepare mem_api d kInsertInvocationSql = Inr st0
      \<and> sq_step mem_api d (bind_all mem_api (bound_params vs) st0) = (SQLITE_DONE, d', st1)
      \<and> mem_iok d' \<and> mem_itbl d i = None \<and> sq_last_insert_rowid mem_api d' = i
      \<and> mem_itbl d' = (mem_itbl d)(i \<mapsto> (map_of (zip insert_columns (vs @ [SInt now])))(''id'' \<mapsto> SInt i))"
  proof (intro exI conjI)
    show "sq_prepare mem_api d kInsertInvocationSql = Inr (?st\<lparr>ms_params := []\<rparr>)" by (simp add: mem_prepare)
    show "sq_step mem_api d (bind_all mem_api (bound_params vs) (?st\<lparr>ms_params := []\<rparr>)) = (SQLITE_DONE, ?d, ?st)"
      using step by (simp add: mem_bind_all mem_api_step)
    show "sq_last_insert_rowid mem_api ?d = ?i" by (simp add: mem_api_def)
    show "mem_itbl d ?i = None" using fresh by (simp add: mem_itbl_def)
  qed (fact ok tbl)+
qed

lemma mem_select_invocation: "select_invocation_law mem_api mem_iok mem_itbl"
  unfolding select_invocation_law_def
proof (intro allI impI)
  fix d and i :: c_long
  assume a: "mem_iok d"
  let ?st = "\<lparr>ms_sql = kSelectInvocationSql, ms_params = rev (bound_params [SInt i]), ms_row = [], ms_pending = None\<rparr>"
  have p: "param ?st 1 = SInt i" using mem_param [of 1 "[SInt i]" ?st] by simp
  show "\<exists>st0 st1 d'. sq_prepare mem_api d kSelectInvocationSql = Inr st0 \<and> mem_iok d' \<and> mem_itbl d' = mem_itbl d
      \<and> (case mem_itbl d i of
           None \<Rightarrow> sq_step mem_api d (bind_all mem_api (bound_params [SInt i]) st0) = (SQLITE_DONE, d', st1)
         | Some row \<Rightarrow> sq_step mem_api d (bind_all mem_api (bound_params [SInt i]) st0) = (SQLITE_ROW, d', st1)
             \<and> on_row mem_api st1 invocation_columns row)"
  proof (cases "map_of (m_invocations d) i")
    case None
    then show ?thesis
      using a p by (auto simp: mem_prepare mem_bind_all mem_api_step mem_itbl_def mem_step_def sql_distinct int_of_def)
  next
    case (Some row)
    then have "map fst row = invocation_columns"
      using a by (auto simp: mem_iok_def list_all_iff dest!: map_of_SomeD)
    then have "on_row mem_api (?st\<lparr>ms_row := map snd row\<rparr>) invocation_columns (map_of row)"
      by (rule mem_on_row) (simp_all add: columns_distinct)
    then show ?thesis
      using a p Some by (auto simp: mem_prepare mem_bind_all mem_api_step mem_itbl_def mem_step_def sql_distinct int_of_def)
  qed
qed

lemma mem_empty_ok: "mem_ok mem_empty" "mem_iok mem_empty" "mem_room mem_empty" "mem_tbl mem_empty k = None"
  by (simp_all add: mem_ok_def mem_iok_def mem_room_def mem_empty_def mem_tbl_def)

section \<open>What a statement leaves alone\<close>

lemma mem_keeps:
  assumes "\<And>d st. ms_sql st = sql \<Longrightarrow> part (fst (snd (mem_step d st))) = part d"
  shows "keeps mem_api sql part"
  using assms by (auto simp: keeps_def mem_prepare mem_bind_all mem_api_step)

lemma mem_functions_keep:
  assumes "sql \<in> {kUpsertSql, kSelectOneSql, kDeleteSql}"
  shows "keeps mem_api sql (\<lambda>d. (mem_iok d, mem_room d, mem_itbl d))"
  using assms by (intro mem_keeps) (auto simp: mem_step_def sql_distinct Let_def mem_iok_def mem_room_def mem_itbl_def fun_eq_iff split: option.split)

lemma mem_invocations_keep:
  assumes "sql \<in> {kInsertInvocationSql, kSelectInvocationSql}"
  shows "keeps mem_api sql (\<lambda>d. (mem_ok d, mem_tbl d))"
  using assms by (intro mem_keeps) (auto simp: mem_step_def sql_distinct Let_def mem_ok_def mem_tbl_def fun_eq_iff split: option.split)
lemma mem_insert_full: "insert_full_law mem_api mem_iok mem_room"
  by (simp add: insert_full_law_def mem_prepare mem_bind_all mem_api_step mem_step_def sql_distinct mem_room_def Let_def)

end
