(* ===== verification/Registry_Spec.thy ===== *)
theory Registry_Spec
  imports Function_Registry "HOL-Library.Multiset"
begin

text \<open>
  What the function registry promises, as an abstract specification: a finite map from names
  to function specifications. Every sequence of operations gives the outputs the map gives,
  for every SQLite that obeys the laws of \<open>Function_Registry\<close>.
\<close>

section \<open>The specification\<close>

datatype reg_op = RegisterOp function_spec | GetOp string | RemoveOp string | ListOp

datatype reg_out = Stored function_spec | Found "function_spec option" | Removed bool | Listed "function_spec multiset" | Failed

type_synonym registry_map = "string \<rightharpoonup> function_spec"

fun spec_step :: "reg_op \<Rightarrow> registry_map \<Rightarrow> reg_out \<times> registry_map" where
  "spec_step (RegisterOp spec) m = (Stored (stored spec), m(c_str (fs_name spec) \<mapsto> stored spec))"
| "spec_step (GetOp nm) m = (Found (m (c_str nm)), m)"
| "spec_step (RemoveOp nm) m = (Removed (m (c_str nm) \<noteq> None), m(c_str nm := None))"
| "spec_step ListOp m = (Listed (mset_set (ran m)), m)"

text \<open>The operations of the code, with what a caller sees of their results.\<close>

fun reg_step :: "('d, 'st) sqlite3 \<Rightarrow> reg_op \<Rightarrow> 'd \<Rightarrow> (reg_out \<times> 'd) option" where
  "reg_step api (RegisterOp spec) d =
     (case register_function api spec d of
        (Inl _, d') \<Rightarrow> Some (Failed, d') | (Inr fn, d') \<Rightarrow> Some (Stored (fn_spec fn), d'))"
| "reg_step api (GetOp nm) d =
     (case registry_get api nm d of
        (Inl _, d') \<Rightarrow> Some (Failed, d') | (Inr r, d') \<Rightarrow> Some (Found (map_option fn_spec r), d'))"
| "reg_step api (RemoveOp nm) d =
     (case registry_remove api nm d of (Inl _, d') \<Rightarrow> Some (Failed, d') | (Inr b, d') \<Rightarrow> Some (Removed b, d'))"
| "reg_step api ListOp d =
     (case registry_list api d of
        None \<Rightarrow> None
      | Some (Inl _, d') \<Rightarrow> Some (Failed, d')
      | Some (Inr fns, d') \<Rightarrow> Some (Listed (mset (map fn_spec fns)), d'))"

fun spec_run :: "reg_op list \<Rightarrow> registry_map \<Rightarrow> reg_out list \<times> registry_map" where
  "spec_run [] m = ([], m)"
| "spec_run (op # ops) m = (let (x, m1) = spec_step op m; (xs, m2) = spec_run ops m1 in (x # xs, m2))"

fun reg_run :: "('d, 'st) sqlite3 \<Rightarrow> reg_op list \<Rightarrow> 'd \<Rightarrow> (reg_out list \<times> 'd) option" where
  "reg_run api [] d = Some ([], d)"
| "reg_run api (op # ops) d =
     (case reg_step api op d of
        None \<Rightarrow> None
      | Some (x, d1) \<Rightarrow> (case reg_run api ops d1 of None \<Rightarrow> None | Some (xs, d2) \<Rightarrow> Some (x # xs, d2)))"

section \<open>The simulation\<close>

definition sqlite_laws :: "('d, 'st) sqlite3 \<Rightarrow> ('d \<Rightarrow> bool) \<Rightarrow> ('d \<Rightarrow> string \<Rightarrow> sql_row option) \<Rightarrow> bool" where
  "sqlite_laws api ok tbl \<longleftrightarrow> upsert_law api ok tbl \<and> select_law api ok tbl \<and> delete_law api ok tbl \<and> select_all_law api ok tbl"

text \<open>The rows of the table are the registry's own, and stand for the entries of the map.\<close>

definition represents :: "('d \<Rightarrow> bool) \<Rightarrow> ('d \<Rightarrow> string \<Rightarrow> sql_row option) \<Rightarrow> 'd \<Rightarrow> registry_map \<Rightarrow> bool" where
  "represents ok tbl d m \<longleftrightarrow> ok d \<and> (\<exists>fns. rows_ours (tbl d) fns \<and> m = map_option fn_spec \<circ> fns)"

lemma representsI: "ok d \<Longrightarrow> rows_ours (tbl d) fns \<Longrightarrow> map_option fn_spec \<circ> fns = m \<Longrightarrow> represents ok tbl d m"
  by (auto simp: represents_def)

fun storable_op :: "reg_op \<Rightarrow> bool" where
  "storable_op (RegisterOp spec) = storable_real (fs_cpu spec)"
| "storable_op _ = True"

lemma rows_ours_row:
  "rows_ours t fns \<Longrightarrow> t k = Some row \<Longrightarrow> \<exists>spec now. row = spec_row spec now \<and> c_str (fs_name spec) = k
    \<and> fns k = Some \<lparr>fn_spec = stored spec, fn_status = FN_READY, fn_created_at = now\<rparr>"
  unfolding rows_ours_def by (drule spec [of _ k]) simp

lemma rows_ours_None: "rows_ours t fns \<Longrightarrow> t k = None \<longleftrightarrow> fns k = None"
  unfolding rows_ours_def by (drule spec [of _ k]) (auto split: option.splits)

lemma rows_ours_put:
  assumes "rows_ours t fns" "c_str (fs_name spec) = k"
  shows "rows_ours (t(k \<mapsto> spec_row spec now)) (fns(k \<mapsto> \<lparr>fn_spec = stored spec, fn_status = FN_READY, fn_created_at = now\<rparr>))"
  unfolding rows_ours_def
proof
  fix j
  show "case (t(k \<mapsto> spec_row spec now)) j of
      None \<Rightarrow> (fns(k \<mapsto> \<lparr>fn_spec = stored spec, fn_status = FN_READY, fn_created_at = now\<rparr>)) j = None
    | Some row \<Rightarrow> \<exists>sp t'. row = spec_row sp t' \<and> c_str (fs_name sp) = j
        \<and> (fns(k \<mapsto> \<lparr>fn_spec = stored spec, fn_status = FN_READY, fn_created_at = now\<rparr>)) j
          = Some \<lparr>fn_spec = stored sp, fn_status = FN_READY, fn_created_at = t'\<rparr>"
    using assms(1) [unfolded rows_ours_def, rule_format, of j] assms(2)
    by (cases "j = k") (auto split: option.splits)
qed

lemma rows_ours_erase: "rows_ours t fns \<Longrightarrow> rows_ours (t(k := None)) (fns(k := None))"
proof -
  assume rows: "rows_ours t fns"
  have "case (t(k := None)) j of None \<Rightarrow> (fns(k := None)) j = None
      | Some row \<Rightarrow> \<exists>sp t'. row = spec_row sp t' \<and> c_str (fs_name sp) = j
          \<and> (fns(k := None)) j = Some \<lparr>fn_spec = stored sp, fn_status = FN_READY, fn_created_at = t'\<rparr>" for j
    using rows [unfolded rows_ours_def, rule_format, of j] by (cases "j = k") (auto split: option.splits)
  then show ?thesis unfolding rows_ours_def by blast
qed

lemma registry_list_ok:
  assumes "select_all_law api ok tbl" "ok d" "rows_ours (tbl d) fns"
  shows "\<exists>fs d'. registry_list api d = Some (Inr fs, d') \<and> set fs = ran fns \<and> distinct (map fn_spec fs) \<and> ok d' \<and> tbl d' = tbl d"
proof -
  obtain st0 ks where p: "sq_prepare api d kSelectAllSql = Inr st0" "set ks = dom (tbl d)"
    "row_steps api (\<lambda>d'. ok d' \<and> tbl d' = tbl d) (tbl d) d st0 ks" "distinct ks"
    using assms(1,2) unfolding select_all_law_def by blast
  obtain d' where l: "list_rows api d st0 [] = Some (Inr (map (\<lambda>k. the (fns k)) ks), d')" "ok d' \<and> tbl d' = tbl d"
    using list_rows_ok [OF assms(3) p(3), of "[]"] by auto
  have "dom (tbl d) = dom fns" using rows_ours_None [OF assms(3)] by (auto simp: dom_def)
  then have "set (map (\<lambda>k. the (fns k)) ks) = ran fns" using p(2) by (force simp: ran_def dom_def image_iff)
  moreover have "fs_name (fn_spec (the (fns k))) = k" if "k \<in> set ks" for k
    using rows_ours_row [OF assms(3), of k] that p(2) by (auto simp: stored_def)
  then have "distinct (map fn_spec (map (\<lambda>k. the (fns k)) ks))"
    using p(4) by (auto simp: distinct_map intro!: inj_on_inverseI [where g = fs_name])
  moreover have "c_str kSelectAllSql = kSelectAllSql" by code_simp
  ultimately show ?thesis using p(1) l by (auto simp: registry_list_def stmt_new_def)
qed

text \<open>Over rows that register wrote, a lookup returns the function the row stands for.\<close>

lemma registry_get_ours:
  assumes "select_law api ok tbl" "ok d" "rows_ours (tbl d) fns"
  shows "\<exists>d'. registry_get api nm d = (Inr (fns (c_str nm)), d') \<and> ok d' \<and> tbl d' = tbl d"
proof -
  obtain d' where g: "ok d'" "tbl d' = tbl d" "case tbl d (c_str nm) of
      None \<Rightarrow> registry_get api nm d = (Inr None, d')
    | Some row \<Rightarrow> \<exists>st. on_row api st function_columns row \<and> registry_get api nm d = (Inr (Some (row_to_function api st)), d')"
    using registry_get_ok [OF assms(1,2), of nm] by blast
  have "registry_get api nm d = (Inr (fns (c_str nm)), d')"
  proof (cases "tbl d (c_str nm)")
    case None
    then have "fns (c_str nm) = None" using rows_ours_None [OF assms(3)] by blast
    with None g(3) show ?thesis by simp
  next
    case (Some row)
    with rows_ours_row [OF assms(3) Some] g(3) show ?thesis by (auto simp: row_to_function_spec_row)
  qed
  with g(1,2) show ?thesis by blast
qed

lemma reg_step_refines:
  assumes "sqlite_laws api ok tbl" "represents ok tbl d m" "storable_op op"
  shows "\<exists>d'. reg_step api op d = Some (fst (spec_step op m), d') \<and> represents ok tbl d' (snd (spec_step op m))"
proof -
  have laws: "upsert_law api ok tbl" "select_law api ok tbl" "delete_law api ok tbl" "select_all_law api ok tbl"
    using assms(1) by (simp_all add: sqlite_laws_def)
  obtain fns where ok: "ok d" and rows: "rows_ours (tbl d) fns" and m: "m = map_option fn_spec \<circ> fns"
    using assms(2) by (auto simp: represents_def)
  show ?thesis
  proof (cases op)
    case (RegisterOp spec)
    then obtain d' now where r: "register_function api spec d =
        (Inr \<lparr>fn_spec = stored spec, fn_status = FN_READY, fn_created_at = now\<rparr>, d')" "ok d'"
      "tbl d' = (tbl d)(c_str (fs_name spec) \<mapsto> spec_row spec now)"
      using register_function_ok [OF laws(1,2) ok, of spec] assms(3) by auto
    have "represents ok tbl d' (m(c_str (fs_name spec) \<mapsto> stored spec))"
      by (rule representsI [of ok, OF r(2)]) (use r(3) rows_ours_put [OF rows refl, of spec now] in \<open>auto simp: m\<close>)
    then show ?thesis by (simp add: RegisterOp r(1))
  next
    case (GetOp nm)
    obtain d' where g: "registry_get api nm d = (Inr (fns (c_str nm)), d')" "ok d'" "tbl d' = tbl d"
      using registry_get_ours [OF laws(2) ok rows] by blast
    have "represents ok tbl d' m" by (rule representsI [of ok, OF g(2)]) (simp_all add: g(3) rows m)
    with g(1) show ?thesis by (simp add: GetOp m)
  next
    case (RemoveOp nm)
    obtain d' where r: "registry_remove api nm d = (Inr (tbl d (c_str nm) \<noteq> None), d')" "ok d'" "tbl d' = (tbl d)(c_str nm := None)"
      using registry_remove_ok [OF laws(3) ok] by blast
    have "represents ok tbl d' (m(c_str nm := None))"
      by (rule representsI [of ok, OF r(2)]) (use r(3) rows_ours_erase [OF rows, of "c_str nm"] in \<open>auto simp: m\<close>)
    then show ?thesis using rows_ours_None [OF rows, of "c_str nm"] by (simp add: RemoveOp r(1) m)
  next
    case ListOp
    obtain fs d' where l: "registry_list api d = Some (Inr fs, d')" "set fs = ran fns" "ok d'" "tbl d' = tbl d" "distinct (map fn_spec fs)"
      using registry_list_ok [OF laws(4) ok rows] by blast
    have "set (map fn_spec fs) = ran m" using l(2) by (force simp: m ran_def)
    then have "mset (map fn_spec fs) = mset_set (ran m)" using mset_set_set [OF l(5)] by simp
    moreover have "represents ok tbl d' m" by (rule representsI [of ok, OF l(3)]) (simp_all add: l(4) rows m)
    ultimately show ?thesis by (simp add: ListOp l(1))
  qed
qed

lemma reg_run_refines:
  "sqlite_laws api ok tbl \<Longrightarrow> represents ok tbl d m \<Longrightarrow> list_all storable_op ops \<Longrightarrow>
    \<exists>d'. reg_run api ops d = Some (fst (spec_run ops m), d') \<and> represents ok tbl d' (snd (spec_run ops m))"
proof (induction ops arbitrary: d m)
  case (Cons op ops)
  then obtain d1 where 1: "reg_step api op d = Some (fst (spec_step op m), d1)" "represents ok tbl d1 (snd (spec_step op m))"
    using reg_step_refines [OF Cons.prems(1,2), of op] by auto
  from Cons.IH [OF Cons.prems(1) 1(2)] Cons.prems(3)
  obtain d2 where "reg_run api ops d1 = Some (fst (spec_run ops (snd (spec_step op m))), d2)"
    "represents ok tbl d2 (snd (spec_run ops (snd (spec_step op m))))" by auto
  with 1(1) show ?case by (simp add: case_prod_beta Let_def)
qed simp

end
