(* ===== verification/Store_Properties.thy ===== *)
theory Store_Properties
  imports Demo_Db Demo_Env Registry_Spec
begin

text \<open>
  The properties of the function registry and the invocation history, for every SQLite that
  obeys the laws stated with them.
\<close>

section \<open>The function registry\<close>

text \<open>
  C11: The registry is a map from names to functions: whatever sequence of registrations,
  lookups, removals and listings is made, each returns what the same operation on a finite
  map would return (a registration the function as stored, a removal whether it was there,
  a listing all functions, each once), and none fails or runs for ever. Names and images are cut at a NUL
  byte.
\<close>
theorem registry_refines_map:
  assumes "sqlite_laws api ok tbl" "represents ok tbl d m" "list_all storable_op ops"
  shows "\<exists>d'. reg_run api ops d = Some (fst (spec_run ops m), d') \<and> represents ok tbl d' (snd (spec_run ops m))"
  using assms by (rule reg_run_refines)

lemma mem_laws: "sqlite_laws mem_api mem_ok mem_tbl"
  by (simp add: sqlite_laws_def mem_upsert mem_select mem_delete mem_select_all)

lemma mem_empty_represents: "represents mem_ok mem_tbl mem_empty Map.empty"
  by (rule representsI [of _ _ _ Map.empty]) (simp_all add: mem_empty_ok rows_ours_def)

theorem registry_refines_map_witness:
  "\<exists>d'. reg_run mem_api [RegisterOp demo_spec, GetOp ''hello'', RemoveOp ''hello'', RemoveOp ''hello'', ListOp] mem_empty
    = Some ([Stored (stored demo_spec), Found (Some (stored demo_spec)), Removed True, Removed False, Listed {#}], d')"
proof -
  have "storable_real (fs_cpu demo_spec)" by (simp add: demo_spec_def default_spec_def storable_real_def)
  moreover have "c_str (fs_name demo_spec) = ''hello''" "c_str ''hello'' = ''hello''" by code_simp+
  ultimately show ?thesis
    using registry_refines_map [OF mem_laws mem_empty_represents,
        of "[RegisterOp demo_spec, GetOp ''hello'', RemoveOp ''hello'', RemoveOp ''hello'', ListOp]"]
    by auto
qed

text \<open>
  Registering a function stores it: the call returns the function as stored (name and
  image up to a NUL byte, every number and the CPU share unchanged, status READY), a later
  lookup of any name with the same C string finds it with the same specification, and every
  other registered name keeps what it had.
\<close>
theorem register_then_get:
  assumes "upsert_law api ok tbl" "select_law api ok tbl" "ok d" "storable_real (fs_cpu spec)"
    and "c_str nm = c_str (fs_name spec)"
  shows "\<exists>d1 d2 now. register_function api spec d = (Inr \<lparr>fn_spec = stored spec, fn_status = FN_READY, fn_created_at = now\<rparr>, d1)
    \<and> registry_get api nm d1 = (Inr (Some \<lparr>fn_spec = stored spec, fn_status = FN_READY, fn_created_at = now\<rparr>), d2)
    \<and> ok d2 \<and> (\<forall>k. k \<noteq> c_str (fs_name spec) \<longrightarrow> tbl d2 k = tbl d k)"
proof -
  obtain d1 now where 1: "register_function api spec d =
      (Inr \<lparr>fn_spec = stored spec, fn_status = FN_READY, fn_created_at = now\<rparr>, d1)" "ok d1"
    "tbl d1 = (tbl d)(c_str (fs_name spec) \<mapsto> spec_row spec now)"
    using register_function_ok [OF assms(1-4)] by blast
  from registry_get_ok [OF assms(2) 1(2), of nm] 1(3) assms(5)
  obtain d2 st where 2: "ok d2" "tbl d2 = tbl d1" "on_row api st function_columns (spec_row spec now)"
    "registry_get api nm d1 = (Inr (Some (row_to_function api st)), d2)"
    by auto
  have "\<forall>k. k \<noteq> c_str (fs_name spec) \<longrightarrow> tbl d2 k = tbl d k" using 1(3) 2(2) by simp
  with 1(1) 2(1,4) show ?thesis unfolding row_to_function_spec_row [OF 2(3)] by blast
qed

lemma demo_cpu: "storable_real (fs_cpu demo_spec)"
  by (simp add: demo_spec_def default_spec_def storable_real_def)

theorem register_then_get_witness:
  "\<exists>d1 d2 now. register_function mem_api demo_spec mem_empty =
      (Inr \<lparr>fn_spec = stored demo_spec, fn_status = FN_READY, fn_created_at = now\<rparr>, d1)
    \<and> registry_get mem_api ''hello'' d1 = (Inr (Some \<lparr>fn_spec = stored demo_spec, fn_status = FN_READY, fn_created_at = now\<rparr>), d2)"
  using register_then_get [OF mem_upsert mem_select mem_empty_ok(1) demo_cpu, of "''hello''"]
  by (auto simp: demo_spec_def)

text \<open>
  Removing a function reports whether it was registered, and afterwards a lookup finds
  nothing under that name; every other name keeps what it had.
\<close>
theorem remove_then_get:
  assumes "delete_law api ok tbl" "select_law api ok tbl" "ok d"
  shows "\<exists>d1 d2. registry_remove api nm d = (Inr (tbl d (c_str nm) \<noteq> None), d1)
    \<and> registry_get api nm d1 = (Inr None, d2) \<and> ok d2
    \<and> (\<forall>k. k \<noteq> c_str nm \<longrightarrow> tbl d2 k = tbl d k)"
proof -
  obtain d1 where 1: "registry_remove api nm d = (Inr (tbl d (c_str nm) \<noteq> None), d1)" "ok d1"
    "tbl d1 = (tbl d)(c_str nm := None)"
    using registry_remove_ok [OF assms(1,3)] by blast
  from registry_get_ok [OF assms(2) 1(2), of nm] 1(3)
  obtain d2 where "ok d2" "tbl d2 = tbl d1" "registry_get api nm d1 = (Inr None, d2)" by auto
  with 1 show ?thesis by auto
qed

theorem remove_then_get_witness:
  "\<exists>d1 d2. registry_remove mem_api ''hello'' mem_empty = (Inr False, d1) \<and> registry_get mem_api ''hello'' d1 = (Inr None, d2)"
  using remove_then_get [OF mem_delete mem_select mem_empty_ok(1), of "''hello''"] by (auto simp: mem_empty_ok)

text \<open>
  \<^verbatim>\<open>register_function\<close> releases the database between its insert and the lookup whose result
  it dereferences: if another thread deletes the function in between, the lookup finds
  nothing and an empty \<^verbatim>\<open>std::optional\<close> is dereferenced.
\<close>
theorem register_races_with_delete:
  assumes "upsert_law api ok tbl" "delete_law api ok tbl" "select_law api ok tbl" "ok d" "storable_real (fs_cpu spec)"
  shows "fst (register_return api spec (snd (registry_remove api (fs_name spec) (snd (register_insert api spec d))))) = Inl EmptyOptional"
proof -
  obtain d1 now where 1: "register_insert api spec d = (Inr (), d1)" "ok d1"
    using register_insert_ok [OF assms(1,4,5)] by blast
  obtain d2 where 2: "snd (registry_remove api (fs_name spec) d1) = d2" "ok d2" "tbl d2 = (tbl d1)(c_str (fs_name spec) := None)"
    using registry_remove_ok [OF assms(2) 1(2), of "fs_name spec"] by auto
  from registry_get_ok [OF assms(3) 2(2), of "fs_name spec"] 2(3)
  have "fst (registry_get api (fs_name spec) d2) = Inr None" by auto
  then show ?thesis
    using 1 2 by (auto simp: register_return_def split: prod.splits sum.splits option.splits)
qed

theorem register_races_with_delete_witness:
  "fst (register_return mem_api demo_spec (snd (registry_remove mem_api (fs_name demo_spec)
     (snd (register_insert mem_api demo_spec mem_empty))))) = Inl EmptyOptional"
  by (rule register_races_with_delete [OF mem_upsert mem_delete mem_select mem_empty_ok(1) demo_cpu])

text \<open>
  Names that agree up to a NUL byte are one function to the registry: lookups and
  removals of either do exactly the same, whatever SQLite does, because the bound parameter
  ends at the first NUL.
\<close>
theorem names_collide_at_nul:
  "registry_get api (nm @ [NUL] @ rest) d = registry_get api nm d
    \<and> registry_remove api (nm @ [NUL] @ rest) d = registry_remove api nm d"
proof -
  have "c_str (nm @ [NUL] @ rest) = c_str nm" by (induction nm) (auto simp: c_str_def)
  then have b: "bind_text api i (nm @ [NUL] @ rest) st = bind_text api i nm st" for i st
    by (simp only: bind_text_def)
  show ?thesis unfolding registry_get_def registry_remove_def b by (rule conjI; rule refl)
qed

section \<open>The invocation history\<close>

text \<open>
  A recorded invocation can be looked up by the id that recording it returned, and
  comes back with its function, input, output, status, duration and cold flag (texts up to
  a NUL byte); the id was not in use before, and no other record changes.
\<close>
theorem record_then_get:
  assumes "insert_invocation_law api ok room itbl" "select_invocation_law api ok itbl" "ok d" "room d"
  shows "\<exists>i now d1 d2. store_record api fname inp st out dur cold d = (Inr (show_int (sint i)), d1)
    \<and> itbl d i = None
    \<and> store_get api (show_int (sint i)) d1 = (Inr (Some
        \<lparr>iv_id = show_int (sint i), iv_function_name = c_str fname, iv_input = c_str inp, iv_output = c_str out,
         iv_status = c_str st, iv_duration_ms = dur, iv_cold_start = cold, iv_created_at = now\<rparr>), d2)
    \<and> (\<forall>j. j \<noteq> i \<longrightarrow> itbl d2 j = itbl d j)"
proof -
  obtain d1 i now where 1: "store_record api fname inp st out dur cold d = (Inr (show_int (sint i)), d1)" "ok d1"
    "itbl d i = None" "itbl d1 = (itbl d)(i \<mapsto> record_row fname inp st out dur cold i now)"
    using store_record_ok [OF assms(1,3,4)] by blast
  from store_get_ok [OF assms(2) 1(2), of i] 1(4)
  obtain d2 s where 2: "itbl d2 = itbl d1" "on_row api s invocation_columns (record_row fname inp st out dur cold i now)"
    "store_get api (show_int (sint i)) d1 = (Inr (Some (row_to_record api s)), d2)" by auto
  have "\<forall>j. j \<noteq> i \<longrightarrow> itbl d2 j = itbl d j" using 1(4) 2(1) by simp
  with 1(1,3) 2(3) show ?thesis unfolding row_to_record_ok [OF 2(2)] stored_record_def by blast
qed

theorem record_then_get_witness:
  "\<exists>(i :: c_long) now d1 d2. store_record mem_api ''hello'' ''{}'' ''success'' ''hi'' 12 True mem_empty = (Inr (show_int (sint i)), d1)
    \<and> store_get mem_api (show_int (sint i)) d1 = (Inr (Some
        \<lparr>iv_id = show_int (sint i), iv_function_name = ''hello'', iv_input = ''{}'', iv_output = ''hi'',
         iv_status = ''success'', iv_duration_ms = 12, iv_cold_start = True, iv_created_at = now\<rparr>), d2)"
proof -
  have c: "c_str ''hello'' = ''hello''" "c_str ''{}'' = ''{}''" "c_str ''success'' = ''success''" "c_str ''hi'' = ''hi''"
    by (simp_all add: c_str_def)
  from record_then_get [OF mem_insert_invocation mem_select_invocation mem_empty_ok(2,3),
      of "''hello''" "''{}''" "''success''" "''hi''" 12 True, unfolded c]
  show ?thesis by blast
qed

text \<open>
  Anything after the number in an invocation id is ignored: a lookup of an id followed
  by arbitrary text does exactly what a lookup of the id does (\<^verbatim>\<open>std::stol\<close> stops at the first
  character that is not a digit), although such an id was never given out.
\<close>
theorem id_suffix_ignored:
  assumes "0 \<le> n" "\<not> is_digit c"
  shows "store_get api (show_int n @ c # rest) d = store_get api (show_int n) d"
proof -
  obtain x xs where sn: "show_nat (nat n) = x # xs" using show_nat_Cons by blast
  have tw: "takeWhile is_digit (show_nat (nat n) @ c # rest) = show_nat (nat n)"
    using show_nat_digits [of "nat n"] assms(2)
    by (auto simp: takeWhile_append list_all_iff)
  have "scan_number (show_int n @ c # rest) = Inr (False, digits_val (x # xs))"
    using tw sn assms(1) by (intro scan_number_digits) (simp add: show_int_def)
  moreover have "scan_number (show_int n) = Inr (False, digits_val (x # xs))"
    using takeWhile_digits_show_nat [of "nat n"] sn assms(1) by (intro scan_number_digits) (simp add: show_int_def)
  ultimately show ?thesis by (simp add: store_get_def stol_def)
qed

theorem id_suffix_ignored_witness: "store_get mem_api (show_int 12 @ ''abc'') mem_empty = store_get mem_api (show_int 12) mem_empty"
  by (rule id_suffix_ignored) (simp_all add: is_digit_def)

end
