(* ===== verification/Control_Plane.thy ===== *)
theory Control_Plane
  imports Runtime_Behaviour Http_Server Invocation_Store
begin

text \<open>
  \<^verbatim>\<open>control-plane/src/main.cpp\<close>: the request handlers and the table of routes. The JSON library
  (\<^verbatim>\<open>nlohmann/json\<close>) is not part of the repository: it is a parameter, a record of the
  operations the handlers use, over a type \<open>'j\<close> of JSON values. An operation that can throw
  gives \<^const>\<open>None\<close> when it does; \<^verbatim>\<open>dump\<close> throws on strings that are not UTF-8.
\<close>

section \<open>The JSON library\<close>

record 'j json_lib =
  j_parse :: "string \<Rightarrow> 'j option"
  j_dump :: "'j \<Rightarrow> string option"
  j_contains :: "'j \<Rightarrow> string \<Rightarrow> bool"
  j_at_string :: "'j \<Rightarrow> string \<Rightarrow> string option"              \<comment> \<open>\<^verbatim>\<open>at(k).get<std::string>()\<close>\<close>
  j_value_int :: "'j \<Rightarrow> string \<Rightarrow> c_int \<Rightarrow> c_int option"       \<comment> \<open>\<^verbatim>\<open>value(k, default)\<close>, by the type of the default\<close>
  j_value_long :: "'j \<Rightarrow> string \<Rightarrow> c_long \<Rightarrow> c_long option"
  j_value_double :: "'j \<Rightarrow> string \<Rightarrow> c_double \<Rightarrow> c_double option"
  j_value_bool :: "'j \<Rightarrow> string \<Rightarrow> bool \<Rightarrow> bool option"
  j_value_string :: "'j \<Rightarrow> string \<Rightarrow> string \<Rightarrow> string option"
  j_string :: "string \<Rightarrow> 'j"
  j_int :: "int \<Rightarrow> 'j"
  j_double :: "c_double \<Rightarrow> 'j"
  j_bool :: "bool \<Rightarrow> 'j"
  j_object :: "(string \<times> 'j) list \<Rightarrow> 'j"
  j_array :: "'j list \<Rightarrow> 'j"
  j_index :: "'j \<Rightarrow> string \<Rightarrow> 'j"                                \<comment> \<open>\<^verbatim>\<open>operator[]\<close> on a key that is there\<close>
  j_elements :: "'j \<Rightarrow> 'j list"                               \<comment> \<open>iteration, \<^verbatim>\<open>empty\<close>\<close>

section \<open>Definitions\<close>

text \<open>What the handlers capture: the connection, and the runtime manager with its metrics.\<close>

record 'd plane =
  pl_db :: 'd
  pl_mgr :: manager

definition function_to_json :: "'j json_lib \<Rightarrow> function_rec \<Rightarrow> 'j" where
  "function_to_json lib fn =
     j_object lib
       [(''name'', j_string lib (fs_name (fn_spec fn))),
        (''version'', j_int lib (sint (fs_version (fn_spec fn)))),
        (''image'', j_string lib (fs_image (fn_spec fn))),
        (''timeout_ms'', j_int lib (sint (fs_timeout_ms (fn_spec fn)))),
        (''memory_mb'', j_int lib (sint (fs_memory_mb (fn_spec fn)))),
        (''cpu'', j_double lib (fs_cpu (fn_spec fn))),
        (''max_concurrency'', j_int lib (sint (fs_max_concurrency (fn_spec fn)))),
        (''idle_timeout_ms'', j_int lib (sint (fs_idle_timeout_ms (fn_spec fn)))),
        (''status'', j_string lib (function_status_to_string (fn_status fn)))]"

definition json_response :: "'j json_lib \<Rightarrow> int \<Rightarrow> 'j \<Rightarrow> response outcome" where
  "json_response lib status j = (case j_dump lib j of None \<Rightarrow> Throws | Some body \<Rightarrow> Returns (response_json status body))"

definition error_response :: "'j json_lib \<Rightarrow> int \<Rightarrow> string \<Rightarrow> response outcome" where
  "error_response lib status message = json_response lib status (j_object lib [(''error'', j_string lib message)])"

definition default_idle_timeout_ms :: "string option \<Rightarrow> int" where
  "default_idle_timeout_ms env_value =
     (case env_value of
        None \<Rightarrow> 60000
      | Some v \<Rightarrow> (case stol (c_str v) of Inl _ \<Rightarrow> 60000 | Inr n \<Rightarrow> n))"

subsection \<open>Handlers\<close>

definition health_handler :: "'j json_lib \<Rightarrow> 'd plane handler" where
  "health_handler lib req params s = (json_response lib 200 (j_object lib [(''status'', j_string lib ''ok'')]), s)"

text \<open>The specification a deploy request asks for; \<^const>\<open>None\<close> is an exception of the JSON library.\<close>

definition read_spec :: "'j json_lib \<Rightarrow> int \<Rightarrow> 'j \<Rightarrow> function_spec option" where
  "read_spec lib idle_default body =
     Option.bind (j_at_string lib body ''name'') (\<lambda>nm.
     Option.bind (j_at_string lib body ''image'') (\<lambda>img.
     Option.bind (j_value_int lib body ''version'' 1) (\<lambda>version.
     Option.bind (j_value_int lib body ''timeout_ms'' 5000) (\<lambda>timeout_ms.
     Option.bind (j_value_int lib body ''memory_mb'' 256) (\<lambda>memory_mb.
     Option.bind (j_value_double lib body ''cpu'' 0x3FE0000000000000) (\<lambda>cpu.
     Option.bind (j_value_int lib body ''max_concurrency'' 1) (\<lambda>max_concurrency.
     Option.bind (j_value_long lib body ''idle_timeout_ms'' (word_of_int idle_default)) (\<lambda>idle.
       Some \<lparr>fs_name = nm, fs_version = version, fs_image = img, fs_timeout_ms = timeout_ms, fs_memory_mb = memory_mb,
             fs_cpu = cpu, fs_max_concurrency = max_concurrency, fs_idle_timeout_ms = idle\<rparr>))))))))"

definition deploy_handler :: "'j json_lib \<Rightarrow> ('d, 'st) sqlite3 \<Rightarrow> int \<Rightarrow> 'd plane handler" where
  "deploy_handler lib api idle_default req params s =
     (case j_parse lib (rq_body req) of
        None \<Rightarrow> (error_response lib 400 ''invalid JSON body'', s)
      | Some body \<Rightarrow>
          if \<not> j_contains lib body ''name'' \<or> \<not> j_contains lib body ''image''
          then (error_response lib 400 ([CHR 0x27] @ ''name'' @ [CHR 0x27] @ '' and '' @ [CHR 0x27] @ ''image'' @ [CHR 0x27] @ '' are required''), s)
          else (case read_spec lib idle_default body of
              None \<Rightarrow> (Throws, s)
            | Some spec \<Rightarrow>
                (case register_function api spec (pl_db s) of
                   (Inl _, d') \<Rightarrow> (Throws, s\<lparr>pl_db := d'\<rparr>)
                 | (Inr fn, d') \<Rightarrow> (json_response lib 201 (function_to_json lib fn), s\<lparr>pl_db := d'\<rparr>))))"

definition describe_handler :: "'j json_lib \<Rightarrow> ('d, 'st) sqlite3 \<Rightarrow> 'd plane handler" where
  "describe_handler lib api req params s =
     (case registry_get api (hd params) (pl_db s) of
        (Inl _, d') \<Rightarrow> (Throws, s\<lparr>pl_db := d'\<rparr>)
      | (Inr None, d') \<Rightarrow> (error_response lib 404 (''function not found: '' @ hd params), s\<lparr>pl_db := d'\<rparr>)
      | (Inr (Some fn), d') \<Rightarrow> (json_response lib 200 (function_to_json lib fn), s\<lparr>pl_db := d'\<rparr>))"

definition delete_handler :: "'j json_lib \<Rightarrow> ('d, 'st) sqlite3 \<Rightarrow> backend \<Rightarrow> 'd plane handler" where
  "delete_handler lib api be req params s =
     (case registry_remove api (hd params) (pl_db s) of
        (Inl _, d') \<Rightarrow> (Throws, s\<lparr>pl_db := d'\<rparr>)
      | (Inr removed, d') \<Rightarrow>
          if \<not> removed then (error_response lib 404 (''function not found: '' @ hd params), s\<lparr>pl_db := d'\<rparr>)
          else (Returns (response_empty 204), s\<lparr>pl_db := d', pl_mgr := terminate be (hd params) (pl_mgr s)\<rparr>))"

text \<open>What a function printed, as JSON if it is JSON and as a string otherwise.\<close>

definition parse_or_string :: "'j json_lib \<Rightarrow> string \<Rightarrow> 'j" where
  "parse_or_string lib out = (case j_parse lib out of None \<Rightarrow> j_string lib out | Some j \<Rightarrow> j)"

definition invoke_body :: "'j json_lib \<Rightarrow> string \<Rightarrow> invocation_result \<Rightarrow> int \<times> 'j" where
  "invoke_body lib invocation_id r =
     (if ir_status r = ''infra_error'' then
        (502, j_object lib [(''invocation_id'', j_string lib invocation_id), (''status'', j_string lib ''error''),
           (''error'', j_string lib (ir_output r)), (''duration_ms'', j_int lib (ir_duration_ms r)),
           (''cold_start'', j_bool lib (ir_cold_start r))])
      else if ir_status r = ''timeout'' then
        (200, j_object lib [(''invocation_id'', j_string lib invocation_id), (''status'', j_string lib ''timeout''),
           (''error'', j_string lib (ir_output r)), (''duration_ms'', j_int lib (ir_duration_ms r)),
           (''cold_start'', j_bool lib (ir_cold_start r))])
      else
        (200, j_object lib [(''invocation_id'', j_string lib invocation_id), (''status'', j_string lib (ir_status r)),
           (''result'', parse_or_string lib (ir_output r)), (''duration_ms'', j_int lib (ir_duration_ms r)),
           (''cold_start'', j_bool lib (ir_cold_start r))]))"

definition invoke_handler :: "'j json_lib \<Rightarrow> ('d, 'st) sqlite3 \<Rightarrow> env \<Rightarrow> backend \<Rightarrow> 'd plane handler" where
  "invoke_handler lib api env be req params s =
     (case registry_get api (hd params) (pl_db s) of
        (Inl _, d1) \<Rightarrow> (Throws, s\<lparr>pl_db := d1\<rparr>)
      | (Inr None, d1) \<Rightarrow> (error_response lib 404 (''function not found: '' @ hd params), s\<lparr>pl_db := d1\<rparr>)
      | (Inr (Some fn), d1) \<Rightarrow>
          let input = (if rq_body req = [] then ''{}'' else rq_body req) in
          (case invoke env be (fn_spec fn) input (pl_mgr s) of
             None \<Rightarrow> (Blocks, s\<lparr>pl_db := d1\<rparr>)
           | Some (r, mg') \<Rightarrow>
               (case store_record api (hd params) input (ir_status r) (ir_output r)
                       (word_of_int (ir_duration_ms r)) (ir_cold_start r) d1 of
                  (Inl _, d2) \<Rightarrow> (Throws, s\<lparr>pl_db := d2, pl_mgr := mg'\<rparr>)
                | (Inr invocation_id, d2) \<Rightarrow>
                    (case invoke_body lib invocation_id r of
                       (status, body) \<Rightarrow> (json_response lib status body, s\<lparr>pl_db := d2, pl_mgr := mg'\<rparr>)))))"

definition runtime_handler :: "'j json_lib \<Rightarrow> ('d, 'st) sqlite3 \<Rightarrow> env \<Rightarrow> 'd plane handler" where
  "runtime_handler lib api env req params s =
     (case registry_get api (hd params) (pl_db s) of
        (Inl _, d') \<Rightarrow> (Throws, s\<lparr>pl_db := d'\<rparr>)
      | (Inr None, d') \<Rightarrow> (error_response lib 404 (''function not found: '' @ hd params), s\<lparr>pl_db := d'\<rparr>)
      | (Inr (Some fn), d') \<Rightarrow>
          (case runtime_status_of env (hd params) (pl_mgr s) of
             (None, mg') \<Rightarrow> (error_response lib 404 (''no runtime currently running for '' @ hd params), s\<lparr>pl_db := d', pl_mgr := mg'\<rparr>)
           | (Some rt, mg') \<Rightarrow>
               (json_response lib 200 (j_object lib
                  [(''state'', j_string lib (runtime_state_to_string (rs_state rt))),
                   (''container_id'', j_string lib (rs_container_id rt)),
                   (''host_port'', j_int lib (rs_host_port rt)),
                   (''idle_ms'', j_int lib (rs_idle_ms rt))]), s\<lparr>pl_db := d', pl_mgr := mg'\<rparr>)))"

definition runtimes_handler :: "'j json_lib \<Rightarrow> env \<Rightarrow> 'd plane handler" where
  "runtimes_handler lib env req params s =
     (case list_runtimes env (pl_mgr s) of
        (rts, mg') \<Rightarrow>
          (json_response lib 200 (j_array lib (map (\<lambda>rt. j_object lib
             [(''function'', j_string lib (rl_function_name rt)),
              (''state'', j_string lib (runtime_state_to_string (rl_state rt))),
              (''container_id'', j_string lib (rl_container_id rt)),
              (''host_port'', j_int lib (rl_host_port rt)),
              (''idle_ms'', j_int lib (rl_idle_ms rt))]) rts)), s\<lparr>pl_mgr := mg'\<rparr>))"

definition metrics_handler :: "env \<Rightarrow> 'd plane handler" where
  "metrics_handler env req params s =
     (case list_runtimes env (pl_mgr s) of
        (rts, mg') \<Rightarrow>
          let resp = response_text 200 (render (int (length rts)) (mmetrics mg'))
          in (Returns (resp\<lparr>rp_headers := om_put ''Content-Type'' ''text/plain; version=0.0.4'' (rp_headers resp)\<rparr>),
              s\<lparr>pl_mgr := mg'\<rparr>))"

definition invocation_handler :: "'j json_lib \<Rightarrow> ('d, 'st) sqlite3 \<Rightarrow> 'd plane handler" where
  "invocation_handler lib api req params s =
     (case store_get api (hd params) (pl_db s) of
        (Inl _, d') \<Rightarrow> (Throws, s\<lparr>pl_db := d'\<rparr>)
      | (Inr None, d') \<Rightarrow> (error_response lib 404 (''invocation not found: '' @ hd params), s\<lparr>pl_db := d'\<rparr>)
      | (Inr (Some rec), d') \<Rightarrow>
          (json_response lib 200 (j_object lib
             [(''id'', j_string lib (iv_id rec)),
              (''function'', j_string lib (iv_function_name rec)),
              (''status'', j_string lib (iv_status rec)),
              (''result'', parse_or_string lib (iv_output rec)),
              (''duration_ms'', j_int lib (sint (iv_duration_ms rec))),
              (''cold_start'', j_bool lib (iv_cold_start rec))]), s\<lparr>pl_db := d'\<rparr>))"

subsection \<open>The program\<close>

definition api_routes :: "'j json_lib \<Rightarrow> ('d, 'st) sqlite3 \<Rightarrow> env \<Rightarrow> backend \<Rightarrow> int \<Rightarrow> 'd plane route list" where
  "api_routes lib api env be idle_default =
     [make_route ''GET'' ''/health'' (health_handler lib),
      make_route ''POST'' ''/functions'' (deploy_handler lib api idle_default),
      make_route ''GET'' ''/functions/{name}'' (describe_handler lib api),
      make_route ''DELETE'' ''/functions/{name}'' (delete_handler lib api be),
      make_route ''POST'' ''/functions/{name}/invoke'' (invoke_handler lib api env be),
      make_route ''GET'' ''/functions/{name}/runtime'' (runtime_handler lib api env),
      make_route ''GET'' ''/runtimes'' (runtimes_handler lib env),
      make_route ''GET'' ''/metrics'' (metrics_handler env),
      make_route ''GET'' ''/invocations/{id}'' (invocation_handler lib api)]"

text \<open>\<^verbatim>\<open>std::atoi\<close>: no number is 0; a number that is no \<^verbatim>\<open>int\<close> is undefined.\<close>

definition atoi :: "string \<Rightarrow> cxx_error + int" where
  "atoi s = (case scan_number (c_str s) of Inl _ \<Rightarrow> Inr 0
     | Inr p \<Rightarrow> if - (2 ^ 31) \<le> signed_of p \<and> signed_of p < 2 ^ 31 then Inr (signed_of p) else Inl SignedOverflow)"

definition listen_address :: "string option \<Rightarrow> string option \<Rightarrow> string \<times> (cxx_error + int)" where
  "listen_address host_env port_env =
     (case host_env of None \<Rightarrow> ''0.0.0.0'' | Some h \<Rightarrow> c_str h,
      case port_env of None \<Rightarrow> Inr 8080 | Some p \<Rightarrow> atoi p)"

text \<open>
  What \<^verbatim>\<open>main\<close> sets up before it listens: the database with both tables, an empty runtime
  manager; an exception of the set-up is its message.
\<close>

definition startup :: "('d, 'st) sqlite3 \<Rightarrow> string option \<Rightarrow> world \<Rightarrow> string + 'd plane" where
  "startup api db_path_env w =
     (case db_open api (case db_path_env of None \<Rightarrow> ''faas.db'' | Some p \<Rightarrow> c_str p) of
        Inl e \<Rightarrow> Inl e
      | Inr d \<Rightarrow>
          (case registry_new api d of
             (Inl e, d1) \<Rightarrow> Inl e
           | (Inr _, d1) \<Rightarrow>
               (case store_new api d1 of
                  (Inl e, d2) \<Rightarrow> Inl e
                | (Inr _, d2) \<Rightarrow> Inr \<lparr>pl_db = d2, pl_mgr = init_manager w\<rparr>)))"

text \<open>
  \<^verbatim>\<open>main\<close> up to the accept loop. The environment variables it reads are the fields of
  \<open>plane_vars\<close>; the socket calls of \<^verbatim>\<open>Server::listen\<close> are those of \<open>listen_calls\<close>. Each way in
  which it ends before the loop is a result of its own: an exception of the set-up or of
  \<^verbatim>\<open>listen\<close> ends the process, and a \<^verbatim>\<open>FAAS_PORT\<close> that is no \<^verbatim>\<open>int\<close> is undefined.
\<close>

record plane_vars =
  pv_db_path :: "string option"
  pv_idle :: "string option"
  pv_backend :: "string option"
  pv_host :: "string option"
  pv_port :: "string option"

record listen_calls =
  lc_socket :: int
  lc_inet :: "string \<Rightarrow> 32 word"
  lc_bind :: "32 word \<times> 16 word \<Rightarrow> bool"
  lc_listen :: bool

datatype 'd main_result = SetupThrows string | BadPort | ListenThrows string | Listening "'d plane" server_state

definition main_start :: "('d, 'st) sqlite3 \<Rightarrow> listen_calls \<Rightarrow> plane_vars \<Rightarrow> world \<Rightarrow> 'd main_result" where
  "main_start api os vars w =
     (case startup api (pv_db_path vars) w of
        Inl e \<Rightarrow> SetupThrows e
      | Inr p \<Rightarrow>
          (case listen_address (pv_host vars) (pv_port vars) of
             (host, Inl _) \<Rightarrow> BadPort
           | (host, Inr port) \<Rightarrow>
               (case listen_setup (lc_socket os) (lc_bind os (bind_address (lc_inet os) host port)) (lc_listen os) host port init_server of
                  (Inl e, _) \<Rightarrow> ListenThrows e
                | (Inr _, sv) \<Rightarrow> Listening p sv)))"

text \<open>The table of routes the accept loop serves.\<close>

definition main_routes :: "'j json_lib \<Rightarrow> ('d, 'st) sqlite3 \<Rightarrow> env \<Rightarrow> plane_vars \<Rightarrow> 'd plane route list" where
  "main_routes lib api env vars =
     api_routes lib api env (make_runtime_backend (pv_backend vars) env) (default_idle_timeout_ms (pv_idle vars))"

end
