(* ===== verification/Json_Text.thy ===== *)
theory Json_Text
  imports Control_Plane
begin

text \<open>
  Strings in JSON documents. The JSON library writes a document only if every string in it is
  UTF-8 (\<^verbatim>\<open>dump\<close> throws otherwise), and reads only UTF-8: what the handlers rely on of it, and
  which of their answers it can write.
\<close>

section \<open>Definitions\<close>

text \<open>
  UTF-8 as RFC 3629 defines it, as the run of an automaton: the state is the list of the ranges
  of the continuation bytes that are still due. There are no overlong forms, no surrogates and
  nothing above U+10FFFF.
\<close>

definition utf8_lead :: "nat \<Rightarrow> (nat \<times> nat) list option" where
  "utf8_lead x =
     (let cont = (0x80, 0xBF) in
      if x < 0x80 then Some []
      else if 0xC2 \<le> x \<and> x \<le> 0xDF then Some [cont]
      else if x = 0xE0 then Some [(0xA0, 0xBF), cont]
      else if x = 0xED then Some [(0x80, 0x9F), cont]
      else if 0xE1 \<le> x \<and> x \<le> 0xEF then Some [cont, cont]
      else if x = 0xF0 then Some [(0x90, 0xBF), cont, cont]
      else if 0xF1 \<le> x \<and> x \<le> 0xF3 then Some [cont, cont, cont]
      else if x = 0xF4 then Some [(0x80, 0x8F), cont, cont]
      else None)"

fun utf8_run :: "(nat \<times> nat) list \<Rightarrow> string \<Rightarrow> bool" where
  "utf8_run [] [] = True"
| "utf8_run (r # rs) [] = False"
| "utf8_run [] (c # s) = (case utf8_lead (of_char c) of None \<Rightarrow> False | Some rs \<Rightarrow> utf8_run rs s)"
| "utf8_run (r # rs) (c # s) = (fst r \<le> of_char c \<and> of_char c \<le> snd r \<and> utf8_run rs s)"

definition utf8 :: "string \<Rightarrow> bool" where
  "utf8 s = utf8_run [] s"

definition ascii :: "string \<Rightarrow> bool" where
  "ascii s = list_all (\<lambda>c. (of_char c :: nat) < 0x80) s"

text \<open>Documents in which every string is UTF-8: those the library has read, and those built from such strings.\<close>

inductive text_doc :: "'j json_lib \<Rightarrow> 'j \<Rightarrow> bool" for lib where
  td_parsed: "j_parse lib s = Some j \<Longrightarrow> text_doc lib j"
| td_string: "utf8 s \<Longrightarrow> text_doc lib (j_string lib s)"
| td_int: "text_doc lib (j_int lib n)"
| td_double: "text_doc lib (j_double lib x)"
| td_bool: "text_doc lib (j_bool lib b)"
| td_object: "(\<And>k j. (k, j) \<in> set fs \<Longrightarrow> utf8 k \<and> text_doc lib j) \<Longrightarrow> text_doc lib (j_object lib fs)"
| td_array: "(\<And>j. j \<in> set js \<Longrightarrow> text_doc lib j) \<Longrightarrow> text_doc lib (j_array lib js)"

text \<open>
  Documented behaviour of the library: \<^verbatim>\<open>dump\<close> writes a document whose strings are UTF-8 and throws
  for an object with a member that is not; \<^verbatim>\<open>parse\<close>, which reads up to a NUL, reads nothing
  but UTF-8, and the strings in what it has read are UTF-8.
\<close>

definition utf8_laws :: "'j json_lib \<Rightarrow> bool" where
  "utf8_laws lib \<longleftrightarrow>
     (\<forall>j. text_doc lib j \<longrightarrow> j_dump lib j \<noteq> None)
   \<and> (\<forall>fs k s. distinct (map fst fs) \<and> (k, j_string lib s) \<in> set fs \<and> \<not> utf8 s \<longrightarrow> j_dump lib (j_object lib fs) = None)
   \<and> (\<forall>s j. j_parse lib s = Some j \<longrightarrow> utf8 (c_str s))
   \<and> (\<forall>s j k v. j_parse lib s = Some j \<and> j_at_string lib j k = Some v \<longrightarrow> utf8 v)"

section \<open>Which strings are UTF-8\<close>

lemma utf8_run_append: "utf8_run rs s \<Longrightarrow> utf8 t \<Longrightarrow> utf8_run rs (s @ t)"
  by (induction rs s rule: utf8_run.induct) (auto simp: utf8_def split: option.splits)

lemma utf8_append [intro]: "utf8 s \<Longrightarrow> utf8 t \<Longrightarrow> utf8 (s @ t)"
  using utf8_run_append [of "[]" s t] by (simp add: utf8_def [of s] utf8_def [of "s @ t"])

lemma utf8_Nil [simp]: "utf8 []"
  by (simp add: utf8_def)

lemma utf8_ascii: "ascii s \<Longrightarrow> utf8 s"
  by (induction s) (auto simp: ascii_def utf8_def utf8_lead_def)

lemma utf8_Cons [simp]: "(of_char c :: nat) < 0x80 \<Longrightarrow> utf8 (c # s) \<longleftrightarrow> utf8 s"
  by (simp add: utf8_def utf8_lead_def)

text \<open>Continuation bytes are above 127, so a string cut before an ASCII character stays UTF-8.\<close>

definition due :: "(nat \<times> nat) list \<Rightarrow> bool" where
  "due rs = list_all (\<lambda>r. 0x80 \<le> fst r) rs"

lemma due_lead: "utf8_lead x = Some rs \<Longrightarrow> due rs"
  by (auto simp: utf8_lead_def due_def Let_def split: if_splits)

lemma utf8_run_takeWhile:
  "utf8_run rs s \<Longrightarrow> due rs \<Longrightarrow> (\<And>c. \<not> P c \<Longrightarrow> (of_char c :: nat) < 0x80) \<Longrightarrow> utf8_run rs (takeWhile P s)"
proof (induction rs s rule: utf8_run.induct)
  case (3 c s)
  then show ?case by (auto split: option.splits dest: due_lead)
next
  case (4 r rs c s)
  then have "P c" by (force simp: due_def)
  with 4 show ?case by (simp add: due_def)
qed simp_all

lemma utf8_c_str: "utf8 s \<Longrightarrow> utf8 (c_str s)"
  unfolding utf8_def c_str_def by (rule utf8_run_takeWhile) (auto simp: due_def)

lemma utf8_show_int: "utf8 (show_int n)"
proof (rule utf8_ascii)
  have "(of_char c :: nat) < 0x80" if "is_digit c" for c using that by (auto simp: is_digit_def)
  then have "ascii (show_nat k)" for k using show_nat_digits [of k] by (auto simp: ascii_def list_all_iff)
  then show "ascii (show_int n)" by (simp add: show_int_def ascii_def)
qed

lemma utf8_function_status [simp]: "utf8 (function_status_to_string st)"
  by (cases st) (auto simp: function_status_to_string_def intro!: utf8_ascii simp: ascii_def)

lemma utf8_runtime_state [simp]: "utf8 (runtime_state_to_string st)"
  by (cases st) (simp_all add: runtime_state_to_string_def utf8_ascii ascii_def)

section \<open>Which answers can be written\<close>

lemmas text_built = td_object td_array td_string td_int td_double td_bool

lemma text_answer: "utf8_laws lib \<Longrightarrow> text_doc lib j \<Longrightarrow> \<exists>body. json_response lib st j = Returns (response_json st body)"
  by (auto simp: utf8_laws_def json_response_def split: option.split)

lemma text_error: "utf8_laws lib \<Longrightarrow> utf8 m \<Longrightarrow> \<exists>body. error_response lib st m = Returns (response_json st body)"
  unfolding error_response_def by (rule text_answer) (auto intro!: td_object td_string)

text \<open>A message that is not UTF-8 is not answered: the exception leaves the handler.\<close>

lemma bad_member: "utf8_laws lib \<Longrightarrow> distinct (map fst fs) \<Longrightarrow> (k, j_string lib m) \<in> set fs \<Longrightarrow> \<not> utf8 m \<Longrightarrow> json_response lib st (j_object lib fs) = Throws"
  unfolding utf8_laws_def json_response_def by (metis option.simps(4))

lemma bad_error: "utf8_laws lib \<Longrightarrow> \<not> utf8 m \<Longrightarrow> error_response lib st m = Throws"
  unfolding error_response_def by (rule bad_member) auto

lemma text_function:
  "utf8 (fs_name (fn_spec fn)) \<Longrightarrow> utf8 (fs_image (fn_spec fn)) \<Longrightarrow> text_doc lib (function_to_json lib fn)"
  unfolding function_to_json_def by (rule td_object) (auto intro: text_built)

lemma text_parse_or_string: "utf8 out \<Longrightarrow> text_doc lib (parse_or_string lib out)"
  by (auto simp: parse_or_string_def intro: text_doc.intros split: option.split)

lemma text_invoke_body:
  "utf8 k \<Longrightarrow> utf8 (ir_status r) \<Longrightarrow> utf8 (ir_output r) \<Longrightarrow> text_doc lib (snd (invoke_body lib k r))"
  by (auto simp: invoke_body_def intro!: text_built text_parse_or_string)

end
