(* ===== verification/Plane_Properties.thy ===== *)
theory Plane_Properties
  imports Json_Text Store_Properties
begin

text \<open>
  The properties of the control plane's API, which span the registry, the invocation
  history, the runtime manager and the HTTP server.
\<close>

section \<open>A JSON library for examples\<close>

datatype mj = MS string | MI int | MD c_double | MB bool | MO "(string \<times> mj) list" | MA "mj list"

abbreviation (input) quoted :: "string \<Rightarrow> string" where "quoted s \<equiv> [CHR 0x22] @ s @ [CHR 0x22]"

fun mj_dump :: "mj \<Rightarrow> string" where
  "mj_dump (MS s) = quoted s"
| "mj_dump (MI i) = show_int i"
| "mj_dump (MD x) = show_int (uint x)"
| "mj_dump (MB b) = bool_str b"
| "mj_dump (MO fs) = ''{'' @ concat (map (\<lambda>f. quoted (fst f) @ '':'' @ mj_dump (snd f) @ '','') fs) @ ''}''"
| "mj_dump (MA js) = ''['' @ concat (map (\<lambda>j. mj_dump j @ '','') js) @ '']''"

definition demo_body :: string where
  "demo_body = ''{'' @ quoted ''name'' @ '':'' @ quoted ''hello'' @ '','' @ quoted ''image'' @ '':'' @ quoted ''hello:v1'' @ ''}''"

definition mj_field :: "mj \<Rightarrow> string \<Rightarrow> mj option" where
  "mj_field j k = (case j of MO fs \<Rightarrow> map_of fs k | _ \<Rightarrow> None)"

text \<open>It can read one document, which is enough to deploy a function.\<close>

definition mj_lib :: "mj json_lib" where
  "mj_lib = \<lparr>j_parse = (\<lambda>s. if s = demo_body then Some (MO [(''name'', MS ''hello''), (''image'', MS ''hello:v1'')]) else None),
     j_dump = (\<lambda>j. Some (mj_dump j)),
     j_contains = (\<lambda>j k. mj_field j k \<noteq> None),
     j_at_string = (\<lambda>j k. case mj_field j k of Some (MS s) \<Rightarrow> Some s | _ \<Rightarrow> None),
     j_value_int = (\<lambda>j k d. case mj_field j k of None \<Rightarrow> Some d | Some (MI i) \<Rightarrow> Some (word_of_int i) | _ \<Rightarrow> None),
     j_value_long = (\<lambda>j k d. case mj_field j k of None \<Rightarrow> Some d | Some (MI i) \<Rightarrow> Some (word_of_int i) | _ \<Rightarrow> None),
     j_value_double = (\<lambda>j k d. case mj_field j k of None \<Rightarrow> Some d | Some (MD x) \<Rightarrow> Some x | _ \<Rightarrow> None),
     j_value_bool = (\<lambda>j k d. case mj_field j k of None \<Rightarrow> Some d | Some (MB b) \<Rightarrow> Some b | _ \<Rightarrow> None),
     j_value_string = (\<lambda>j k d. case mj_field j k of None \<Rightarrow> Some d | Some (MS s) \<Rightarrow> Some s | _ \<Rightarrow> None),
     j_string = MS, j_int = MI, j_double = MD, j_bool = MB, j_object = MO, j_array = MA,
     j_index = (\<lambda>j k. case mj_field j k of None \<Rightarrow> MO [] | Some v \<Rightarrow> v),
     j_elements = (\<lambda>j. case j of MA js \<Rightarrow> js | _ \<Rightarrow> [])\<rparr>"

definition deployed_spec :: function_spec where
  "deployed_spec = default_spec\<lparr>fs_name := ''hello'', fs_image := ''hello:v1''\<rparr>"

lemma demo_read_spec:
  "read_spec mj_lib 60000 (MO [(''name'', MS ''hello''), (''image'', MS ''hello:v1'')]) = Some deployed_spec"
  by (simp add: read_spec_def mj_lib_def mj_field_def deployed_spec_def default_spec_def)

lemma deployed_cpu: "storable_real (fs_cpu deployed_spec)"
  by (simp add: deployed_spec_def default_spec_def storable_real_def)

abbreviation (input) demo_plane :: "mem_db plane" where
  "demo_plane \<equiv> \<lparr>pl_db = mem_empty, pl_mgr = demo_warm\<rparr>"

abbreviation (input) demo_post :: http_request where
  "demo_post \<equiv> \<lparr>rq_method = ''POST'', rq_path = ''/functions'', rq_headers = [], rq_body = demo_body\<rparr>"

text \<open>The same library, but it knows UTF-8.\<close>

fun mj_utf8 :: "mj \<Rightarrow> bool" where
  "mj_utf8 (MS s) = utf8 s"
| "mj_utf8 (MO fs) = list_all (\<lambda>f. utf8 (fst f) \<and> mj_utf8 (snd f)) fs"
| "mj_utf8 (MA js) = list_all mj_utf8 js"
| "mj_utf8 _ = True"

definition strict_lib :: "mj json_lib" where
  "strict_lib = mj_lib\<lparr>j_dump := (\<lambda>j. if mj_utf8 j then Some (mj_dump j) else None)\<rparr>"

lemma strict_text_doc: "text_doc strict_lib j \<Longrightarrow> mj_utf8 j"
  by (induction rule: text_doc.induct)
    (auto simp: strict_lib_def mj_lib_def list_all_iff utf8_ascii ascii_def split: if_splits)

lemma strict_lib_laws: "utf8_laws strict_lib"
  unfolding utf8_laws_def
proof (intro conjI allI impI)
  show "j_dump strict_lib j \<noteq> None" if "text_doc strict_lib j" for j
    using strict_text_doc [OF that] by (simp add: strict_lib_def)
  show "j_dump strict_lib (j_object strict_lib fs) = None"
    if "distinct (map fst fs) \<and> (k, j_string strict_lib s) \<in> set fs \<and> \<not> utf8 s" for fs k s
    using that by (force simp: strict_lib_def mj_lib_def list_all_iff)
  show "utf8 (c_str s)" if "j_parse strict_lib s = Some j" for s j
    using that by (auto simp: strict_lib_def mj_lib_def demo_body_def intro!: utf8_c_str split: if_splits)
  show "utf8 v" if "j_parse strict_lib s = Some j \<and> j_at_string strict_lib j k = Some v" for s j k v
    using that by (auto simp: strict_lib_def mj_lib_def mj_field_def split: if_splits)
qed

section \<open>Deploying and describing\<close>

text \<open>
  Deploying a function and then describing it gives the same answer: the deploy is
  answered 201 with the function as stored, and a later GET of that name is answered 200
  with the same document; neither touches a runtime.
\<close>
theorem deploy_then_describe:
  assumes "upsert_law api ok tbl" "select_law api ok tbl" "ok (pl_db s)"
    and "j_parse lib (rq_body req) = Some body" "j_contains lib body ''name''" "j_contains lib body ''image''"
    and "read_spec lib idle_default body = Some spec" "storable_real (fs_cpu spec)" "c_str nm = c_str (fs_name spec)"
  shows "\<exists>s1 s2 now. deploy_handler lib api idle_default req ps s =
        (json_response lib 201 (function_to_json lib \<lparr>fn_spec = stored spec, fn_status = FN_READY, fn_created_at = now\<rparr>), s1)
    \<and> describe_handler lib api req2 [nm] s1 =
        (json_response lib 200 (function_to_json lib \<lparr>fn_spec = stored spec, fn_status = FN_READY, fn_created_at = now\<rparr>), s2)
    \<and> pl_mgr s2 = pl_mgr s"
proof -
  obtain d1 now where 1: "register_function api spec (pl_db s) =
      (Inr \<lparr>fn_spec = stored spec, fn_status = FN_READY, fn_created_at = now\<rparr>, d1)" "ok d1"
    "tbl d1 = (tbl (pl_db s))(c_str (fs_name spec) \<mapsto> spec_row spec now)"
    using register_function_ok [OF assms(1,2,3,8)] by blast
  from registry_get_ok [OF assms(2) 1(2), of nm] 1(3) assms(9)
  obtain d2 st where 2: "on_row api st function_columns (spec_row spec now)"
    "registry_get api nm d1 = (Inr (Some (row_to_function api st)), d2)"
    by auto
  have "deploy_handler lib api idle_default req ps s = (json_response lib 201 (function_to_json lib
      \<lparr>fn_spec = stored spec, fn_status = FN_READY, fn_created_at = now\<rparr>), s\<lparr>pl_db := d1\<rparr>)"
    using assms(4-7) 1(1) by (simp add: deploy_handler_def)
  moreover have "describe_handler lib api req2 [nm] (s\<lparr>pl_db := d1\<rparr>) = (json_response lib 200 (function_to_json lib
      \<lparr>fn_spec = stored spec, fn_status = FN_READY, fn_created_at = now\<rparr>), s\<lparr>pl_db := d1, pl_db := d2\<rparr>)"
    using 2(2) row_to_function_spec_row [OF 2(1)] by (simp add: describe_handler_def)
  ultimately show ?thesis by fastforce
qed

theorem deploy_then_describe_witness:
  "\<exists>s1 s2 now. deploy_handler mj_lib mem_api 60000 demo_post [] demo_plane =
        (json_response mj_lib 201 (function_to_json mj_lib \<lparr>fn_spec = stored deployed_spec, fn_status = FN_READY, fn_created_at = now\<rparr>), s1)
    \<and> describe_handler mj_lib mem_api demo_post [''hello''] s1 =
        (json_response mj_lib 200 (function_to_json mj_lib \<lparr>fn_spec = stored deployed_spec, fn_status = FN_READY, fn_created_at = now\<rparr>), s2)"
proof -
  have "\<exists>s1 s2 now. deploy_handler mj_lib mem_api 60000 demo_post [] demo_plane =
        (json_response mj_lib 201 (function_to_json mj_lib \<lparr>fn_spec = stored deployed_spec, fn_status = FN_READY, fn_created_at = now\<rparr>), s1)
    \<and> describe_handler mj_lib mem_api demo_post [''hello''] s1 =
        (json_response mj_lib 200 (function_to_json mj_lib \<lparr>fn_spec = stored deployed_spec, fn_status = FN_READY, fn_created_at = now\<rparr>), s2)
    \<and> pl_mgr s2 = pl_mgr demo_plane"
    by (rule deploy_then_describe [OF mem_upsert mem_select _ _ _ _ demo_read_spec deployed_cpu])
      (simp_all add: mem_empty_ok mj_lib_def mj_field_def deployed_spec_def)
  then show ?thesis by blast
qed

text \<open>
  A deploy request whose \<^verbatim>\<open>name\<close> or \<^verbatim>\<open>image\<close> is not a string, or with a field of the wrong type,
  makes the JSON library throw inside the handler, where nothing catches it: the process
  ends, on input from the network.
\<close>

lemma deploy_type_error_throws:
  assumes "j_parse lib (rq_body req) = Some body" "j_contains lib body ''name''" "j_contains lib body ''image''"
    and "j_at_string lib body ''name'' = None"
  shows "deploy_handler lib api idle_default req ps s = (Throws, s)"
  using assms by (simp add: deploy_handler_def read_spec_def)

section \<open>Restarting\<close>

text \<open>\<^verbatim>\<open>CREATE TABLE IF NOT EXISTS\<close> on a database that has both tables changes nothing.\<close>

definition create_tables_law ::
  "('d, 'st) sqlite3 \<Rightarrow> ('d \<Rightarrow> bool) \<Rightarrow> ('d \<Rightarrow> string \<Rightarrow> sql_row option) \<Rightarrow> ('d \<Rightarrow> bool) \<Rightarrow> ('d \<Rightarrow> c_long \<Rightarrow> sql_row option) \<Rightarrow> bool" where
  "create_tables_law api ok tbl iok itbl \<longleftrightarrow>
     (\<forall>d. \<forall>sql \<in> {kCreateFunctionsSql, kCreateInvocationsSql}. ok d \<and> iok d \<longrightarrow>
        (\<exists>d'. sq_exec api d sql = (Inr (), d') \<and> ok d' \<and> iok d' \<and> tbl d' = tbl d \<and> itbl d' = itbl d))"

lemma startup_reopens:
  assumes "create_tables_law api ok tbl iok itbl" "sq_open api (c_str path) = Inr d1" "ok d1" "iok d1"
  shows "\<exists>d. startup api (Some path) w = Inr \<lparr>pl_db = d, pl_mgr = init_manager w\<rparr>
    \<and> ok d \<and> iok d \<and> tbl d = tbl d1 \<and> itbl d = itbl d1"
proof -
  obtain d2 where 2: "sq_exec api d1 kCreateFunctionsSql = (Inr (), d2)" "ok d2" "iok d2" "tbl d2 = tbl d1" "itbl d2 = itbl d1"
    using assms unfolding create_tables_law_def by blast
  obtain d3 where 3: "sq_exec api d2 kCreateInvocationsSql = (Inr (), d3)" "ok d3" "iok d3" "tbl d3 = tbl d2" "itbl d3 = itbl d2"
    using assms(1) 2 unfolding create_tables_law_def by blast
  have "c_str (c_str path) = c_str path" "c_str kCreateFunctionsSql = kCreateFunctionsSql" "c_str kCreateInvocationsSql = kCreateInvocationsSql"
    by (simp add: c_str_def takeWhile_idem, code_simp+)
  then have "startup api (Some path) w = Inr \<lparr>pl_db = d3, pl_mgr = init_manager w\<rparr>"
    using assms(2) 2(1) 3(1) by (simp add: startup_def db_open_def registry_new_def store_new_def db_exec_def)
  with 2 3 show ?thesis by simp
qed

text \<open>
  C25: A restart of the control plane loses no function and no invocation, and all runtimes:
  when the database file is opened again with the content it had, every sequence of registry
  operations answers as it would have before, every recorded invocation is still found under
  its id, and the runtime manager starts with no runtime, fresh metrics and without having
  issued any command, so the containers of the previous process are neither adopted nor
  removed.
\<close>
theorem restart_keeps_functions_and_history:
  assumes "sqlite_laws api ok tbl" "select_invocation_law api iok itbl" "create_tables_law api ok tbl iok itbl"
    and "represents ok tbl (pl_db s) m" "rows_recorded (itbl (pl_db s)) past"
    and "sq_open api (c_str path) = Inr d1" "ok d1" "iok d1" "tbl d1 = tbl (pl_db s)" "itbl d1 = itbl (pl_db s)"
    and "list_all storable_op ops"
  shows "\<exists>s'. startup api (Some path) w = Inr s'
    \<and> map_option fst (reg_run api ops (pl_db s')) = map_option fst (reg_run api ops (pl_db s))
    \<and> (\<forall>i. fst (store_get api (show_int (sint i)) (pl_db s')) = Inr (past i))
    \<and> runtimes (pl_mgr s') = [] \<and> mmetrics (pl_mgr s') = init_metrics \<and> mworld (pl_mgr s') = w"
proof -
  obtain d where d: "startup api (Some path) w = Inr \<lparr>pl_db = d, pl_mgr = init_manager w\<rparr>" "ok d" "iok d"
    "tbl d = tbl (pl_db s)" "itbl d = itbl (pl_db s)"
    using startup_reopens [OF assms(3,6,7,8)] assms(9,10) by metis
  have rep: "represents ok tbl d m" using assms(4) d(2,4) by (simp add: represents_def)
  have "map_option fst (reg_run api ops d) = map_option fst (reg_run api ops (pl_db s))"
    using reg_run_refines [OF assms(1) rep assms(11)] reg_run_refines [OF assms(1,4,11)] by auto
  moreover have "fst (store_get api (show_int (sint i)) d) = Inr (past i)" for i
    using store_get_recorded [OF assms(2) d(3), of past i] assms(5) d(5) by auto
  ultimately show ?thesis using d(1) by (simp add: init_manager_def)
qed

lemma mem_create_tables: "create_tables_law mem_api mem_ok mem_tbl mem_iok mem_itbl"
  by (simp add: create_tables_law_def mem_api_def)

text \<open>A file with one function in it, opened by a new process.\<close>

definition disk_db :: mem_db where
  "disk_db = snd (register_insert mem_api deployed_spec mem_empty)"

definition disk_api :: "(mem_db, mem_stmt) sqlite3" where
  "disk_api = mem_api\<lparr>sq_open := (\<lambda>_. Inr disk_db)\<rparr>"

lemma mem_register_keeps_invocations:
  "register_insert mem_api spec mem_empty = (x, d) \<Longrightarrow> m_invocations d = [] \<and> m_last d = 0"
  by (auto simp: register_insert_def stmt_new_def sql_no_nul mem_prepare stmt_step_def mem_api_step mem_step_def Let_def
      bind_text_def bind_long_def bind_double_def mem_api_def mem_empty_def)

lemma disk_ops [simp]:
  "sq_prepare disk_api = sq_prepare mem_api" "sq_step disk_api = sq_step mem_api" "sq_exec disk_api = sq_exec mem_api"
  "sq_changes disk_api = sq_changes mem_api" "sq_open disk_api p = Inr disk_db"
  "bind_all disk_api = bind_all mem_api" "on_row disk_api = on_row mem_api"
proof -
  have "bind_value disk_api = bind_value mem_api" "holds disk_api = holds mem_api"
    by (simp_all add: disk_api_def bind_value_def holds_def fun_eq_iff split: sql_value.split option.split)
  then show "bind_all disk_api = bind_all mem_api" "on_row disk_api = on_row mem_api"
    unfolding bind_all_def [abs_def] on_row_def [abs_def] by simp_all
qed (simp_all add: disk_api_def)

lemma disk_row_steps [simp]: "row_steps disk_api fin t d st ks = row_steps mem_api fin t d st ks"
  by (induction ks arbitrary: d st) simp_all

lemma disk_laws: "sqlite_laws disk_api mem_ok mem_tbl" "select_invocation_law disk_api mem_iok mem_itbl"
  "create_tables_law disk_api mem_ok mem_tbl mem_iok mem_itbl"
  using mem_laws mem_select_invocation mem_create_tables
  unfolding sqlite_laws_def upsert_law_def select_law_def delete_law_def select_all_law_def select_invocation_law_def
    create_tables_law_def disk_ops disk_row_steps by blast+

lemma disk_represents: "represents mem_ok mem_tbl disk_db [''hello'' \<mapsto> stored deployed_spec] \<and> mem_iok disk_db \<and> mem_itbl disk_db = Map.empty"
proof -
  obtain d now where ins: "register_insert mem_api deployed_spec mem_empty = (Inr (), d)" "mem_ok d"
    "mem_tbl d = (mem_tbl mem_empty)(c_str (fs_name deployed_spec) \<mapsto> spec_row deployed_spec now)"
    using register_insert_ok [OF mem_upsert mem_empty_ok(1) deployed_cpu] by blast
  have d: "disk_db = d" "m_invocations d = []" using mem_register_keeps_invocations [OF ins(1)] ins(1) by (simp_all add: disk_db_def)
  have nm: "c_str (fs_name deployed_spec) = ''hello''" by code_simp
  have "mem_tbl mem_empty = Map.empty" by (simp add: fun_eq_iff mem_tbl_def mem_empty_def)
  with ins(3) nm have t: "mem_tbl d = [''hello'' \<mapsto> spec_row deployed_spec now]" by simp
  have "represents mem_ok mem_tbl d [''hello'' \<mapsto> stored deployed_spec]"
    by (rule representsI [of _ _ _ "[''hello'' \<mapsto> \<lparr>fn_spec = stored deployed_spec, fn_status = FN_READY, fn_created_at = now\<rparr>]"])
      (use ins(2) t nm in \<open>auto simp: rows_ours_def fun_eq_iff\<close>)
  with d show ?thesis by (simp add: mem_iok_def fun_eq_iff mem_itbl_def)
qed

lemma disk_found:
  "\<exists>fn. registry_get mem_api ''hello'' disk_db = (Inr (Some fn), disk_db) \<and> fn_spec fn = stored deployed_spec"
proof -
  obtain d where "reg_step mem_api (GetOp ''hello'') disk_db = Some (Found (Some (stored deployed_spec)), d)"
    using reg_step_refines [OF mem_laws, of disk_db "[''hello'' \<mapsto> stored deployed_spec]" "GetOp ''hello''"] disk_represents
    by (auto simp: c_str_def)
  then obtain fn where fn: "registry_get mem_api ''hello'' disk_db = (Inr (Some fn), d)" "fn_spec fn = stored deployed_spec"
    by (auto split: prod.splits sum.splits)
  have "keeps mem_api kSelectOneSql id" by (rule mem_keeps) (auto simp: mem_step_def sql_distinct split: option.split)
  from registry_get_keeps [OF this fn(1)] fn show ?thesis by auto
qed

lemma disk_room: "mem_ok disk_db" "mem_iok disk_db" "mem_room disk_db"
  using disk_represents mem_register_keeps_invocations [of deployed_spec "fst (register_insert mem_api deployed_spec mem_empty)" disk_db]
  by (simp_all add: represents_def disk_db_def mem_room_def)

theorem restart_keeps_functions_and_history_witness:
  "\<exists>s'. startup disk_api (Some ''faas.db'') (mworld demo_warm) = Inr s'
    \<and> map_option fst (reg_run disk_api [GetOp ''hello''] (pl_db s')) = Some [Found (Some (stored deployed_spec))]
    \<and> fst (store_get disk_api (show_int (sint (7 :: c_long))) (pl_db s')) = Inr None \<and> runtimes (pl_mgr s') = []"
proof -
  let ?s = "\<lparr>pl_db = disk_db, pl_mgr = demo_warm\<rparr>"
  let ?m = "[''hello'' \<mapsto> stored deployed_spec]"
  have r: "represents mem_ok mem_tbl (pl_db ?s) ?m" "mem_iok disk_db" "mem_itbl disk_db = Map.empty" "mem_ok disk_db"
    using disk_represents by (simp_all add: represents_def)
  then have p: "rows_recorded (mem_itbl (pl_db ?s)) Map.empty" by (simp add: rows_recorded_def)
  have "\<exists>s'. startup disk_api (Some ''faas.db'') (mworld demo_warm) = Inr s'
      \<and> map_option fst (reg_run disk_api [GetOp ''hello''] (pl_db s')) = map_option fst (reg_run disk_api [GetOp ''hello''] (pl_db ?s))
      \<and> (\<forall>i :: c_long. fst (store_get disk_api (show_int (sint i)) (pl_db s')) = Inr (Map.empty i))
      \<and> runtimes (pl_mgr s') = [] \<and> mmetrics (pl_mgr s') = init_metrics \<and> mworld (pl_mgr s') = mworld demo_warm"
    by (rule restart_keeps_functions_and_history [OF disk_laws r(1) p, where path = "''faas.db''" and ?d1.0 = disk_db and ops = "[GetOp ''hello'']"]) (use r in simp_all)
  moreover have "map_option fst (reg_run disk_api [GetOp ''hello''] (pl_db ?s)) = Some [Found (Some (stored deployed_spec))]"
    using reg_run_refines [OF disk_laws(1) r(1), of "[GetOp ''hello'']"] by (auto simp: c_str_def)
  ultimately show ?thesis by metis
qed

section \<open>Unknown functions\<close>

lemma unknown_answered:
  assumes "select_law api ok tbl" "delete_law api ok tbl" "ok (pl_db s)" "tbl (pl_db s) (c_str nm) = None"
    and "h \<in> {describe_handler lib api, delete_handler lib api be, invoke_handler lib api env be, runtime_handler lib api env}"
  shows "\<exists>s'. h req [nm] s = (error_response lib 404 (''function not found: '' @ nm), s')
    \<and> pl_mgr s' = pl_mgr s \<and> ok (pl_db s') \<and> tbl (pl_db s') = tbl (pl_db s)
    \<and> (registry_get api nm (pl_db s) = (Inr None, pl_db s') \<or> registry_remove api nm (pl_db s) = (Inr False, pl_db s'))"
proof -
  obtain d1 where get: "registry_get api nm (pl_db s) = (Inr None, d1)" "ok d1" "tbl d1 = tbl (pl_db s)"
    using registry_get_ok [OF assms(1,3), of nm] assms(4) by auto
  obtain d2 where rm: "registry_remove api nm (pl_db s) = (Inr False, d2)" "ok d2" "tbl d2 = tbl (pl_db s)"
    using registry_remove_ok [OF assms(2,3), of nm] assms(4) by (auto simp: fun_upd_idem)
  from assms(5) consider "h = describe_handler lib api" | "h = delete_handler lib api be"
    | "h = invoke_handler lib api env be" | "h = runtime_handler lib api env" by auto
  then show ?thesis
    by cases (simp_all add: describe_handler_def delete_handler_def invoke_handler_def runtime_handler_def get rm)
qed

text \<open>
  C30: A request about a function that is not registered is answered 404 with an error
  document that has its name, if the name is UTF-8. If it is not, that document cannot be
  serialised and the exception leaves the handler. Either way neither table nor any runtime
  is changed: nothing is started, invoked or recorded.
\<close>
theorem unknown_function_404:
  assumes "select_law api ok tbl" "delete_law api ok tbl" "ok (pl_db s)" "tbl (pl_db s) (c_str nm) = None"
    and "keeps api kSelectOneSql itbl" "keeps api kDeleteSql itbl" "utf8_laws lib"
    and "h \<in> {describe_handler lib api, delete_handler lib api be, invoke_handler lib api env be, runtime_handler lib api env}"
  shows "\<exists>x s'. h req [nm] s = (x, s')
    \<and> (if utf8 nm
       then \<exists>body. x = Returns (response_json 404 body)
         \<and> j_dump lib (j_object lib [(''error'', j_string lib (''function not found: '' @ nm))]) = Some body
       else x = Throws)
    \<and> pl_mgr s' = pl_mgr s \<and> tbl (pl_db s') = tbl (pl_db s) \<and> itbl (pl_db s') = itbl (pl_db s)"
proof -
  from unknown_answered [OF assms(1-4,8), of req] obtain s' where s': "h req [nm] s = (error_response lib 404 (''function not found: '' @ nm), s')"
    "pl_mgr s' = pl_mgr s" "tbl (pl_db s') = tbl (pl_db s)"
    "registry_get api nm (pl_db s) = (Inr None, pl_db s') \<or> registry_remove api nm (pl_db s) = (Inr False, pl_db s')" by blast
  have "itbl (pl_db s') = itbl (pl_db s)"
    using s'(4) registry_get_keeps [OF assms(5)] registry_remove_keeps [OF assms(6)] by blast
  moreover have "utf8 (''function not found: '' @ nm) = utf8 nm" by simp
  ultimately show ?thesis
    using s'(1-3) text_error [OF assms(7), of "''function not found: '' @ nm" 404] bad_error [OF assms(7), of "''function not found: '' @ nm" 404]
    by (auto simp: error_response_def json_response_def split: option.splits)
qed

theorem unknown_function_404_witness:
  "\<exists>body s' s''. invoke_handler strict_lib mem_api demo_env (make_runtime_backend None demo_env) demo_post [''hello''] demo_plane
      = (Returns (response_json 404 body), s') \<and> pl_mgr s' = demo_warm
    \<and> describe_handler strict_lib mem_api demo_post [[CHR 0xFF]] demo_plane = (Throws, s'')"
proof -
  have keep: "keeps mem_api kSelectOneSql mem_itbl" "keeps mem_api kDeleteSql mem_itbl"
    using mem_functions_keep [of kSelectOneSql] mem_functions_keep [of kDeleteSql] by (simp_all add: keeps_def)
  have names: "utf8 ''hello''" "\<not> utf8 [CHR 0xFF]" by (simp_all add: utf8_def utf8_lead_def)
  have empty: "mem_ok (pl_db demo_plane)" "mem_tbl (pl_db demo_plane) (c_str ''hello'') = None" "mem_tbl (pl_db demo_plane) (c_str [CHR 0xFF]) = None"
    by (simp_all add: mem_empty_ok)
  note unknown = unknown_function_404 [OF mem_select mem_delete empty(1) _ keep strict_lib_laws,
      where be = "make_runtime_backend None demo_env" and env = demo_env and req = demo_post]
  show ?thesis
    using unknown [OF empty(2), of "invoke_handler strict_lib mem_api demo_env (make_runtime_backend None demo_env)"]
      unknown [OF empty(3), of "describe_handler strict_lib mem_api"] names by auto
qed

section \<open>Deleting\<close>

text \<open>
  Deleting a registered function is answered 204 and removes it completely: it is no
  longer in the registry, no runtime is tracked for it, and if one was, its container has
  had the removal command issued on it.
\<close>
theorem delete_removes_function_and_runtime:
  assumes "delete_law api ok tbl" "select_law api ok tbl" "ok (pl_db s)" "mgr_ok (pl_mgr s)"
    and "tbl (pl_db s) (c_str nm) \<noteq> None"
  shows "\<exists>s' d2. delete_handler lib api (make_runtime_backend kind env) req [nm] s = (Returns (response_empty 204), s')
    \<and> registry_get api nm (pl_db s') = (Inr None, d2)
    \<and> om_find (runtimes (pl_mgr s')) nm = None
    \<and> (case om_find (runtimes (pl_mgr s)) nm of None \<Rightarrow> True
       | Some rt \<Rightarrow> Shell (rm_command kind (container_id rt)) \<in> set (new_effects (mworld (pl_mgr s)) (mworld (pl_mgr s'))))"
proof -
  let ?be = "make_runtime_backend kind env"
  let ?mg = "terminate ?be nm (pl_mgr s)"
  obtain d1 where rm: "registry_remove api nm (pl_db s) = (Inr True, d1)" "ok d1" "tbl d1 = (tbl (pl_db s))(c_str nm := None)"
    using registry_remove_ok [OF assms(1,3), of nm] assms(5) by auto
  obtain d2 where get: "registry_get api nm d1 = (Inr None, d2)"
    using registry_get_ok [OF assms(2) rm(2), of nm] rm(3) by auto
  have none: "om_find (runtimes ?mg) nm = None"
    by (auto simp: terminate_def om_find_erase split: option.split)
  have "kept (rm_command kind) (pl_mgr s) ?mg" using assms(4) by (rule chosen.kept_terminate)
  from kept_untracked [OF this _ none] have "case om_find (runtimes (pl_mgr s)) nm of None \<Rightarrow> True
      | Some rt \<Rightarrow> Shell (rm_command kind (container_id rt)) \<in> set (new_effects (mworld (pl_mgr s)) (mworld ?mg))"
    by (simp split: option.split)
  with rm(1) get none show ?thesis
    by (intro exI [of _ "s\<lparr>pl_db := d1, pl_mgr := ?mg\<rparr>"] exI [of _ d2]) (simp add: delete_handler_def cong: option.case_cong)
qed

theorem delete_removes_function_and_runtime_witness:
  "\<exists>d s'. delete_handler mj_lib mem_api (make_runtime_backend None demo_env) demo_post [''hello''] \<lparr>pl_db = d, pl_mgr = demo_warm\<rparr>
      = (Returns (response_empty 204), s')
    \<and> om_find (runtimes (pl_mgr s')) ''hello'' = None
    \<and> Shell (rm_command None ''abc123'') \<in> set (new_effects (mworld demo_warm) (mworld (pl_mgr s')))"
proof -
  obtain d where d: "mem_ok d" "mem_tbl d (c_str ''hello'') \<noteq> None"
    using register_function_ok [OF mem_upsert mem_select mem_empty_ok(1) deployed_cpu] by (auto simp: deployed_spec_def)
  have find: "om_find (runtimes demo_warm) ''hello'' = Some demo_runtime"
    using demo_warm_find by (simp add: demo_spec_def)
  let ?s = "\<lparr>pl_db = d, pl_mgr = demo_warm\<rparr>"
  have "mem_ok (pl_db ?s)" "mgr_ok (pl_mgr ?s)" "mem_tbl (pl_db ?s) (c_str ''hello'') \<noteq> None"
    using d demo_warm_ok by simp_all
  from delete_removes_function_and_runtime [OF mem_delete mem_select this, of mj_lib None demo_env demo_post] find
  show ?thesis by (auto simp: demo_runtime_def)
qed

section \<open>Invoking\<close>

text \<open>
  C10: Invoking a registered function through the API runs it on the runtime manager with
  the request's body (or an empty object), answers 502 exactly for an infrastructure error
  and 200 for success, error and timeout, and records it: the id in the answer looks up a
  record with the function, input, status, output, duration and cold flag of this very
  invocation.
\<close>
theorem invoke_answers_and_records:
  assumes "insert_invocation_law api iok room itbl" "select_invocation_law api iok itbl"
    and "registry_get api nm (pl_db s) = (Inr (Some fn), d1)" "iok d1" "room d1"
    and "input = (if rq_body req = [] then ''{}'' else rq_body req)"
    and "invoke env be (fn_spec fn) input (pl_mgr s) = Some (r, mg')"
  shows "\<exists>invocation_id s' rec d3. invoke_handler lib api env be req [nm] s =
        (json_response lib (if ir_status r = ''infra_error'' then 502 else 200) (snd (invoke_body lib invocation_id r)), s')
    \<and> pl_mgr s' = mg'
    \<and> store_get api invocation_id (pl_db s') = (Inr (Some rec), d3)
    \<and> iv_id rec = invocation_id \<and> iv_function_name rec = c_str nm \<and> iv_input rec = c_str input
    \<and> iv_status rec = c_str (ir_status r) \<and> iv_output rec = c_str (ir_output r)
    \<and> iv_duration_ms rec = word_of_int (ir_duration_ms r) \<and> iv_cold_start rec = ir_cold_start r"
proof -
  obtain d2 i now where 1: "store_record api nm input (ir_status r) (ir_output r) (word_of_int (ir_duration_ms r))
      (ir_cold_start r) d1 = (Inr (show_int (sint i)), d2)" "iok d2"
    "itbl d2 = (itbl d1)(i \<mapsto> record_row nm input (ir_status r) (ir_output r) (word_of_int (ir_duration_ms r)) (ir_cold_start r) i now)"
    using store_record_ok [OF assms(1,4,5)] by blast
  from store_get_ok [OF assms(2) 1(2), of i] 1(3)
  obtain d3 st where 2: "store_get api (show_int (sint i)) d2 = (Inr (Some (row_to_record api st)), d3)"
    "on_row api st invocation_columns (record_row nm input (ir_status r) (ir_output r) (word_of_int (ir_duration_ms r)) (ir_cold_start r) i now)"
    by auto
  have "fst (invoke_body lib iid r) = (if ir_status r = ''infra_error'' then 502 else 200)" for iid
    by (simp add: invoke_body_def)
  then have "invoke_handler lib api env be req [nm] s =
      (json_response lib (if ir_status r = ''infra_error'' then 502 else 200) (snd (invoke_body lib (show_int (sint i)) r)),
       s\<lparr>pl_db := d2, pl_mgr := mg'\<rparr>)"
    using assms(3,6,7) 1(1) by (simp add: invoke_handler_def Let_def case_prod_beta)
  with 2 show ?thesis
    by (intro exI [of _ "show_int (sint i)"] exI [of _ "s\<lparr>pl_db := d2, pl_mgr := mg'\<rparr>"] exI [of _ "row_to_record api st"] exI [of _ d3])
      (simp add: row_to_record_ok stored_record_def)
qed

theorem invoke_answers_and_records_witness:
  "\<exists>d (fn :: function_rec) r mg' invocation_id s' rec d3.
      invoke demo_env (make_runtime_backend None demo_env) (fn_spec fn) demo_body demo_warm = Some (r, mg')
    \<and> invoke_handler mj_lib mem_api demo_env (make_runtime_backend None demo_env) demo_post [''hello''] \<lparr>pl_db = d, pl_mgr = demo_warm\<rparr> =
        (json_response mj_lib (if ir_status r = ''infra_error'' then 502 else 200) (snd (invoke_body mj_lib invocation_id r)), s')
    \<and> store_get mem_api invocation_id (pl_db s') = (Inr (Some rec), d3) \<and> iv_id rec = invocation_id"
proof -
  let ?be = "make_runtime_backend None demo_env"
  obtain d now where ins: "register_insert mem_api deployed_spec mem_empty = (Inr (), d)" "mem_ok d"
    "mem_tbl d = (mem_tbl mem_empty)(c_str (fs_name deployed_spec) \<mapsto> spec_row deployed_spec now)"
    using register_insert_ok [OF mem_upsert mem_empty_ok(1) deployed_cpu] by blast
  have d: "m_invocations d = []" "m_last d = 0" using mem_register_keeps_invocations [OF ins(1)] by simp_all
  from registry_get_ok [OF mem_select ins(2), of "''hello''"] ins(3)
  obtain d1 st where get: "registry_get mem_api ''hello'' d = (Inr (Some (row_to_function mem_api st)), d1)"
    "on_row mem_api st function_columns (spec_row deployed_spec now)"
    by (auto simp: deployed_spec_def)
  have "d1 = d" using get(1)
    by (auto simp: registry_get_def stmt_new_def sql_no_nul mem_prepare stmt_step_def mem_api_step mem_step_def sql_distinct
        bind_text_def mem_api_def split: option.splits)
  then have ok: "mem_iok d1" "mem_room d1" using d by (simp_all add: mem_iok_def mem_room_def)
  let ?fn = "row_to_function mem_api st"
  have "0 < sint (fs_timeout_ms (fn_spec ?fn))"
    using row_to_function_spec_row [OF get(2)] by (simp add: stored_def deployed_spec_def default_spec_def)
  then obtain r mg' where inv: "invoke demo_env ?be (fn_spec ?fn) demo_body demo_warm = Some (r, mg')"
    using chosen.invoke_returns [OF demo_finite] by blast
  have body: "demo_body = (if rq_body demo_post = [] then ''{}'' else rq_body demo_post)" by (simp add: demo_body_def)
  have get': "registry_get mem_api ''hello'' (pl_db \<lparr>pl_db = d, pl_mgr = demo_warm\<rparr>) = (Inr (Some ?fn), d1)" using get(1) by simp
  have inv': "invoke demo_env ?be (fn_spec ?fn) demo_body (pl_mgr \<lparr>pl_db = d, pl_mgr = demo_warm\<rparr>) = Some (r, mg')" using inv by simp
  from invoke_answers_and_records [OF mem_insert_invocation mem_select_invocation get' ok body inv', of mj_lib] inv
  show ?thesis by blast
qed

section \<open>Redeploying\<close>

lemma invoke_handler_mgr:
  assumes "registry_get api nm (pl_db s) = (Inr (Some fn), d1)"
    and "invoke env be (fn_spec fn) (if rq_body req = [] then ''{}'' else rq_body req) (pl_mgr s) = Some (r, mg')"
  shows "pl_mgr (snd (invoke_handler lib api env be req [nm] s)) = mg'"
  using assms by (auto simp: invoke_handler_def Let_def split: prod.split sum.split)

text \<open>
  A redeploy does not replace the running container: deploying a name again stores the
  new specification, and is answered with it, but the runtime manager is not told. An
  invocation that follows is sent to the container that was started from the old image, for
  as long as it answers: the same container stays tracked, with its old idle timeout, and the
  control plane does nothing but read its clock and send the request to the old port.
\<close>
theorem redeploy_keeps_old_runtime:
  assumes "upsert_law api ok tbl" "select_law api ok tbl" "ok (pl_db s)"
    and "j_parse lib (rq_body req) = Some body" "j_contains lib body ''name''" "j_contains lib body ''image''"
    and "read_spec lib idle_default body = Some spec" "storable_real (fs_cpu spec)" "c_str nm = c_str (fs_name spec)"
    and "om_find (runtimes (pl_mgr s)) (c_str (fs_name spec)) = Some rt"
    and "input = (if rq_body req2 = [] then ''{}'' else rq_body req2)"
    and "call_runtime env (stored spec) input (host_port rt)
          (snd (steady_now env (snd (steady_now env (mworld (pl_mgr s)))))) = Some (resp, w2)"
    and "cr_ok resp" "\<not> cr_timed_out resp"
  shows "\<exists>s1 s2 now out rt'. deploy_handler lib api idle_default req ps s =
        (json_response lib 201 (function_to_json lib \<lparr>fn_spec = stored spec, fn_status = FN_READY, fn_created_at = now\<rparr>), s1)
    \<and> invoke_handler lib api env be req2 [nm] s1 = (out, s2)
    \<and> om_find (runtimes (pl_mgr s2)) (c_str (fs_name spec)) = Some rt'
    \<and> container_id rt' = container_id rt \<and> host_port rt' = host_port rt \<and> idle_timeout_ms rt' = idle_timeout_ms rt
    \<and> hist (mworld (pl_mgr s2)) = hist (mworld (pl_mgr s)) @
        [ClockRead, ClockRead,
         Connect ''127.0.0.1'' (host_port rt mod 65536) (timeval_of (sint (fs_timeout_ms spec))),
         Send (request_bytes ''127.0.0.1'' ''POST'' ''/invoke'' input ''application/json''),
         ClockRead, ClockRead]"
proof -
  obtain d1 now where 1: "register_function api spec (pl_db s) =
      (Inr \<lparr>fn_spec = stored spec, fn_status = FN_READY, fn_created_at = now\<rparr>, d1)" "ok d1"
    "tbl d1 = (tbl (pl_db s))(c_str (fs_name spec) \<mapsto> spec_row spec now)"
    using register_function_ok [OF assms(1,2,3,8)] by blast
  let ?s1 = "s\<lparr>pl_db := d1\<rparr>"
  have dep: "deploy_handler lib api idle_default req ps s = (json_response lib 201 (function_to_json lib
      \<lparr>fn_spec = stored spec, fn_status = FN_READY, fn_created_at = now\<rparr>), ?s1)"
    using assms(4-7) 1(1) by (simp add: deploy_handler_def)
  from registry_get_ok [OF assms(2) 1(2), of nm] 1(3) assms(9)
  obtain d2 st where 2: "on_row api st function_columns (spec_row spec now)"
    "registry_get api nm d1 = (Inr (Some (row_to_function api st)), d2)" by auto
  have fn: "fn_spec (row_to_function api st) = stored spec" using row_to_function_spec_row [OF 2(1)] by simp
  have st: "fs_name (stored spec) = c_str (fs_name spec)" "fs_timeout_ms (stored spec) = fs_timeout_ms spec" by (simp_all add: stored_def)
  have "om_find (runtimes (pl_mgr ?s1)) (fs_name (stored spec)) = Some rt"
    "call_runtime env (stored spec) input (host_port rt) (snd (steady_now env (snd (steady_now env (mworld (pl_mgr ?s1)))))) = Some (resp, w2)"
    using assms(10,12) st by simp_all
  from invoke_warm [OF this assms(13,14), of be] obtain r mg' where inv: "invoke env be (stored spec) input (pl_mgr ?s1) = Some (r, mg')"
    "om_find (runtimes mg') (c_str (fs_name spec)) = Some (rt\<lparr>rt_state := IDLE, last_used_at := e_now env (hist w2 @ [ClockRead])\<rparr>)"
    "hist (mworld mg') = hist (mworld (pl_mgr s)) @ [ClockRead, ClockRead,
       Connect ''127.0.0.1'' (host_port rt mod 65536) (timeval_of (sint (fs_timeout_ms spec))),
       Send (request_bytes ''127.0.0.1'' ''POST'' ''/invoke'' input ''application/json''), ClockRead, ClockRead]"
    using st by auto
  have "pl_mgr (snd (invoke_handler lib api env be req2 [nm] ?s1)) = mg'"
    using invoke_handler_mgr [of api nm ?s1 "row_to_function api st" d2 env be req2 r mg' lib] 2(2) fn inv(1) assms(11) by simp
  with dep inv(2,3) show ?thesis
    by (intro exI [of _ ?s1] exI [of _ "snd (invoke_handler lib api env be req2 [nm] ?s1)"] exI [of _ now]
        exI [of _ "fst (invoke_handler lib api env be req2 [nm] ?s1)"]
        exI [of _ "rt\<lparr>rt_state := IDLE, last_used_at := e_now env (hist w2 @ [ClockRead])\<rparr>"]) simp
qed

lemma warm_call_any:
  "map_option fst (call_runtime demo_env (stored deployed_spec) demo_body (host_port demo_runtime)
      (snd (steady_now demo_env (snd (steady_now demo_env (mworld demo_warm)))))) =
   Some (demo_answer\<lparr>cr_headers := [(''Content-Type'', ''text/plain'')]\<rparr>)"
  by code_simp

theorem redeploy_keeps_old_runtime_witness:
  "\<exists>s1 s2 now out rt'. deploy_handler mj_lib mem_api 60000 demo_post [] demo_plane =
        (json_response mj_lib 201 (function_to_json mj_lib \<lparr>fn_spec = stored deployed_spec, fn_status = FN_READY, fn_created_at = now\<rparr>), s1)
    \<and> invoke_handler mj_lib mem_api demo_env (make_runtime_backend None demo_env) demo_post [''hello''] s1 = (out, s2)
    \<and> om_find (runtimes (pl_mgr s2)) ''hello'' = Some rt' \<and> container_id rt' = ''abc123''"
proof -
  obtain w2 where call: "call_runtime demo_env (stored deployed_spec) demo_body (host_port demo_runtime)
      (snd (steady_now demo_env (snd (steady_now demo_env (mworld (pl_mgr demo_plane)))))) =
      Some (demo_answer\<lparr>cr_headers := [(''Content-Type'', ''text/plain'')]\<rparr>, w2)"
    using warm_call_any by auto
  have nm: "c_str ''hello'' = c_str (fs_name deployed_spec)" "c_str (fs_name deployed_spec) = ''hello''" by code_simp+
  have find: "om_find (runtimes (pl_mgr demo_plane)) (c_str (fs_name deployed_spec)) = Some demo_runtime"
    using demo_warm_find nm by (simp add: demo_spec_def)
  have ok: "cr_ok (demo_answer\<lparr>cr_headers := [(''Content-Type'', ''text/plain'')]\<rparr>)"
    "\<not> cr_timed_out (demo_answer\<lparr>cr_headers := [(''Content-Type'', ''text/plain'')]\<rparr>)"
    by (simp_all add: demo_answer_def default_response_def)
  have req: "mem_ok (pl_db demo_plane)" "j_contains mj_lib (MO [(''name'', MS ''hello''), (''image'', MS ''hello:v1'')]) ''name''"
    "j_contains mj_lib (MO [(''name'', MS ''hello''), (''image'', MS ''hello:v1'')]) ''image''"
    "j_parse mj_lib (rq_body demo_post) = Some (MO [(''name'', MS ''hello''), (''image'', MS ''hello:v1'')])"
    "demo_body = (if rq_body demo_post = [] then ''{}'' else rq_body demo_post)"
    by (simp_all add: mem_empty_ok mj_lib_def mj_field_def demo_body_def)
  show ?thesis
    using redeploy_keeps_old_runtime [OF mem_upsert mem_select req(1) req(4) req(2,3) demo_read_spec deployed_cpu nm(1) find
        req(5) call ok, where ps = "[]" and be = "make_runtime_backend None demo_env"]
    by (auto simp: nm(2) demo_runtime_def)
qed

section \<open>Routes\<close>

lemma api_route_segments:
  "map (\<lambda>r. (ro_method r, ro_segments r)) (api_routes lib api env be idle) =
    [(''GET'', [''health'']), (''POST'', [''functions'']), (''GET'', [''functions'', ''{name}'']),
     (''DELETE'', [''functions'', ''{name}'']), (''POST'', [''functions'', ''{name}'', ''invoke'']),
     (''GET'', [''functions'', ''{name}'', ''runtime'']), (''GET'', [''runtimes'']), (''GET'', [''metrics'']),
     (''GET'', [''invocations'', ''{id}''])]"
  by (simp add: api_routes_def make_route_def split_path_def)

lemma dispatch_deploy:
  "rq_method req = ''POST'' \<Longrightarrow>
    dispatch (api_routes lib api env be idle) req [''functions''] False s = deploy_handler lib api idle req [] s"
  by (simp add: api_routes_def make_route_def split_path_def match_route_def is_param_def)

lemma dispatch_invoke:
  "rq_method req = ''POST'' \<Longrightarrow>
    dispatch (api_routes lib api env be idle) req [''functions'', nm, ''invoke''] False s = invoke_handler lib api env be req [nm] s"
  by (simp add: api_routes_def make_route_def split_path_def match_route_def is_param_def)

lemma dispatch_invocation:
  "rq_method req = ''GET'' \<Longrightarrow>
    dispatch (api_routes lib api env be idle) req [''invocations'', i] False s = invocation_handler lib api req [i] s"
  by (simp add: api_routes_def make_route_def split_path_def match_route_def is_param_def)

text \<open>A request for the path made of the given segments, followed by a query string.\<close>

definition routed ::
  "'j json_lib \<Rightarrow> ('d, 'st) sqlite3 \<Rightarrow> env \<Rightarrow> backend \<Rightarrow> int \<Rightarrow> http_request \<Rightarrow> string \<Rightarrow> string list \<Rightarrow> string \<Rightarrow> 'd plane
    \<Rightarrow> response outcome \<times> 'd plane" where
  "routed lib api env be idle req m segs q s =
     (let req' = req\<lparr>rq_method := m, rq_path := path_of segs @ q\<rparr>
      in dispatch (api_routes lib api env be idle) req' (split_path (rq_path req')) False s)"

lemma routed_eq:
  assumes "list_all plain_segment segs" "q = [] \<or> hd q = CHR ''?''"
  shows "routed lib api env be idle req m segs q s =
    dispatch (api_routes lib api env be idle) (req\<lparr>rq_method := m, rq_path := path_of segs @ q\<rparr>) segs False s"
  using split_path_path_of [OF assms] by (simp add: routed_def)

text \<open>
  The API's routes lead where they say: for every name or id that is one path segment,
  and whatever query string follows, each documented method and path reaches its own
  handler, with that segment as its only parameter where the path has one; no route hides
  another.
\<close>
theorem api_routing:
  assumes "plain_segment nm" "q = [] \<or> hd q = CHR ''?''"
  shows "routed lib api env be idle req ''GET'' [''health''] q s
        = health_handler lib (req\<lparr>rq_method := ''GET'', rq_path := path_of [''health''] @ q\<rparr>) [] s
    \<and> routed lib api env be idle req ''POST'' [''functions''] q s
        = deploy_handler lib api idle (req\<lparr>rq_method := ''POST'', rq_path := path_of [''functions''] @ q\<rparr>) [] s
    \<and> routed lib api env be idle req ''GET'' [''functions'', nm] q s
        = describe_handler lib api (req\<lparr>rq_method := ''GET'', rq_path := path_of [''functions'', nm] @ q\<rparr>) [nm] s
    \<and> routed lib api env be idle req ''DELETE'' [''functions'', nm] q s
        = delete_handler lib api be (req\<lparr>rq_method := ''DELETE'', rq_path := path_of [''functions'', nm] @ q\<rparr>) [nm] s
    \<and> routed lib api env be idle req ''POST'' [''functions'', nm, ''invoke''] q s
        = invoke_handler lib api env be (req\<lparr>rq_method := ''POST'', rq_path := path_of [''functions'', nm, ''invoke''] @ q\<rparr>) [nm] s
    \<and> routed lib api env be idle req ''GET'' [''functions'', nm, ''runtime''] q s
        = runtime_handler lib api env (req\<lparr>rq_method := ''GET'', rq_path := path_of [''functions'', nm, ''runtime''] @ q\<rparr>) [nm] s
    \<and> routed lib api env be idle req ''GET'' [''runtimes''] q s
        = runtimes_handler lib env (req\<lparr>rq_method := ''GET'', rq_path := path_of [''runtimes''] @ q\<rparr>) [] s
    \<and> routed lib api env be idle req ''GET'' [''metrics''] q s
        = metrics_handler env (req\<lparr>rq_method := ''GET'', rq_path := path_of [''metrics''] @ q\<rparr>) [] s
    \<and> routed lib api env be idle req ''GET'' [''invocations'', nm] q s
        = invocation_handler lib api (req\<lparr>rq_method := ''GET'', rq_path := path_of [''invocations'', nm] @ q\<rparr>) [nm] s"
proof -
  have ps: "list_all plain_segment [''health'']" "list_all plain_segment [''functions'']"
    "list_all plain_segment [''functions'', nm]" "list_all plain_segment [''functions'', nm, ''invoke'']"
    "list_all plain_segment [''functions'', nm, ''runtime'']" "list_all plain_segment [''runtimes'']"
    "list_all plain_segment [''metrics'']" "list_all plain_segment [''invocations'', nm]"
    using assms(1) by (simp_all add: plain_segment_def)
  show ?thesis
    unfolding ps [THEN routed_eq, OF assms(2)]
    by (simp add: api_routes_def make_route_def split_path_def match_route_def is_param_def)
qed

theorem api_routing_witness:
  "routed mj_lib mem_api demo_env (make_runtime_backend None demo_env) 60000 demo_post ''POST'' [''functions'', ''hello'', ''invoke''] '''' demo_plane
    = invoke_handler mj_lib mem_api demo_env (make_runtime_backend None demo_env)
        (demo_post\<lparr>rq_method := ''POST'', rq_path := path_of [''functions'', ''hello'', ''invoke''] @ ''''\<rparr>) [''hello''] demo_plane"
  using api_routing [of "''hello''" "''''" mj_lib mem_api demo_env "make_runtime_backend None demo_env" 60000 demo_post demo_plane]
  by (simp add: plain_segment_def)

end
