(* ===== verification/Cli.thy ===== *)
theory Cli
  imports Http_Client Control_Plane
begin

text \<open>
  \<^verbatim>\<open>cli/src/main.cpp\<close>: the command-line client. A command gives what it prints on its two
  streams and its exit code, throws, or blocks on a socket without timeout. The JSON library
  is the parameter of \<open>Control_Plane\<close>. Lines written to the output stream before an exception are not kept: the uncaught
  exception ends the process.
\<close>

section \<open>Definitions\<close>

record args =
  positional :: "string list"
  flags :: "(string, string) omap"

text \<open>The loop of \<^verbatim>\<open>parse_args\<close> over the arguments that are left.\<close>

fun parse_loop :: "string list \<Rightarrow> args \<Rightarrow> args" where
  "parse_loop [] a = a"
| "parse_loop (token # rest) a =
     (if prefix ''--'' token
      then (case rest of
              [] \<Rightarrow> a\<lparr>flags := om_put (drop 2 token) '''' (flags a)\<rparr>
            | v # rest' \<Rightarrow> parse_loop rest' (a\<lparr>flags := om_put (drop 2 token) v (flags a)\<rparr>))
      else parse_loop rest (a\<lparr>positional := positional a @ [token]\<rparr>))"

definition parse_args :: "string list \<Rightarrow> args" where
  "parse_args argv = parse_loop argv \<lparr>positional = [], flags = []\<rparr>"

text \<open>Multiplication of \<^verbatim>\<open>int\<close>s; overflow is undefined.\<close>

definition int_mul :: "int \<Rightarrow> int \<Rightarrow> cxx_error + int" where
  "int_mul a b = (if - (2 ^ 31) \<le> a * b \<and> a * b < 2 ^ 31 then Inr (a * b) else Inl SignedOverflow)"

definition scaled :: "string \<Rightarrow> int \<Rightarrow> cxx_error + int" where
  "scaled s f = (case stoi s of Inl e \<Rightarrow> Inl e | Inr n \<Rightarrow> int_mul n f)"

definition parse_duration_ms :: "string \<Rightarrow> int \<Rightarrow> cxx_error + int" where
  "parse_duration_ms value fallback =
     (if value = [] then Inr fallback
      else if length value > 2 \<and> drop (length value - 2) value = ''ms'' then stoi (take (length value - 2) value)
      else if last value = CHR ''s'' then scaled (take (length value - 1) value) 1000
      else if last value = CHR ''m'' then scaled (take (length value - 1) value) 60000
      else stoi value)"

definition parse_memory_mb :: "string \<Rightarrow> int \<Rightarrow> cxx_error + int" where
  "parse_memory_mb value fallback =
     (if value = [] then Inr fallback
      else if length value > 2 \<and> drop (length value - 2) value = ''Mi'' then stoi (take (length value - 2) value)
      else if length value > 2 \<and> drop (length value - 2) value = ''Gi'' then scaled (take (length value - 2) value) 1024
      else stoi value)"

text \<open>
  The host and port of \<^verbatim>\<open>FAAS_API\<close>. Without a colon \<^verbatim>\<open>find\<close> gives \<^verbatim>\<open>npos\<close>, and \<^verbatim>\<open>npos + 1\<close> wraps to
  zero: the whole string is taken for the host and for the port.
\<close>

definition make_client :: "string option \<Rightarrow> cxx_error + string \<times> int" where
  "make_client env_value =
     (let endpoint = (case env_value of None \<Rightarrow> ''127.0.0.1:8080'' | Some v \<Rightarrow> c_str v);
          (host, port) = (case find_char (CHR '':'') endpoint of
             None \<Rightarrow> (endpoint, endpoint)
           | Some colon \<Rightarrow> (take colon endpoint, drop (colon + 1) endpoint))
      in case stoi port of Inl e \<Rightarrow> Inl e | Inr p \<Rightarrow> Inr (host, p))"

record cli_result =
  co_out :: string
  co_err :: string
  co_exit :: int

definition says :: "string \<Rightarrow> cli_result outcome" where
  "says out = Returns \<lparr>co_out = out, co_err = '''', co_exit = 0\<rparr>"

definition fails :: "string \<Rightarrow> cli_result outcome" where
  "fails err = Returns \<lparr>co_out = '''', co_err = err, co_exit = 1\<rparr>"

definition print_api_error :: "'j json_lib \<Rightarrow> client_response \<Rightarrow> string" where
  "print_api_error lib resp =
     (if \<not> cr_ok resp
      then ''error: could not reach control plane ('' @ cr_error resp @ '')'' @ [LF]
           @ ''is the control plane running? see: make run'' @ [LF]
      else case Option.bind (j_parse lib (cr_body resp)) (\<lambda>body. j_value_string lib body ''error'' (cr_body resp)) of
        Some e \<Rightarrow> ''error: '' @ e @ [LF]
      | None \<Rightarrow> ''error: '' @ cr_body resp @ [LF])"

text \<open>What every command does with the API: make a client, make the call, look at the answer.\<close>

definition with_api ::
  "string option \<Rightarrow> (string \<Rightarrow> int \<Rightarrow> world \<Rightarrow> (client_response \<times> world) option) \<Rightarrow> (client_response \<Rightarrow> cli_result outcome)
    \<Rightarrow> world \<Rightarrow> cli_result outcome \<times> world" where
  "with_api api_env call k w =
     (case make_client api_env of
        Inl _ \<Rightarrow> (Throws, w)
      | Inr (host, port) \<Rightarrow>
          (case call host port w of None \<Rightarrow> (Blocks, w) | Some (resp, w') \<Rightarrow> (k resp, w')))"

definition if_ok :: "'j json_lib \<Rightarrow> (client_response \<Rightarrow> cli_result outcome) \<Rightarrow> client_response \<Rightarrow> cli_result outcome" where
  "if_ok lib k resp = (if \<not> cr_ok resp \<or> 300 \<le> cr_status resp then fails (print_api_error lib resp) else k resp)"

text \<open>One optional field of the deploy request; \<^const>\<open>None\<close> is an exception.\<close>

definition opt_field :: "args \<Rightarrow> string \<Rightarrow> string \<Rightarrow> (string \<Rightarrow> 'j option) \<Rightarrow> (string \<times> 'j) list option" where
  "opt_field a flag key conv =
     (case om_find (flags a) flag of None \<Rightarrow> Some [] | Some v \<Rightarrow> map_option (\<lambda>j. [(key, j)]) (conv v))"

definition int_field :: "'j json_lib \<Rightarrow> cxx_error + int \<Rightarrow> 'j option" where
  "int_field lib r = (case r of Inl _ \<Rightarrow> None | Inr n \<Rightarrow> Some (j_int lib n))"

definition deploy_fields :: "'j json_lib \<Rightarrow> args \<Rightarrow> (string \<times> 'j) list option" where
  "deploy_fields lib a =
     Option.bind (opt_field a ''timeout'' ''timeout_ms'' (\<lambda>v. int_field lib (parse_duration_ms v 5000))) (\<lambda>f1.
     Option.bind (opt_field a ''memory'' ''memory_mb'' (\<lambda>v. int_field lib (parse_memory_mb v 256))) (\<lambda>f2.
     Option.bind (opt_field a ''cpu'' ''cpu'' (\<lambda>v. case stod v of Inl _ \<Rightarrow> None | Inr x \<Rightarrow> Some (j_double lib x))) (\<lambda>f3.
     Option.bind (opt_field a ''concurrency'' ''max_concurrency'' (\<lambda>v. int_field lib (stoi v))) (\<lambda>f4.
     Option.bind (opt_field a ''idle-timeout'' ''idle_timeout_ms'' (\<lambda>v. int_field lib (parse_duration_ms v 60000))) (\<lambda>f5.
       Some (f1 @ f2 @ f3 @ f4 @ f5))))))"

definition cmd_deploy :: "'j json_lib \<Rightarrow> string option \<Rightarrow> env \<Rightarrow> args \<Rightarrow> world \<Rightarrow> cli_result outcome \<times> world" where
  "cmd_deploy lib api_env env a w =
     (case positional a of
        [] \<Rightarrow> (fails (''usage: cloudfn deploy <name> --image <image> ''
                 @ ''[--timeout 5s] [--memory 256Mi] [--cpu 0.5] [--concurrency 1] ''
                 @ ''[--idle-timeout 60s]'' @ [LF]), w)
      | nm # _ \<Rightarrow>
          (case om_find (flags a) ''image'' of
             None \<Rightarrow> (fails (''error: --image is required'' @ [LF]), w)
           | Some img \<Rightarrow>
               if img = [] then (fails (''error: --image is required'' @ [LF]), w)
               else (case Option.bind (deploy_fields lib a) (\<lambda>fs. j_dump lib
                         (j_object lib ([(''name'', j_string lib nm), (''image'', j_string lib img)] @ fs))) of
                   None \<Rightarrow> (Throws, w)
                 | Some body \<Rightarrow>
                     with_api api_env (\<lambda>host port. client_post env host port ''/functions'' body ''application/json'' 0)
                       (if_ok lib (\<lambda>resp. says (''deployed '' @ nm @ [LF]))) w)))"

text \<open>A printed line whose value may be missing; \<^const>\<open>None\<close> is an exception.\<close>

definition line :: "string \<Rightarrow> string option \<Rightarrow> string \<Rightarrow> string option" where
  "line label v unit_text = map_option (\<lambda>x. label @ x @ unit_text @ [LF]) v"

fun all_lines :: "string option list \<Rightarrow> string option" where
  "all_lines [] = Some ''''"
| "all_lines (l # ls) = Option.bind l (\<lambda>x. map_option (\<lambda>xs. x @ xs) (all_lines ls))"

definition show_c_int :: "c_int \<Rightarrow> string" where "show_c_int n = show_int (sint n)"

definition or_throw :: "int \<Rightarrow> string option \<Rightarrow> cli_result outcome" where
  "or_throw code res = (case res of None \<Rightarrow> Throws | Some out \<Rightarrow> Returns \<lparr>co_out = out, co_err = '''', co_exit = code\<rparr>)"

definition describe_output :: "'j json_lib \<Rightarrow> 'j \<Rightarrow> string option" where
  "describe_output lib fn = all_lines
     [line ''Name:        '' (j_value_string lib fn ''name'' '''') '''',
      line ''Version:     '' (map_option show_c_int (j_value_int lib fn ''version'' 1)) '''',
      line ''Image:       '' (j_value_string lib fn ''image'' '''') '''',
      line ''Timeout:     '' (map_option show_c_int (j_value_int lib fn ''timeout_ms'' 0)) ''ms'',
      line ''Memory:      '' (map_option show_c_int (j_value_int lib fn ''memory_mb'' 0)) ''Mi'',
      line ''CPU:         '' (map_option double_text (j_value_double lib fn ''cpu'' 0)) '''',
      line ''Concurrency: '' (map_option show_c_int (j_value_int lib fn ''max_concurrency'' 1)) '''',
      line ''Idle timeout: '' (map_option show_c_int (j_value_int lib fn ''idle_timeout_ms'' 0)) ''ms'',
      line ''Status:      '' (j_value_string lib fn ''status'' '''') '''']"

definition cmd_describe :: "'j json_lib \<Rightarrow> string option \<Rightarrow> env \<Rightarrow> args \<Rightarrow> world \<Rightarrow> cli_result outcome \<times> world" where
  "cmd_describe lib api_env env a w =
     (case positional a of
        [] \<Rightarrow> (fails (''usage: cloudfn describe <name>'' @ [LF]), w)
      | nm # _ \<Rightarrow>
          with_api api_env (\<lambda>host port. client_get env host port (''/functions/'' @ nm) 0)
            (if_ok lib (\<lambda>resp. or_throw 0 (Option.bind (j_parse lib (cr_body resp)) (describe_output lib)))) w)"

definition invoke_output :: "'j json_lib \<Rightarrow> 'j \<Rightarrow> string option" where
  "invoke_output lib body = all_lines
     [line ''status: '' (j_value_string lib body ''status'' '''') '''',
      (if j_contains lib body ''result'' then line ''result: '' (j_dump lib (j_index lib body ''result'')) ''''
       else if j_contains lib body ''error'' then line ''error: '' (j_value_string lib body ''error'' '''') ''''
       else Some ''''),
      line ''duration: '' (map_option show_c_int (j_value_int lib body ''duration_ms'' 0)) '' ms'',
      line ''cold_start: '' (map_option bool_str (j_value_bool lib body ''cold_start'' False)) '''',
      line ''invocation_id: '' (j_value_string lib body ''invocation_id'' '''') '''']"

definition cmd_invoke :: "'j json_lib \<Rightarrow> string option \<Rightarrow> env \<Rightarrow> args \<Rightarrow> world \<Rightarrow> cli_result outcome \<times> world" where
  "cmd_invoke lib api_env env a w =
     (case positional a of
        [] \<Rightarrow> (fails (''usage: cloudfn invoke <name> --data '' @ [CHR 0x27] @ ''<json>'' @ [CHR 0x27, LF]), w)
      | nm # _ \<Rightarrow>
          let data = (case om_find (flags a) ''data'' of None \<Rightarrow> ''{}'' | Some d \<Rightarrow> d) in
          with_api api_env (\<lambda>host port. client_post env host port (''/functions/'' @ nm @ ''/invoke'') data ''application/json'' 0)
            (\<lambda>resp.
               if \<not> cr_ok resp then fails (print_api_error lib resp)
               else case j_parse lib (cr_body resp) of
                 None \<Rightarrow> fails (''error: unexpected response: '' @ cr_body resp @ [LF])
               | Some body \<Rightarrow>
                   if 300 \<le> cr_status resp
                   then (case j_value_string lib body ''error'' (cr_body resp) of
                           None \<Rightarrow> Throws | Some e \<Rightarrow> fails (''error: '' @ e @ [LF]))
                   else (case j_value_string lib body ''status'' '''' of
                           None \<Rightarrow> Throws
                         | Some st \<Rightarrow> or_throw (if st = ''success'' then 0 else 1) (invoke_output lib body))) w)"

definition invocation_output :: "'j json_lib \<Rightarrow> 'j \<Rightarrow> string option" where
  "invocation_output lib rec = all_lines
     [line ''id:         '' (j_value_string lib rec ''id'' '''') '''',
      line ''function:   '' (j_value_string lib rec ''function'' '''') '''',
      line ''status:     '' (j_value_string lib rec ''status'' '''') '''',
      line ''result:     '' (if j_contains lib rec ''result'' then j_dump lib (j_index lib rec ''result'') else Some ''null'') '''',
      line ''duration:   '' (map_option show_c_int (j_value_int lib rec ''duration_ms'' 0)) '' ms'',
      line ''cold_start: '' (map_option bool_str (j_value_bool lib rec ''cold_start'' False)) '''']"

definition cmd_invocation :: "'j json_lib \<Rightarrow> string option \<Rightarrow> env \<Rightarrow> args \<Rightarrow> world \<Rightarrow> cli_result outcome \<times> world" where
  "cmd_invocation lib api_env env a w =
     (case positional a of
        [] \<Rightarrow> (fails (''usage: cloudfn invocation <id>'' @ [LF]), w)
      | i # _ \<Rightarrow>
          with_api api_env (\<lambda>host port. client_get env host port (''/invocations/'' @ i) 0)
            (if_ok lib (\<lambda>resp. or_throw 0 (Option.bind (j_parse lib (cr_body resp)) (invocation_output lib)))) w)"

definition cmd_logs :: "args \<Rightarrow> world \<Rightarrow> cli_result outcome \<times> world" where
  "cmd_logs a w =
     (case positional a of
        [] \<Rightarrow> (fails (''usage: cloudfn logs <name>'' @ [LF]), w)
      | _ \<Rightarrow> (says (''logs are not implemented yet'' @ [LF]), w))"

definition runtime_entry :: "'j json_lib \<Rightarrow> 'j \<Rightarrow> string option" where
  "runtime_entry lib entry =
     Option.bind (j_value_string lib entry ''function'' '''') (\<lambda>f.
     Option.bind (j_value_string lib entry ''state'' '''') (\<lambda>st.
     Option.bind (j_value_int lib entry ''host_port'' 0) (\<lambda>p.
     Option.bind (j_value_long lib entry ''idle_ms'' 0) (\<lambda>idle.
       Some (f @ [TAB] @ st @ [TAB] @ ''port='' @ show_int (sint p) @ [TAB] @ ''idle_ms='' @ show_int (sint idle) @ [LF])))))"

definition cmd_runtimes :: "'j json_lib \<Rightarrow> string option \<Rightarrow> env \<Rightarrow> world \<Rightarrow> cli_result outcome \<times> world" where
  "cmd_runtimes lib api_env env w =
     with_api api_env (\<lambda>host port. client_get env host port ''/runtimes'' 0)
       (if_ok lib (\<lambda>resp. or_throw 0 (Option.bind (j_parse lib (cr_body resp)) (\<lambda>entries.
          if j_elements lib entries = [] then Some (''no active runtimes'' @ [LF])
          else all_lines (map (runtime_entry lib) (j_elements lib entries)))))) w"

definition cmd_delete :: "'j json_lib \<Rightarrow> string option \<Rightarrow> env \<Rightarrow> args \<Rightarrow> world \<Rightarrow> cli_result outcome \<times> world" where
  "cmd_delete lib api_env env a w =
     (case positional a of
        [] \<Rightarrow> (fails (''usage: cloudfn delete <name>'' @ [LF]), w)
      | nm # _ \<Rightarrow>
          with_api api_env (\<lambda>host port. client_del env host port (''/functions/'' @ nm) 0)
            (if_ok lib (\<lambda>resp. says (''deleted '' @ nm @ [LF]))) w)"

text \<open>\<^verbatim>\<open>main\<close>, on the arguments after the program's name.\<close>

definition cli_main ::
  "'j json_lib \<Rightarrow> string option \<Rightarrow> env \<Rightarrow> string list \<Rightarrow> world \<Rightarrow> cli_result outcome \<times> world" where
  "cli_main lib api_env env argv w =
     (case argv of
        [] \<Rightarrow> (fails (''usage: cloudfn <deploy|describe|invoke|invocation|logs|delete|runtimes> ...'' @ [LF]), w)
      | command # rest \<Rightarrow>
          let a = parse_args rest in
          if command = ''deploy'' then cmd_deploy lib api_env env a w
          else if command = ''describe'' then cmd_describe lib api_env env a w
          else if command = ''invoke'' then cmd_invoke lib api_env env a w
          else if command = ''invocation'' then cmd_invocation lib api_env env a w
          else if command = ''logs'' then cmd_logs a w
          else if command = ''delete'' then cmd_delete lib api_env env a w
          else if command = ''runtimes'' then cmd_runtimes lib api_env env w
          else (fails (''unknown command: '' @ command @ [LF]), w))"

end
