(* ===== verification/Cli_Properties.thy ===== *)
theory Cli_Properties
  imports Cli Plane_Properties
begin

text \<open>
  The properties of the command line: how arguments and units are read.
\<close>

section \<open>Arguments\<close>

datatype cli_item = Pos string | Flag string string

fun item_tokens :: "cli_item \<Rightarrow> string list" where
  "item_tokens (Pos p) = [p]"
| "item_tokens (Flag k v) = [''--'' @ k, v]"

fun add_item :: "cli_item \<Rightarrow> args \<Rightarrow> args" where
  "add_item (Pos p) a = a\<lparr>positional := positional a @ [p]\<rparr>"
| "add_item (Flag k v) a = a\<lparr>flags := om_put k v (flags a)\<rparr>"

definition plain_item :: "cli_item \<Rightarrow> bool" where
  "plain_item i = (case i of Pos p \<Rightarrow> \<not> prefix ''--'' p | Flag _ _ \<Rightarrow> True)"

text \<open>
  A command line made of positional arguments and flags with values is taken apart into
  exactly these, the last value of a flag winning. A value may start with dashes.
\<close>

lemma parse_loop_items:
  "list_all plain_item items \<Longrightarrow> parse_loop (concat (map item_tokens items)) a = fold add_item items a"
proof (induction items arbitrary: a)
  case (Cons i items)
  then show ?case by (cases i) (simp_all add: plain_item_def)
qed simp

section \<open>Units\<close>

lemma show_int_last_digit: "0 \<le> n \<Longrightarrow> show_int n \<noteq> [] \<and> is_digit (last (show_int n))"
proof -
  assume n: "0 \<le> n"
  have "show_nat (nat n) \<noteq> []" by simp
  then have "last (show_nat (nat n)) \<in> set (show_nat (nat n))" by (rule last_in_set)
  with show_nat_digits [of "nat n"] n show ?thesis by (auto simp: show_int_def list_all_iff)
qed

lemma letters_not_digits: "\<not> is_digit (CHR ''s'')" "\<not> is_digit (CHR ''m'')" "\<not> is_digit (CHR ''i'')"
  by (simp_all add: is_digit_def)

lemma ends_with_two: "length v > 2 \<and> drop (length v - 2) v = [a, b] \<Longrightarrow> \<exists>u. u \<noteq> [] \<and> v = u @ [a, b]"
  by (metis append_take_drop_id length_greater_0_conv length_take less_or_eq_imp_le min.absorb2
      add_diff_inverse_nat diff_le_self leD take_eq_Nil2 zero_less_diff)

lemma no_unit:
  assumes "is_digit (last v)" "\<not> is_digit b"
  shows "\<not> (length v > 2 \<and> drop (length v - 2) v = [a, b])"
  using assms ends_with_two [of v a b] by auto

lemma one_letter_unit:
  assumes "u \<noteq> []" "is_digit (last u)" "\<not> is_digit a"
  shows "\<not> (length (u @ [x]) > 2 \<and> drop (length (u @ [x]) - 2) (u @ [x]) = [a, b])"
proof
  assume "length (u @ [x]) > 2 \<and> drop (length (u @ [x]) - 2) (u @ [x]) = [a, b]"
  then obtain t where "u @ [x] = (t @ [a]) @ [b]" using ends_with_two by fastforce
  then have "u = t @ [a]" by simp
  with assms show False by simp
qed

lemma two_letter_unit:
  "u \<noteq> [] \<Longrightarrow> length (u @ [a, b]) > 2 \<and> drop (length (u @ [a, b]) - 2) (u @ [a, b]) = [a, b]"
  by simp

lemma scaled_show_int:
  "0 \<le> n \<Longrightarrow> n < 2 ^ 31 \<Longrightarrow> 0 < f \<Longrightarrow>
    scaled (show_int n) f = (if n * f < 2 ^ 31 then Inr (n * f) else Inl SignedOverflow)"
proof -
  assume n: "0 \<le> n" "n < 2 ^ 31" and f: "0 < f"
  have "0 \<le> n * f" using n f by simp
  then show ?thesis using n by (simp add: scaled_def stoi_show_int int_mul_def)
qed

lemma duration_units:
  assumes n: "0 \<le> n" "n < 2 ^ 31"
  shows "parse_duration_ms (show_int n @ ''ms'') d = Inr n"
    and "parse_duration_ms (show_int n @ ''s'') d = scaled (show_int n) 1000"
    and "parse_duration_ms (show_int n @ ''m'') d = scaled (show_int n) 60000"
    and "parse_duration_ms (show_int n) d = Inr n"
proof -
  have u: "show_int n \<noteq> []" "is_digit (last (show_int n))" using show_int_last_digit n(1) by blast+
  have l: "last (show_int n) \<noteq> CHR ''s''" "last (show_int n) \<noteq> CHR ''m''" using u(2) letters_not_digits by metis+
  show "parse_duration_ms (show_int n @ ''ms'') d = Inr n"
    using u n by (simp add: parse_duration_ms_def stoi_show_int)
  show "parse_duration_ms (show_int n @ ''s'') d = scaled (show_int n) 1000"
    using one_letter_unit [OF u letters_not_digits(2), of "CHR ''s''" "CHR ''s''"]
    by (auto simp: parse_duration_ms_def)
  show "parse_duration_ms (show_int n @ ''m'') d = scaled (show_int n) 60000"
    using one_letter_unit [OF u letters_not_digits(2), of "CHR ''m''" "CHR ''s''"]
    by (auto simp: parse_duration_ms_def)
  show "parse_duration_ms (show_int n) d = Inr n"
    using no_unit [OF u(2) letters_not_digits(1), of "CHR ''m''"] u l n
    by (auto simp: parse_duration_ms_def stoi_show_int)
qed

lemma memory_units:
  assumes n: "0 \<le> n" "n < 2 ^ 31"
  shows "parse_memory_mb (show_int n @ ''Mi'') d = Inr n"
    and "parse_memory_mb (show_int n @ ''Gi'') d = scaled (show_int n) 1024"
    and "parse_memory_mb (show_int n) d = Inr n"
proof -
  have u: "show_int n \<noteq> []" "is_digit (last (show_int n))" using show_int_last_digit n(1) by blast+
  show "parse_memory_mb (show_int n @ ''Mi'') d = Inr n" "parse_memory_mb (show_int n @ ''Gi'') d = scaled (show_int n) 1024"
    using u n by (simp_all add: parse_memory_mb_def stoi_show_int)
  show "parse_memory_mb (show_int n) d = Inr n"
    using no_unit [OF u(2) letters_not_digits(3), of "CHR ''M''"] no_unit [OF u(2) letters_not_digits(3), of "CHR ''G''"] u n
    by (auto simp: parse_memory_mb_def stoi_show_int)
qed

text \<open>
  Durations and memory sizes on the command line mean what their units say: for every
  non-negative \<^verbatim>\<open>int\<close> \<open>n\<close>, \<open>n\<close>ms and a bare \<open>n\<close> are \<open>n\<close> milliseconds, \<open>n\<close>s is a thousand and \<open>n\<close>m
  sixty thousand times as many, \<open>n\<close>Mi and a bare \<open>n\<close> are \<open>n\<close> megabytes and \<open>n\<close>Gi 1024 times as
  many; when the product does not fit an \<^verbatim>\<open>int\<close> the multiplication overflows, which is
  undefined. An empty value gives the default.
\<close>
theorem unit_suffixes:
  assumes "0 \<le> n" "n < 2 ^ 31"
  shows "parse_duration_ms (show_int n @ ''ms'') fallback = Inr n
    \<and> parse_duration_ms (show_int n @ ''s'') fallback = (if n * 1000 < 2 ^ 31 then Inr (n * 1000) else Inl SignedOverflow)
    \<and> parse_duration_ms (show_int n @ ''m'') fallback = (if n * 60000 < 2 ^ 31 then Inr (n * 60000) else Inl SignedOverflow)
    \<and> parse_duration_ms (show_int n) fallback = Inr n
    \<and> parse_memory_mb (show_int n @ ''Mi'') fallback = Inr n
    \<and> parse_memory_mb (show_int n @ ''Gi'') fallback = (if n * 1024 < 2 ^ 31 then Inr (n * 1024) else Inl SignedOverflow)
    \<and> parse_memory_mb (show_int n) fallback = Inr n
    \<and> parse_duration_ms '''' fallback = Inr fallback \<and> parse_memory_mb '''' fallback = Inr fallback"
proof (intro conjI)
  show "parse_duration_ms '''' fallback = Inr fallback" "parse_memory_mb '''' fallback = Inr fallback"
    by (simp_all add: parse_duration_ms_def parse_memory_mb_def)
qed (simp_all only: duration_units [OF assms] memory_units [OF assms] scaled_show_int [OF assms] zero_less_numeral)

theorem unit_suffixes_witness:
  "parse_duration_ms ''5s'' 0 = Inr 5000 \<and> parse_memory_mb ''3Gi'' 256 = Inr 3072
    \<and> parse_duration_ms ''36000m'' 0 = Inl SignedOverflow"
proof -
  have s: "show_int 5 = ''5''" "show_int 3 = ''3''" "show_int 36000 = ''36000''" by code_simp+
  show ?thesis using unit_suffixes [of 5 0] unit_suffixes [of 3 256] unit_suffixes [of 36000 0] by (simp add: s)
qed

section \<open>The flags of a deployment\<close>

text \<open>What the units on the command line stand for, in milliseconds and in megabytes.\<close>

definition duration_units_ms :: "(string \<times> int) set" where
  "duration_units_ms = {('''', 1), (''ms'', 1), (''s'', 1000), (''m'', 60000)}"

definition memory_units_mb :: "(string \<times> int) set" where
  "memory_units_mb = {('''', 1), (''Mi'', 1), (''Gi'', 1024)}"

lemma scaled_up:
  assumes "0 \<le> n" "1 \<le> k" "n * k < 2 ^ 31"
  shows "n < (2 ^ 31 :: int)"
proof -
  have "n * 1 \<le> n * k" using assms(1,2) by (rule mult_left_mono [rotated])
  with assms(3) show ?thesis by simp
qed

lemma duration_parsed:
  assumes "(u, k) \<in> duration_units_ms" "0 \<le> n" "n * k < 2 ^ 31"
  shows "parse_duration_ms (show_int n @ u) d = Inr (n * k)"
proof -
  have "1 \<le> k" using assms(1) by (auto simp: duration_units_ms_def)
  note n = assms(2) scaled_up [OF assms(2) this assms(3)]
  show ?thesis using assms(1,3) duration_units [OF n, of d] scaled_show_int [OF n] by (auto simp: duration_units_ms_def)
qed

lemma memory_parsed:
  assumes "(u, k) \<in> memory_units_mb" "0 \<le> n" "n * k < 2 ^ 31"
  shows "parse_memory_mb (show_int n @ u) d = Inr (n * k)"
proof -
  have "1 \<le> k" using assms(1) by (auto simp: memory_units_mb_def)
  note n = assms(2) scaled_up [OF assms(2) this assms(3)]
  show ?thesis using assms(1,3) memory_units [OF n, of d] scaled_show_int [OF n] by (auto simp: memory_units_mb_def)
qed

lemma cpu_parsed:
  assumes "list_all is_digit ip" "list_all is_digit fp" "ip @ fp \<noteq> []" "length ip \<le> 300" "length fp \<le> 300"
  shows "\<exists>x. stod (ip @ ''.'' @ fp) = Inr x \<and> dbl_finite x
    \<and> (\<forall>y. dbl_finite y \<longrightarrow>
         \<bar>dbl_value x - real (digits_val (ip @ fp)) / 10 ^ length fp\<bar> \<le> \<bar>dbl_value y - real (digits_val (ip @ fp)) / 10 ^ length fp\<bar>)"
proof -
  obtain x where x: "stod (ip @ ''.'' @ fp) = Inr x"
    "double_of_ratio False (int (digits_val (ip @ fp))) (10 ^ length fp) = Inr x"
    using stod_decimal [OF assms] by blast
  with double_of_ratio_nearest [OF x(2)] show ?thesis by (auto simp: signed_ratio_def)
qed

text \<open>
  C28: The flags of \<^verbatim>\<open>cloudfn deploy\<close> mean what they say. In the document the command sends, the two
  timeouts are the given number times the milliseconds of its unit, the memory is the number
  times the megabytes of its unit, the concurrency is the number given, and the CPU share is the
  double nearest to the decimal number given: no other finite double is nearer to the value
  its digits stand for. The numbers are those for which the products fit an \<^verbatim>\<open>int\<close>.
\<close>
theorem deploy_flags_converted:
  assumes "om_find (flags a) ''timeout'' = Some (show_int t @ tu)" "(tu, tk) \<in> duration_units_ms" "0 \<le> t" "t * tk < 2 ^ 31"
    and "om_find (flags a) ''memory'' = Some (show_int m @ mu)" "(mu, mk) \<in> memory_units_mb" "0 \<le> m" "m * mk < 2 ^ 31"
    and "om_find (flags a) ''cpu'' = Some (ip @ ''.'' @ fp)" "list_all is_digit ip" "list_all is_digit fp" "ip @ fp \<noteq> []"
      "length ip \<le> 300" "length fp \<le> 300"
    and "om_find (flags a) ''concurrency'' = Some (show_int c)" "0 \<le> c" "c < 2 ^ 31"
    and "om_find (flags a) ''idle-timeout'' = Some (show_int i @ iu)" "(iu, ik) \<in> duration_units_ms" "0 \<le> i" "i * ik < 2 ^ 31"
  shows "\<exists>x. deploy_fields lib a = Some [(''timeout_ms'', j_int lib (t * tk)), (''memory_mb'', j_int lib (m * mk)), (''cpu'', j_double lib x),
        (''max_concurrency'', j_int lib c), (''idle_timeout_ms'', j_int lib (i * ik))]
    \<and> dbl_finite x
    \<and> (\<forall>y. dbl_finite y \<longrightarrow>
         \<bar>dbl_value x - real (digits_val (ip @ fp)) / 10 ^ length fp\<bar> \<le> \<bar>dbl_value y - real (digits_val (ip @ fp)) / 10 ^ length fp\<bar>)"
proof -
  obtain x where x: "stod (ip @ ''.'' @ fp) = Inr x" "dbl_finite x"
    "\<forall>y. dbl_finite y \<longrightarrow> \<bar>dbl_value x - real (digits_val (ip @ fp)) / 10 ^ length fp\<bar> \<le> \<bar>dbl_value y - real (digits_val (ip @ fp)) / 10 ^ length fp\<bar>"
    using cpu_parsed [OF assms(10-14)] by blast
  have "stoi (show_int c) = Inr c" using assms(16,17) by (intro stoi_show_int) simp_all
  moreover have "stod (ip @ CHR ''.'' # fp) = Inr x" using x(1) by simp
  ultimately have "deploy_fields lib a = Some [(''timeout_ms'', j_int lib (t * tk)), (''memory_mb'', j_int lib (m * mk)), (''cpu'', j_double lib x),
        (''max_concurrency'', j_int lib c), (''idle_timeout_ms'', j_int lib (i * ik))]"
    by (simp add: deploy_fields_def opt_field_def int_field_def assms(1,5,9,15,18)
        duration_parsed [OF assms(2-4)] memory_parsed [OF assms(6-8)] duration_parsed [OF assms(19-21)])
  with x(2,3) show ?thesis by blast
qed

definition flagged :: args where
  "flagged = \<lparr>positional = [''hello''], flags = [(''concurrency'', ''4''), (''cpu'', ''0.5''), (''idle-timeout'', ''30s''),
     (''image'', ''hello:v1''), (''memory'', ''1Gi''), (''timeout'', ''2m'')]\<rparr>"

theorem deploy_flags_converted_witness:
  "\<exists>x. deploy_fields mj_lib flagged = Some [(''timeout_ms'', MI 120000), (''memory_mb'', MI 1024), (''cpu'', MD x),
      (''max_concurrency'', MI 4), (''idle_timeout_ms'', MI 30000)] \<and> \<bar>dbl_value x - 5 / 10\<bar> \<le> \<bar>dbl_value 0x3FE0000000000001 - 5 / 10\<bar>"
proof -
  have s: "show_int 2 = ''2''" "show_int 1 = ''1''" "show_int 4 = ''4''" "show_int 30 = ''30''" "digits_val (''0'' @ ''5'') = 5"
    "dbl_finite 0x3FE0000000000001" by code_simp+
  have f: "om_find (flags flagged) ''timeout'' = Some (show_int 2 @ ''m'')" "om_find (flags flagged) ''memory'' = Some (show_int 1 @ ''Gi'')"
    "om_find (flags flagged) ''cpu'' = Some (''0'' @ ''.'' @ ''5'')" "om_find (flags flagged) ''concurrency'' = Some (show_int 4)"
    "om_find (flags flagged) ''idle-timeout'' = Some (show_int 30 @ ''s'')"
    unfolding s by (simp_all add: flagged_def)
  have u: "(''m'', 60000) \<in> duration_units_ms" "(''Gi'', 1024) \<in> memory_units_mb" "(''s'', 1000) \<in> duration_units_ms"
    by (simp_all add: duration_units_ms_def memory_units_mb_def)
  have d: "list_all is_digit ''0''" "list_all is_digit ''5''" by (simp_all add: is_digit_def)
  from deploy_flags_converted [OF f(1) u(1) _ _ f(2) u(2) _ _ f(3) d _ _ _ f(4) _ _ f(5) u(3), of mj_lib] s(5,6)
  show ?thesis by (auto simp: mj_lib_def)
qed

end
