(* ===== verification/Plane_Threads.thy ===== *)
theory Plane_Threads
  imports Control_Plane Runtime_Threads "HOL-Library.Multiset"
begin

text \<open>
  The whole control plane under concurrency. Every request is handled by its own thread, in
  several steps: each SQL statement is atomic (a \<^verbatim>\<open>Statement\<close> holds the database's mutex from
  its construction to its destruction, which includes the reading of \<^verbatim>\<open>changes\<close> and
  \<^verbatim>\<open>last_insert_id\<close>), and so is each critical section of the runtime manager. Between two of
  them any other thread, and the reaper, may run. A handler that throws ends the process, so
  no step follows it.
\<close>

section \<open>Threads and steps\<close>

text \<open>
  Where a handler stands between two of its steps: the function is found and
  \<^verbatim>\<open>RuntimeManager::invoke\<close> is about to be called; inside it; the invocation is about to be
  recorded in the history; the function is deleted and its runtime is about to be terminated;
  the function is stored and about to be read back.
\<close>

datatype job =
    Asked string string function_spec
  | Inside string string
  | Storing string string invocation_result
  | Removing string
  | Registering function_spec

text \<open>What an invocation is answered with: the id under which it was recorded, and its result.\<close>

record answer =
  an_id :: string
  an_function :: string
  an_input :: string
  an_result :: invocation_result

record 'd control_plane =
  cp_db :: 'd
  cp_sys :: system
  cp_jobs :: "nat \<Rightarrow> job option"
  cp_answers :: "answer list"

definition init_plane :: "'d \<Rightarrow> world \<Rightarrow> 'd control_plane" where
  "init_plane d w = \<lparr>cp_db = d, cp_sys = init_system w, cp_jobs = (\<lambda>_. None), cp_answers = []\<rparr>"

text \<open>A step of one thread inside \<^verbatim>\<open>RuntimeManager::invoke\<close>, between its entry and its return.\<close>

definition inner_step :: "env \<Rightarrow> backend \<Rightarrow> nat \<Rightarrow> system \<Rightarrow> system \<Rightarrow> bool" where
  "inner_step env be t y y' \<longleftrightarrow> mstep env be y y'
     \<and> (\<exists>th th'. threads y t = Some th \<and> threads y' t = Some th' \<and> th_phase th' \<noteq> th_phase th)"

abbreviation (input) set_job :: "nat \<Rightarrow> job option \<Rightarrow> 'd control_plane \<Rightarrow> 'd control_plane" where
  "set_job t j s \<equiv> s\<lparr>cp_jobs := (cp_jobs s)(t := j)\<rparr>"

abbreviation (input) with_mgr :: "manager \<Rightarrow> 'd control_plane \<Rightarrow> 'd control_plane" where
  "with_mgr mg s \<equiv> s\<lparr>cp_sys := (cp_sys s)\<lparr>mgr := mg\<rparr>\<rparr>"

inductive pstep :: "('d, 'st) sqlite3 \<Rightarrow> env \<Rightarrow> backend \<Rightarrow> 'd control_plane \<Rightarrow> 'd control_plane \<Rightarrow> bool" for api env be where
  found: "cp_jobs s t = None \<Longrightarrow> registry_get api nm (cp_db s) = (Inr (Some fn), d) \<Longrightarrow>
    pstep api env be s (set_job t (Some (Asked nm inp (fn_spec fn))) (s\<lparr>cp_db := d\<rparr>))"
| entered: "cp_jobs s t = Some (Asked nm inp spec) \<Longrightarrow> steady_now env (mworld (mgr (cp_sys s))) = (now, w) \<Longrightarrow>
    pstep api env be s (set_job t (Some (Inside nm inp))
      (s\<lparr>cp_sys := (cp_sys s)\<lparr>mgr := (mgr (cp_sys s))\<lparr>mworld := w\<rparr>,
        threads := (threads (cp_sys s))(t \<mapsto> \<lparr>th_spec = spec, th_input = inp, th_start = now, th_phase = Waiting False\<rparr>)\<rparr>\<rparr>))"
| inside: "cp_jobs s t = Some (Inside nm inp) \<Longrightarrow> inner_step env be t (cp_sys s) y \<Longrightarrow>
    pstep api env be s (s\<lparr>cp_sys := y\<rparr>)"
| returned: "cp_jobs s t = Some (Inside nm inp) \<Longrightarrow> threads (cp_sys s) t = Some th \<Longrightarrow> th_phase th = Recording r \<Longrightarrow>
    pstep api env be s (set_job t (Some (Storing nm inp r))
      (s\<lparr>cp_sys := (cp_sys s)\<lparr>mgr := finish_invoke r (mgr (cp_sys s)),
        threads := (threads (cp_sys s))(t := None), finished := finished (cp_sys s) @ [r]\<rparr>\<rparr>))"
| recorded: "cp_jobs s t = Some (Storing nm inp r) \<Longrightarrow>
    store_record api nm inp (ir_status r) (ir_output r) (word_of_int (ir_duration_ms r)) (ir_cold_start r) (cp_db s) = (Inr k, d) \<Longrightarrow>
    pstep api env be s (set_job t None (s\<lparr>cp_db := d,
      cp_answers := cp_answers s @ [\<lparr>an_id = k, an_function = nm, an_input = inp, an_result = r\<rparr>]\<rparr>))"
| removed: "cp_jobs s t = None \<Longrightarrow> registry_remove api nm (cp_db s) = (Inr True, d) \<Longrightarrow>
    pstep api env be s (set_job t (Some (Removing nm)) (s\<lparr>cp_db := d\<rparr>))"
| not_there: "registry_remove api nm (cp_db s) = (Inr False, d) \<Longrightarrow> pstep api env be s (s\<lparr>cp_db := d\<rparr>)"
| terminated: "cp_jobs s t = Some (Removing nm) \<Longrightarrow>
    pstep api env be s (set_job t None (with_mgr (terminate be nm (mgr (cp_sys s))) s))"
| inserted: "cp_jobs s t = None \<Longrightarrow> register_insert api spec (cp_db s) = (Inr (), d) \<Longrightarrow>
    pstep api env be s (set_job t (Some (Registering spec)) (s\<lparr>cp_db := d\<rparr>))"
| reread: "cp_jobs s t = Some (Registering spec) \<Longrightarrow> registry_get api (fs_name spec) (cp_db s) = (Inr (Some fn), d) \<Longrightarrow>
    pstep api env be s (set_job t None (s\<lparr>cp_db := d\<rparr>))"
| described: "registry_get api nm (cp_db s) = (Inr x, d) \<Longrightarrow> pstep api env be s (s\<lparr>cp_db := d\<rparr>)"
| fetched: "store_get api i (cp_db s) = (Inr y, d) \<Longrightarrow> pstep api env be s (s\<lparr>cp_db := d\<rparr>)"
| inspected: "pstep api env be s (with_mgr (snd (runtime_status_of env nm (mgr (cp_sys s)))) s)"
| enumerated: "pstep api env be s (with_mgr (snd (list_runtimes env (mgr (cp_sys s)))) s)"
| reaper: "pstep api env be s (with_mgr (reap_round env be (mgr (cp_sys s))) s)"

inductive plane_reachable ::
  "('d, 'st) sqlite3 \<Rightarrow> env \<Rightarrow> backend \<Rightarrow> 'd \<Rightarrow> world \<Rightarrow> 'd control_plane \<Rightarrow> bool" for api env be d w where
  plane_start: "plane_reachable api env be d w (init_plane d w)"
| plane_step: "plane_reachable api env be d w s \<Longrightarrow> pstep api env be s s' \<Longrightarrow> plane_reachable api env be d w s'"

section \<open>The runtime manager inside the control plane\<close>

text \<open>A thread is inside the manager exactly when its handler has called it.\<close>

definition jobs_match :: "'d control_plane \<Rightarrow> bool" where
  "jobs_match s \<longleftrightarrow> (\<forall>t. (threads (cp_sys s) t \<noteq> None) = (\<exists>nm inp. cp_jobs s t = Some (Inside nm inp)))"

lemma inner_step_dom:
  assumes "inner_step env be t y y'"
  shows "dom (threads y') = dom (threads y)" "finished y' = finished y"
  using assms unfolding inner_step_def by (auto elim!: mstep.cases split: if_splits)

lemma jobs_match_iff: "jobs_match s \<longleftrightarrow> dom (threads (cp_sys s)) = {t. \<exists>nm inp. cp_jobs s t = Some (Inside nm inp)}"
  by (simp add: jobs_match_def dom_def set_eq_iff)

lemma pstep_projects:
  assumes "pstep api env be s s'" "jobs_match s"
  shows "(cp_sys s' = cp_sys s \<or> mstep env be (cp_sys s) (cp_sys s')) \<and> jobs_match s'"
  using assms(1)
proof cases
  case (entered t nm inp spec now w)
  then have "threads (cp_sys s) t = None" using assms(2) unfolding jobs_match_def by (metis job.distinct(1) option.inject)
  from mstep.arrive [OF this entered(3), of be spec inp] entered assms(2) show ?thesis
    by (auto simp: jobs_match_def)
next
  case (inside t nm inp y)
  then show ?thesis using assms(2) inner_step_dom(1) [OF inside(3)] by (simp add: jobs_match_iff inner_step_def)
next
  case (returned t nm inp th r)
  from mstep.recorded [OF returned(3,4), of env be] returned assms(2) show ?thesis by (auto simp: jobs_match_def)
qed (use assms(2) in \<open>auto simp: jobs_match_def intro: mstep.intros\<close>)

lemma plane_reachable_sys: "plane_reachable api env be d w s \<Longrightarrow> reachable env be w (cp_sys s) \<and> jobs_match s"
proof (induction rule: plane_reachable.induct)
  case plane_start
  then show ?case by (simp add: init_plane_def init_system_def jobs_match_def reach_init [unfolded init_system_def])
next
  case (plane_step s s')
  then show ?case using pstep_projects by (metis reach_step)
qed

section \<open>The history\<close>

text \<open>
  What the control plane relies on besides the laws of the two stores: a statement on the
  functions does not change the invocations.
\<close>

definition apart :: "('d, 'st) sqlite3 \<Rightarrow> ('d \<Rightarrow> bool) \<Rightarrow> ('d \<Rightarrow> c_long \<Rightarrow> sql_row option) \<Rightarrow> bool" where
  "apart api iok itbl \<longleftrightarrow> (\<forall>sql \<in> {kUpsertSql, kSelectOneSql, kDeleteSql}. keeps api sql (\<lambda>d. (iok d, itbl d)))"

lemma apart_keeps:
  assumes "apart api iok itbl"
  shows "registry_get api nm d = (x, d') \<Longrightarrow> iok d' = iok d \<and> itbl d' = itbl d"
    and "registry_remove api nm d = (y, d') \<Longrightarrow> iok d' = iok d \<and> itbl d' = itbl d"
    and "register_insert api spec d = (z, d') \<Longrightarrow> iok d' = iok d \<and> itbl d' = itbl d"
proof -
  have k: "keeps api kSelectOneSql (\<lambda>d. (iok d, itbl d))" "keeps api kDeleteSql (\<lambda>d. (iok d, itbl d))"
    "keeps api kUpsertSql (\<lambda>d. (iok d, itbl d))"
    using assms by (simp_all add: apart_def)
  show "registry_get api nm d = (x, d') \<Longrightarrow> iok d' = iok d \<and> itbl d' = itbl d"
    using registry_get_keeps [OF k(1)] by fastforce
  show "registry_remove api nm d = (y, d') \<Longrightarrow> iok d' = iok d \<and> itbl d' = itbl d"
    using registry_remove_keeps [OF k(2)] by fastforce
  show "register_insert api spec d = (z, d') \<Longrightarrow> iok d' = iok d \<and> itbl d' = itbl d"
    using register_insert_keeps [OF k(3)] by fastforce
qed

definition history_laws ::
  "('d, 'st) sqlite3 \<Rightarrow> ('d \<Rightarrow> bool) \<Rightarrow> ('d \<Rightarrow> bool) \<Rightarrow> ('d \<Rightarrow> c_long \<Rightarrow> sql_row option) \<Rightarrow> bool" where
  "history_laws api iok room itbl \<longleftrightarrow> insert_invocation_law api iok room itbl \<and> insert_full_law api iok room
     \<and> select_invocation_law api iok itbl \<and> apart api iok itbl"

text \<open>The row of an answered invocation.\<close>

definition answer_row :: "answer \<Rightarrow> c_long \<Rightarrow> c_long \<Rightarrow> sql_row" where
  "answer_row a i now = record_row (an_function a) (an_input a) (ir_status (an_result a)) (ir_output (an_result a))
     (word_of_int (ir_duration_ms (an_result a))) (ir_cold_start (an_result a)) i now"

definition in_table :: "(c_long \<Rightarrow> sql_row option) \<Rightarrow> c_long \<Rightarrow> answer \<Rightarrow> bool" where
  "in_table t i a \<longleftrightarrow> an_id a = show_int (sint i) \<and> (\<exists>now. t i = Some (answer_row a i now))"

definition history_ok :: "('d \<Rightarrow> bool) \<Rightarrow> ('d \<Rightarrow> c_long \<Rightarrow> sql_row option) \<Rightarrow> 'd control_plane \<Rightarrow> bool" where
  "history_ok iok itbl s \<longleftrightarrow> iok (cp_db s)
     \<and> (\<exists>ids. distinct ids \<and> list_all2 (in_table (itbl (cp_db s))) ids (cp_answers s))"

lemma in_table_put: "in_table t i a \<Longrightarrow> t j = None \<Longrightarrow> in_table (t(j \<mapsto> r)) i a"
  by (auto simp: in_table_def)

lemma plane_history_step:
  assumes "history_laws api iok room itbl" "pstep api env be s s'" "iok (cp_db s)"
  shows "iok (cp_db s') \<and> (itbl (cp_db s') = itbl (cp_db s) \<and> cp_answers s' = cp_answers s
    \<or> (\<exists>i now a. an_id a = show_int (sint i) \<and> itbl (cp_db s) i = None
        \<and> itbl (cp_db s') = (itbl (cp_db s))(i \<mapsto> answer_row a i now) \<and> cp_answers s' = cp_answers s @ [a]))"
proof -
  have laws: "insert_invocation_law api iok room itbl" "insert_full_law api iok room" "select_invocation_law api iok itbl" "apart api iok itbl"
    using assms(1) by (simp_all add: history_laws_def)
  from assms(2) show ?thesis
  proof cases
    case (recorded t nm inp r k d)
    let ?a = "\<lparr>an_id = k, an_function = nm, an_input = inp, an_result = r\<rparr>"
    from store_record_new [OF laws(1,2) assms(3) recorded(3)] obtain i now where
      "k = show_int (sint i)" "iok d" "itbl (cp_db s) i = None" "itbl d = (itbl (cp_db s))(i \<mapsto> answer_row ?a i now)"
      by (auto simp: answer_row_def)
    then show ?thesis using recorded(1) by (intro conjI disjI2 exI [of _ i] exI [of _ now] exI [of _ ?a]) simp_all
  next
    case (fetched i y d)
    with store_get_any [OF laws(3) assms(3), of i] show ?thesis by auto
  qed (simp_all add: apart_keeps [OF laws(4)] assms(3))
qed

lemma not_in_table: "list_all2 (in_table t) ids as \<Longrightarrow> t i = None \<Longrightarrow> i \<notin> set ids"
  by (induction ids as rule: list_all2_induct) (auto simp: in_table_def)

lemma list_all2_in_table_put:
  "list_all2 (in_table t) ids as \<Longrightarrow> t j = None \<Longrightarrow> list_all2 (in_table (t(j \<mapsto> r))) ids as"
  by (rule list_all2_mono, assumption, rule in_table_put)

lemma history_ok_step:
  assumes "history_laws api iok room itbl" "pstep api env be s s'" "history_ok iok itbl s"
  shows "history_ok iok itbl s'"
proof -
  obtain ids where ids: "iok (cp_db s)" "distinct ids" "list_all2 (in_table (itbl (cp_db s))) ids (cp_answers s)"
    using assms(3) by (auto simp: history_ok_def)
  from plane_history_step [OF assms(1,2) ids(1)] consider
      (same) "iok (cp_db s')" "itbl (cp_db s') = itbl (cp_db s)" "cp_answers s' = cp_answers s"
    | (new) i now a where "iok (cp_db s')" "an_id a = show_int (sint i)" "itbl (cp_db s) i = None"
        "itbl (cp_db s') = (itbl (cp_db s))(i \<mapsto> answer_row a i now)" "cp_answers s' = cp_answers s @ [a]"
    by blast
  then show ?thesis
  proof cases
    case same
    with ids show ?thesis by (auto simp: history_ok_def)
  next
    case new
    have "in_table (itbl (cp_db s')) i a" using new(2,4) by (auto simp: in_table_def)
    moreover have "list_all2 (in_table (itbl (cp_db s'))) ids (cp_answers s)"
      unfolding new(4) using ids(3) new(3) by (rule list_all2_in_table_put)
    ultimately show ?thesis
      using new(1,5) ids(2) not_in_table [OF ids(3) new(3)]
      by (auto simp: history_ok_def intro!: exI [of _ "ids @ [i]"] list_all2_appendI)
  qed
qed

lemma plane_history:
  assumes "history_laws api iok room itbl" "iok d"
  shows "plane_reachable api env be d w s \<Longrightarrow> history_ok iok itbl s"
proof (induction rule: plane_reachable.induct)
  case plane_start
  then show ?case using assms(2) by (auto simp: history_ok_def init_plane_def intro: exI [of _ "[]"])
next
  case (plane_step s s')
  then show ?case using history_ok_step [OF assms(1)] by blast
qed

text \<open>What a consistent history gives: each answer's id finds the record of that answer.\<close>

lemma history_ok_records:
  assumes "history_laws api iok room itbl" "history_ok iok itbl s"
  shows "distinct (map an_id (cp_answers s))"
    and "a \<in> set (cp_answers s) \<Longrightarrow> \<exists>rec d'. store_get api (an_id a) (cp_db s) = (Inr (Some rec), d')
        \<and> iv_id rec = an_id a \<and> iv_function_name rec = c_str (an_function a) \<and> iv_input rec = c_str (an_input a)
        \<and> iv_status rec = c_str (ir_status (an_result a)) \<and> iv_output rec = c_str (ir_output (an_result a))
        \<and> iv_duration_ms rec = word_of_int (ir_duration_ms (an_result a)) \<and> iv_cold_start rec = ir_cold_start (an_result a)"
proof -
  obtain ids where ids: "iok (cp_db s)" "distinct ids" "list_all2 (in_table (itbl (cp_db s))) ids (cp_answers s)"
    using assms(2) by (auto simp: history_ok_def)
  have "map an_id (cp_answers s) = map (\<lambda>i. show_int (sint i)) ids"
    using ids(3) by (auto simp: list_all2_conv_all_nth in_table_def intro: nth_equalityI)
  moreover have "inj (\<lambda>i :: c_long. show_int (sint i))"
    by (auto simp: inj_def show_int_inj dest: signed_word_eqI)
  ultimately show "distinct (map an_id (cp_answers s))" using ids(2) by (simp add: distinct_map inj_on_subset [OF _ subset_UNIV])
  assume "a \<in> set (cp_answers s)"
  then obtain n where "n < length (cp_answers s)" "cp_answers s ! n = a" by (auto simp: in_set_conv_nth)
  then have "in_table (itbl (cp_db s)) (ids ! n) a" using list_all2_nthD2 [OF ids(3)] by blast
  then obtain i now where i: "an_id a = show_int (sint i)" "itbl (cp_db s) i = Some (answer_row a i now)"
    by (auto simp: in_table_def)
  with store_get_ok [of api iok itbl "cp_db s" i] ids(1) assms(1)
  show "\<exists>rec d'. store_get api (an_id a) (cp_db s) = (Inr (Some rec), d')
        \<and> iv_id rec = an_id a \<and> iv_function_name rec = c_str (an_function a) \<and> iv_input rec = c_str (an_input a)
        \<and> iv_status rec = c_str (ir_status (an_result a)) \<and> iv_output rec = c_str (ir_output (an_result a))
        \<and> iv_duration_ms rec = word_of_int (ir_duration_ms (an_result a)) \<and> iv_cold_start rec = ir_cold_start (an_result a)"
    by (auto simp: history_laws_def answer_row_def row_to_record_ok stored_record_def)
qed

text \<open>
  The rows that were added since the table was \<open>t0\<close> are those of the answers, and no other row
  changed.
\<close>

definition grown :: "('d \<Rightarrow> bool) \<Rightarrow> ('d \<Rightarrow> c_long \<Rightarrow> sql_row option) \<Rightarrow> (c_long \<Rightarrow> sql_row option) \<Rightarrow> 'd control_plane \<Rightarrow> bool" where
  "grown iok itbl t0 s \<longleftrightarrow> iok (cp_db s)
     \<and> (\<exists>ids. distinct ids \<and> list_all2 (in_table (itbl (cp_db s))) ids (cp_answers s)
          \<and> (\<forall>i \<in> set ids. t0 i = None) \<and> (\<forall>i. i \<notin> set ids \<longrightarrow> itbl (cp_db s) i = t0 i))"

lemma grown_step:
  assumes "history_laws api iok room itbl" "pstep api env be s s'" "grown iok itbl t0 s"
  shows "grown iok itbl t0 s'"
proof -
  obtain ids where ids: "iok (cp_db s)" "distinct ids" "list_all2 (in_table (itbl (cp_db s))) ids (cp_answers s)"
    "\<forall>i \<in> set ids. t0 i = None" "\<forall>i. i \<notin> set ids \<longrightarrow> itbl (cp_db s) i = t0 i"
    using assms(3) by (auto simp: grown_def)
  from plane_history_step [OF assms(1,2) ids(1)] consider
      (same) "iok (cp_db s')" "itbl (cp_db s') = itbl (cp_db s)" "cp_answers s' = cp_answers s"
    | (new) i now a where "iok (cp_db s')" "an_id a = show_int (sint i)" "itbl (cp_db s) i = None"
        "itbl (cp_db s') = (itbl (cp_db s))(i \<mapsto> answer_row a i now)" "cp_answers s' = cp_answers s @ [a]"
    by blast
  then show ?thesis
  proof cases
    case same
    with ids show ?thesis by (auto simp: grown_def)
  next
    case new
    have i: "i \<notin> set ids" using ids(3) new(3) by (rule not_in_table)
    have "in_table (itbl (cp_db s')) i a" using new(2,4) by (auto simp: in_table_def)
    moreover have "list_all2 (in_table (itbl (cp_db s'))) ids (cp_answers s)"
      unfolding new(4) using ids(3) new(3) by (rule list_all2_in_table_put)
    moreover have "t0 i = None" using ids(5) i new(3) by simp
    ultimately show ?thesis
      using new(1,4,5) ids(2,4,5) i by (auto simp: grown_def intro!: exI [of _ "ids @ [i]"] list_all2_appendI)
  qed
qed

lemma plane_grown:
  assumes "history_laws api iok room itbl" "iok d"
  shows "plane_reachable api env be d w s \<Longrightarrow> grown iok itbl (itbl d) s"
proof (induction rule: plane_reachable.induct)
  case plane_start
  then show ?case using assms(2) by (auto simp: grown_def init_plane_def intro: exI [of _ "[]"])
next
  case (plane_step s s')
  then show ?case using grown_step [OF assms(1)] by blast
qed

lemma row_found:
  assumes "select_invocation_law api iok itbl" "iok d" "in_table (itbl d) i a" "known_status (an_result a)"
  shows "\<exists>rec d'. store_get api (show_int (sint i)) d = (Inr (Some rec), d') \<and> iv_status rec = ir_status (an_result a)
    \<and> iv_cold_start rec = ir_cold_start (an_result a) \<and> iv_duration_ms rec = word_of_int (ir_duration_ms (an_result a))"
proof -
  obtain now where "itbl d i = Some (answer_row a i now)" using assms(3) by (auto simp: in_table_def)
  with store_get_ok [OF assms(1,2), of i] show ?thesis
    by (auto simp: answer_row_def row_to_record_ok stored_record_def c_str_known [OF assms(4)])
qed

section \<open>History and metrics\<close>

text \<open>The results that are counted in the metrics but not yet in the history.\<close>

definition job_results :: "job option \<Rightarrow> invocation_result multiset" where
  "job_results j = (case j of Some (Storing nm inp r) \<Rightarrow> {#r#} | _ \<Rightarrow> {#})"

definition storing :: "(nat \<Rightarrow> job option) \<Rightarrow> invocation_result multiset" where
  "storing js = (\<Sum>t \<in> dom js. job_results (js t))"

lemma storing_over:
  assumes "finite A" "dom js \<subseteq> A"
  shows "storing js = (\<Sum>t \<in> A. job_results (js t))"
  unfolding storing_def
  by (rule sum.mono_neutral_left [OF assms]) (auto simp: job_results_def split: option.split)

lemma storing_put:
  assumes "finite (dom js)"
  shows "storing (js(t := j)) + job_results (js t) = storing js + job_results j"
proof -
  let ?A = "insert t (dom js)" and ?js = "js(t := j)"
  define R where "R = (\<Sum>u \<in> ?A - {t}. job_results (js u))"
  have fin: "finite ?A" using assms by simp
  have "storing ?js = (\<Sum>u \<in> ?A. job_results (?js u))" using fin by (rule storing_over) (auto split: if_splits)
  also have "\<dots> = job_results (?js t) + (\<Sum>u \<in> ?A - {t}. job_results (?js u))" using fin by (rule sum.remove) simp
  also have "(\<Sum>u \<in> ?A - {t}. job_results (?js u)) = R" unfolding R_def by (rule sum.cong) simp_all
  finally have 1: "storing ?js = job_results j + R" by (simp only: fun_upd_same)
  have "storing js = (\<Sum>u \<in> ?A. job_results (js u))" using fin by (rule storing_over) blast
  also have "\<dots> = job_results (js t) + R" unfolding R_def using fin by (rule sum.remove) simp
  finally show ?thesis unfolding 1 by (simp only: ac_simps)
qed

definition books_agree :: "'d control_plane \<Rightarrow> bool" where
  "books_agree s \<longleftrightarrow> finite (dom (cp_jobs s))
     \<and> mset (finished (cp_sys s)) = mset (map an_result (cp_answers s)) + storing (cp_jobs s)"

lemma books_agree_step:
  assumes "pstep api env be s s'" "books_agree s"
  shows "books_agree s'"
proof -
  have fin: "finite (dom (cp_jobs s))" using assms(2) by (simp add: books_agree_def)
  note put = storing_put [OF fin]
  have eq: "mset (finished (cp_sys s)) = mset (map an_result (cp_answers s)) + storing (cp_jobs s)"
    using assms(2) by (simp add: books_agree_def)
  from assms(1) show ?thesis
  proof cases
    case (inside t nm inp y)
    then show ?thesis using inner_step_dom(2) [OF inside(3)] fin eq by (simp add: books_agree_def)
  next
    case (returned t nm inp th r)
    then show ?thesis using put [of t "Some (Storing nm inp r)"] fin eq by (simp add: books_agree_def job_results_def)
  next
    case (recorded t nm inp r k d)
    then show ?thesis using put [of t None] fin eq by (simp add: books_agree_def job_results_def)
  next
    case (found t nm fn d inp)
    then show ?thesis using put [of t "Some (Asked nm inp (fn_spec fn))"] fin eq by (simp add: books_agree_def job_results_def)
  next
    case (entered t nm inp spec now w)
    then show ?thesis using put [of t "Some (Inside nm inp)"] fin eq by (simp add: books_agree_def job_results_def)
  next
    case (removed t nm d)
    then show ?thesis using put [of t "Some (Removing nm)"] fin eq by (simp add: books_agree_def job_results_def)
  next
    case (terminated t nm)
    then show ?thesis using put [of t None] fin eq by (simp add: books_agree_def job_results_def)
  next
    case (inserted t spec d)
    then show ?thesis using put [of t "Some (Registering spec)"] fin eq by (simp add: books_agree_def job_results_def)
  next
    case (reread t spec fn d)
    then show ?thesis using put [of t None] fin eq by (simp add: books_agree_def job_results_def)
  qed (use fin eq in \<open>simp_all add: books_agree_def\<close>)
qed

lemma plane_books: "plane_reachable api env be d w s \<Longrightarrow> books_agree s"
proof (induction rule: plane_reachable.induct)
  case plane_start
  then show ?case by (simp add: books_agree_def init_plane_def init_system_def storing_def)
next
  case (plane_step s s')
  then show ?case using books_agree_step by blast
qed

lemma answers_known:
  assumes "plane_reachable api env be d w s" "a \<in> set (cp_answers s)"
  shows "known_status (an_result a)"
proof -
  have "mset (finished (cp_sys s)) = mset (map an_result (cp_answers s)) + storing (cp_jobs s)"
    using plane_books [OF assms(1)] by (simp add: books_agree_def)
  then have "an_result a \<in># mset (finished (cp_sys s))" using assms(2) by simp
  then show ?thesis
    using reachable_known plane_reachable_sys [OF assms(1)] by (auto simp: known_statuses_def list_all_iff)
qed

lemma quiet_books:
  assumes "plane_reachable api env be d w s" "\<And>t. cp_jobs s t = None"
  shows "mset (map event_of (finished (cp_sys s))) = mset (map (\<lambda>a. event_of (an_result a)) (cp_answers s))"
proof -
  have "storing (cp_jobs s) = {#}" using assms(2) by (simp add: storing_def job_results_def)
  then have "mset (finished (cp_sys s)) = mset (map an_result (cp_answers s))"
    using plane_books [OF assms(1)] by (simp add: books_agree_def)
  then have "image_mset event_of (mset (finished (cp_sys s))) = image_mset event_of (mset (map an_result (cp_answers s)))" by simp
  then show ?thesis by (simp add: multiset.map_comp comp_def)
qed

section \<open>An invocation that runs without interruption\<close>

lemma inner_stepI:
  "mstep env be y y' \<Longrightarrow> threads y t = Some th \<Longrightarrow> threads y' t = Some th' \<Longrightarrow> th_phase th' \<noteq> th_phase th \<Longrightarrow> inner_step env be t y y'"
  by (auto simp: inner_step_def)

lemma call_completes:
  assumes reach: "plane_reachable api env be d w s" and job: "cp_jobs s t = Some (Inside nm inp)"
    and th: "threads (cp_sys s) t = Some th" "th_phase th = Waiting False"
    and co: "checkout env be (th_spec th) (mgr (cp_sys s)) = Some (Inr (cold, port, cid), mg1)"
    and resp: "outcome_ok resp" "cr_ok resp" "\<not> cr_timed_out resp"
  shows "\<exists>mg2 r. plane_reachable api env be d w
      (s\<lparr>cp_sys := (cp_sys s)\<lparr>mgr := mg2, threads := (threads (cp_sys s))(t \<mapsto> th\<lparr>th_phase := Recording r\<rparr>)\<rparr>\<rparr>)
    \<and> om_find (runtimes mg2) (fs_name (th_spec th)) \<noteq> None
    \<and> ir_status r = response_status resp \<and> ir_output r = cr_body resp \<and> ir_cold_start r = cold"
proof -
  let ?y2 = "set_phase t th (Calling False cold port cid) ((cp_sys s)\<lparr>mgr := mg1\<rparr>)"
  have "mstep env be (cp_sys s) ?y2" using mstep.checked_out [OF th co] .
  then have "inner_step env be t (cp_sys s) ?y2" using th by (auto intro: inner_stepI)
  then have r2: "plane_reachable api env be d w (s\<lparr>cp_sys := ?y2\<rparr>)" by (rule plane_step [OF reach pstep.inside [OF job]])
  obtain dur w2 where el: "elapsed_ms env (th_start th) ((mworld mg1)\<lparr>hist := hist (mworld mg1) @ []\<rparr>) = (dur, w2)" by fastforce
  obtain st out cf mg2 where se: "settle env be (th_spec th) cid resp (mg1\<lparr>mworld := w2\<rparr>) = ((st, out, cf), mg2)"
    by (metis prod.exhaust)
  obtain rt where rt: "om_find (runtimes (mg1\<lparr>mworld := w2\<rparr>)) (fs_name (th_spec th)) = Some rt" "container_id rt = cid"
    using co by (auto elim: checkout_InrD)
  note settled = settle_tracked(1-3) [OF rt se]
  have out: "out = cr_body resp" using se resp by (auto simp: settle_def Let_def split: if_splits)
  have st: "st = ''success'' \<or> st = ''error''" using settled(1) resp by (auto simp: response_status_def)
  let ?r = "\<lparr>ir_status = st, ir_output = out, ir_duration_ms = dur, ir_cold_start = cold\<rparr>"
  let ?y3 = "(cp_sys s)\<lparr>mgr := mg2, threads := (threads (cp_sys s))(t \<mapsto> th\<lparr>th_phase := Recording ?r\<rparr>)\<rparr>"
  have "mstep env be ?y2 (set_phase t (th\<lparr>th_phase := Calling False cold port cid\<rparr>) (after_settle False cold cf ?r) (?y2\<lparr>mgr := mg2\<rparr>))"
    by (rule mstep.answered [where resp = resp and es = "[]" and w = w2]) (use resp(1) el se in simp_all)
  moreover have "after_settle False cold cf ?r = Recording ?r" using settled(2) resp by (simp add: after_settle_def)
  ultimately have "mstep env be ?y2 ?y3" by simp
  then have "inner_step env be t ?y2 ?y3" by (rule inner_stepI, simp, simp, simp)
  then have "plane_reachable api env be d w (s\<lparr>cp_sys := ?y2, cp_sys := ?y3\<rparr>)"
    using job by (intro plane_step [OF r2] pstep.inside [of _ t nm inp]) simp_all
  then show ?thesis using settled(1,3) st out by (intro exI [of _ mg2] exI [of _ ?r]) simp
qed

lemma invoke_completes:
  assumes reach: "plane_reachable api env be d w s" and job: "cp_jobs s t = Some (Asked nm inp spec)"
    and co: "checkout env be spec ((mgr (cp_sys s))\<lparr>mworld := snd (steady_now env (mworld (mgr (cp_sys s))))\<rparr>)
      = Some (Inr (cold, port, cid), mg1)"
    and resp: "outcome_ok resp" "cr_ok resp" "\<not> cr_timed_out resp"
    and rec: "\<And>st dur. \<exists>k d'. store_record api nm inp st (cr_body resp) dur cold (cp_db s) = (Inr k, d')"
  shows "\<exists>s' k r. plane_reachable api env be d w s' \<and> cp_jobs s' = (cp_jobs s)(t := None)
    \<and> om_find (runtimes (mgr (cp_sys s'))) (fs_name spec) \<noteq> None
    \<and> store_record api nm inp (ir_status r) (cr_body resp) (word_of_int (ir_duration_ms r)) cold (cp_db s) = (Inr k, cp_db s')
    \<and> ir_status r = response_status resp \<and> ir_output r = cr_body resp \<and> ir_cold_start r = cold
    \<and> cp_answers s' = cp_answers s @ [\<lparr>an_id = k, an_function = nm, an_input = inp, an_result = r\<rparr>]"
proof -
  obtain now w1 where clock: "steady_now env (mworld (mgr (cp_sys s))) = (now, w1)" by fastforce
  let ?th = "\<lparr>th_spec = spec, th_input = inp, th_start = now, th_phase = Waiting False\<rparr>"
  let ?s1 = "set_job t (Some (Inside nm inp)) (s\<lparr>cp_sys := (cp_sys s)\<lparr>mgr := (mgr (cp_sys s))\<lparr>mworld := w1\<rparr>,
      threads := (threads (cp_sys s))(t \<mapsto> ?th)\<rparr>\<rparr>)"
  have r1: "plane_reachable api env be d w ?s1" using plane_step [OF reach pstep.entered [OF job clock]] by simp
  have "checkout env be (th_spec ?th) (mgr (cp_sys ?s1)) = Some (Inr (cold, port, cid), mg1)" using co clock by simp
  from call_completes [OF r1 _ _ _ this resp, of t nm inp] obtain mg2 r where
    r2: "plane_reachable api env be d w (?s1\<lparr>cp_sys := (cp_sys ?s1)\<lparr>mgr := mg2,
      threads := (threads (cp_sys ?s1))(t \<mapsto> ?th\<lparr>th_phase := Recording r\<rparr>)\<rparr>\<rparr>)" (is "plane_reachable _ _ _ _ _ ?s2")
    and tracked: "om_find (runtimes mg2) (fs_name spec) \<noteq> None"
    and r: "ir_status r = response_status resp" "ir_output r = cr_body resp" "ir_cold_start r = cold"
    by auto
  let ?s3 = "set_job t (Some (Storing nm inp r)) (?s2\<lparr>cp_sys := (cp_sys ?s2)\<lparr>mgr := finish_invoke r mg2,
      threads := (threads (cp_sys ?s2))(t := None), finished := finished (cp_sys ?s2) @ [r]\<rparr>\<rparr>)"
  have r3: "plane_reachable api env be d w ?s3"
    using plane_step [OF r2 pstep.returned [of _ t nm inp "?th\<lparr>th_phase := Recording r\<rparr>" r]] by simp
  obtain k d' where k: "store_record api nm inp (ir_status r) (cr_body resp) (word_of_int (ir_duration_ms r)) cold (cp_db s) = (Inr k, d')"
    using rec by blast
  let ?s4 = "set_job t None (?s3\<lparr>cp_db := d', cp_answers := cp_answers s @ [\<lparr>an_id = k, an_function = nm, an_input = inp, an_result = r\<rparr>]\<rparr>)"
  have "pstep api env be ?s3 ?s4"
    using pstep.recorded [of ?s3 t nm inp r api k d' env be] k r by simp
  then have "plane_reachable api env be d w ?s4" by (rule plane_step [OF r3])
  with k r tracked show ?thesis
    by (intro exI [of _ ?s4] exI [of _ k] exI [of _ r]) (simp add: finish_invoke_def)
qed

end
