(* ===== verification/Handler_Schedules.thy ===== *)
theory Handler_Schedules
  imports Plane_Threads
begin

text \<open>
  The handlers of \<open>Control_Plane\<close> run from beginning to end; \<open>Plane_Threads\<close> cuts them into steps
  that interleave. This theory connects the two: an uninterrupted handler is one of the
  schedules of the step relation.
\<close>

section \<open>Sequences of steps\<close>

abbreviation psteps :: "('d, 'st) sqlite3 \<Rightarrow> env \<Rightarrow> backend \<Rightarrow> 'd control_plane \<Rightarrow> 'd control_plane \<Rightarrow> bool" where
  "psteps api env be \<equiv> (pstep api env be)\<^sup>*\<^sup>*"

lemma psteps_step: "pstep api env be s s' \<Longrightarrow> psteps api env be s s'"
  by (rule r_into_rtranclp)

lemma psteps_reachable: "psteps api env be s s' \<Longrightarrow> plane_reachable api env be d w s \<Longrightarrow> plane_reachable api env be d w s'"
  by (induction rule: rtranclp_induct) (auto intro: plane_step)

text \<open>What the handlers see of the control plane.\<close>

definition plane_of :: "'d control_plane \<Rightarrow> 'd plane" where
  "plane_of s = \<lparr>pl_db = cp_db s, pl_mgr = mgr (cp_sys s)\<rparr>"

text \<open>A state in which only the shared data differs: no thread has moved.\<close>

definition same_threads :: "'d control_plane \<Rightarrow> 'd control_plane \<Rightarrow> bool" where
  "same_threads s s' \<longleftrightarrow> cp_jobs s' = cp_jobs s \<and> threads (cp_sys s') = threads (cp_sys s)"

definition idle_thread :: "nat \<Rightarrow> 'd control_plane \<Rightarrow> bool" where
  "idle_thread t s \<longleftrightarrow> cp_jobs s t = None \<and> threads (cp_sys s) t = None"

section \<open>An attempt to invoke\<close>

lemma call_runtime_effects:
  assumes "call_runtime env spec inp port w = Some (resp, w2)"
  shows "\<exists>es. w2 = w\<lparr>hist := hist w @ es\<rparr> \<and> list_all network_effect es"
proof -
  have e: "extends w w2" "pod_counter w2 = pod_counter w"
    using assms by (auto simp: call_runtime_def client_post_def dest: request_world)
  have "list_all network_effect (drop (length (hist w)) (hist w2))"
    using assms by (auto simp: call_runtime_def client_post_def request_def Let_def network_effect_def
        split: if_splits option.splits prod.splits)
  moreover have "w2 = w\<lparr>hist := hist w @ drop (length (hist w)) (hist w2)\<rparr>"
    using e by (auto simp: extends_def elim: prefixE intro: world.equality)
  ultimately show ?thesis by blast
qed

text \<open>Where a thread stands after an attempt.\<close>

abbreviation (input) attempted :: "nat \<Rightarrow> thread \<Rightarrow> bool \<Rightarrow> invocation_result \<Rightarrow> bool \<Rightarrow> manager \<Rightarrow> system \<Rightarrow> system" where
  "attempted t th second r cf mg y \<equiv>
     y\<lparr>mgr := mg, threads := (threads y)(t \<mapsto> th\<lparr>th_phase := after_settle second (ir_cold_start r) cf r\<rparr>)\<rparr>"

lemma try_invoke_msteps:
  assumes th: "threads y t = Some th" "th_phase th = Waiting second"
    and att: "try_invoke env be (th_spec th) (th_input th) (th_start th) (mgr y) = Some (r, cf, mg')"
  shows "(inner_step env be t)\<^sup>*\<^sup>* y (attempted t th second r cf mg' y)"
proof -
  obtain x mg1 where co: "checkout env be (th_spec th) (mgr y) = Some (x, mg1)"
    using att by (auto simp: try_invoke_def split: option.splits)
  show ?thesis
  proof (cases x)
    case (Inl err)
    obtain dur w where el: "elapsed_ms env (th_start th) (mworld mg1) = (dur, w)" by fastforce
    with att co Inl have r: "r = \<lparr>ir_status = ''infra_error'', ir_output = err, ir_duration_ms = dur, ir_cold_start = False\<rparr>"
      "cf = False" "mg' = mg1\<lparr>mworld := w\<rparr>" by (simp_all add: try_invoke_def)
    have "mstep env be y (attempted t th second r cf mg' y)"
      using mstep.start_failed [OF th co [unfolded Inl] el] by (simp add: r after_settle_def)
    then have "inner_step env be t y (attempted t th second r cf mg' y)"
      by (rule inner_stepI [where th = th and th' = "th\<lparr>th_phase := after_settle second (ir_cold_start r) cf r\<rparr>"])
        (use th in \<open>simp_all add: r after_settle_def\<close>)
    then show ?thesis by (rule r_into_rtranclp)
  next
    case (Inr c)
    obtain cold port cid where c: "c = (cold, port, cid)" by (cases c)
    obtain resp w2 where call: "call_runtime env (th_spec th) (th_input th) port (mworld mg1) = Some (resp, w2)"
      using att co Inr c by (auto simp: try_invoke_def split: option.splits)
    obtain dur w3 where el: "elapsed_ms env (th_start th) w2 = (dur, w3)" by fastforce
    obtain st out cf' mg2 where se: "settle env be (th_spec th) cid resp (mg1\<lparr>mworld := w3\<rparr>) = ((st, out, cf'), mg2)"
      by (metis prod.exhaust)
    have r: "r = \<lparr>ir_status = st, ir_output = out, ir_duration_ms = dur, ir_cold_start = cold\<rparr>" "cf = cf'" "mg' = mg2"
      using att co Inr c call el se by (simp_all add: try_invoke_def)
    let ?y1 = "set_phase t th (Calling second cold port cid) (y\<lparr>mgr := mg1\<rparr>)"
    have "mstep env be y ?y1" using mstep.checked_out [OF th co [unfolded Inr c]] .
    then have 1: "inner_step env be t y ?y1" using th by (auto intro: inner_stepI)
    obtain es where es: "w2 = (mworld mg1)\<lparr>hist := hist (mworld mg1) @ es\<rparr>" "list_all network_effect es"
      using call_runtime_effects [OF call] by blast
    let ?th = "th\<lparr>th_phase := Calling second cold port cid\<rparr>"
    have "mstep env be ?y1 (set_phase t ?th (after_settle second cold cf' r) (?y1\<lparr>mgr := mg2\<rparr>))"
      unfolding r(1)
      by (rule mstep.answered [where resp = resp and es = es and w = w3])
        (use call_runtime_world [OF call] el se es in simp_all)
    then have "mstep env be ?y1 (attempted t th second r cf mg' y)" by (simp add: r)
    then have "inner_step env be t ?y1 (attempted t th second r cf mg' y)"
      by (rule inner_stepI [where th = ?th and th' = "th\<lparr>th_phase := after_settle second (ir_cold_start r) cf r\<rparr>"])
        (auto simp: after_settle_def)
    with 1 show ?thesis by (rule converse_rtranclp_into_rtranclp [OF _ r_into_rtranclp])
  qed
qed

lemma inner_steps_psteps:
  assumes "(inner_step env be t)\<^sup>*\<^sup>* y y'" "cp_sys s = y" "cp_jobs s t = Some (Inside nm inp)"
  shows "psteps api env be s (s\<lparr>cp_sys := y'\<rparr>)"
  using assms
proof (induction rule: rtranclp_induct)
  case (step y1 y2)
  have "pstep api env be (s\<lparr>cp_sys := y1\<rparr>) ((s\<lparr>cp_sys := y1\<rparr>)\<lparr>cp_sys := y2\<rparr>)"
    by (rule pstep.inside [where t = t and nm = nm and inp = inp]) (use step in simp_all)
  with step show ?case by (simp add: rtranclp.rtrancl_into_rtrancl)
next
  case base
  then show ?case by (cases s) simp
qed

lemma invoke_psteps:
  assumes job: "cp_jobs s t = Some (Asked nm inp spec)" and free: "threads (cp_sys s) t = None"
    and inv: "invoke env be spec inp (mgr (cp_sys s)) = Some (r, mg')"
  shows "psteps api env be s (set_job t (Some (Storing nm inp r))
    (s\<lparr>cp_sys := (cp_sys s)\<lparr>mgr := mg', finished := finished (cp_sys s) @ [r]\<rparr>\<rparr>))"
proof -
  let ?y = "cp_sys s"
  obtain start w0 where clock: "steady_now env (mworld (mgr ?y)) = (start, w0)" by fastforce
  let ?th = "\<lparr>th_spec = spec, th_input = inp, th_start = start, th_phase = Waiting False\<rparr>"
  let ?y1 = "?y\<lparr>mgr := (mgr ?y)\<lparr>mworld := w0\<rparr>, threads := (threads ?y)(t \<mapsto> ?th)\<rparr>"
  let ?s1 = "set_job t (Some (Inside nm inp)) (s\<lparr>cp_sys := ?y1\<rparr>)"
  have enter: "pstep api env be s ?s1" using pstep.entered [OF job clock] by simp
  obtain r1 cf mg1 where t1: "try_invoke env be spec inp start ((mgr ?y)\<lparr>mworld := w0\<rparr>) = Some (r1, cf, mg1)"
    using inv clock by (auto simp: invoke_def split: option.splits)
  have a1: "(inner_step env be t)\<^sup>*\<^sup>* ?y1 (attempted t ?th False r1 cf mg1 ?y1)"
    by (rule try_invoke_msteps) (use t1 in simp_all)
  obtain mg2 where last: "(inner_step env be t)\<^sup>*\<^sup>* ?y1 (?y\<lparr>mgr := mg2, threads := (threads ?y)(t \<mapsto> ?th\<lparr>th_phase := Recording r\<rparr>)\<rparr>)"
    and fin: "mg' = finish_invoke r mg2"
  proof (cases "cf \<and> \<not> ir_cold_start r1")
    case True
    then obtain cf2 mg2 where t2: "try_invoke env be spec inp start mg1 = Some (r, cf2, mg2)" "mg' = finish_invoke r mg2"
      using inv clock t1 by (auto simp: invoke_def split: option.splits)
    have "(inner_step env be t)\<^sup>*\<^sup>* (attempted t ?th False r1 cf mg1 ?y1)
        (attempted t (?th\<lparr>th_phase := Waiting True\<rparr>) True r cf2 mg2 (attempted t ?th False r1 cf mg1 ?y1))"
      by (rule try_invoke_msteps) (use t2 True in \<open>simp_all add: after_settle_def\<close>)
    with a1 have "(inner_step env be t)\<^sup>*\<^sup>* ?y1
        (attempted t (?th\<lparr>th_phase := Waiting True\<rparr>) True r cf2 mg2 (attempted t ?th False r1 cf mg1 ?y1))"
      by (rule rtranclp_trans)
    then show ?thesis using t2(2) by (intro that [of mg2]) (simp_all add: after_settle_def)
  next
    case False
    then have "r = r1" "mg' = finish_invoke r1 mg1" using inv clock t1 by (auto simp: invoke_def)
    moreover have "after_settle False (ir_cold_start r1) cf r1 = Recording r1" using False by (auto simp: after_settle_def)
    ultimately show ?thesis using a1 by (intro that [of mg1]) simp_all
  qed
  let ?y2 = "?y\<lparr>mgr := mg2, threads := (threads ?y)(t \<mapsto> ?th\<lparr>th_phase := Recording r\<rparr>)\<rparr>"
  have 2: "psteps api env be ?s1 (?s1\<lparr>cp_sys := ?y2\<rparr>)"
    by (rule inner_steps_psteps [where t = t and nm = nm and inp = inp]) (use last in simp_all)
  have "(threads ?y)(t := None) = threads ?y" using free by auto
  then have "pstep api env be (?s1\<lparr>cp_sys := ?y2\<rparr>) (set_job t (Some (Storing nm inp r))
      (s\<lparr>cp_sys := ?y\<lparr>mgr := mg', finished := finished ?y @ [r]\<rparr>\<rparr>))"
    using pstep.returned [of "?s1\<lparr>cp_sys := ?y2\<rparr>" t nm inp "?th\<lparr>th_phase := Recording r\<rparr>" r api env be] fin by simp
  with enter 2 show ?thesis by (meson converse_rtranclp_into_rtranclp rtranclp.rtrancl_into_rtrancl)
qed

section \<open>The handlers\<close>

text \<open>
  A handler that returns is one of the schedules of the step relation: some steps of its
  thread alone lead from any state in which the thread is idle to the state that the handler
  leaves behind.
\<close>

definition scheduled :: "('d, 'st) sqlite3 \<Rightarrow> env \<Rightarrow> backend \<Rightarrow> 'd plane handler \<Rightarrow> bool" where
  "scheduled api env be h \<longleftrightarrow> (\<forall>req ps t s resp p. idle_thread t s \<and> h req ps (plane_of s) = (Returns resp, p) \<longrightarrow>
     (\<exists>s'. psteps api env be s s' \<and> plane_of s' = p \<and> same_threads s s'))"

lemma scheduledI:
  assumes "\<And>req ps t s resp p. idle_thread t s \<Longrightarrow> h req ps (plane_of s) = (Returns resp, p) \<Longrightarrow>
      \<exists>s'. psteps api env be s s' \<and> plane_of s' = p \<and> same_threads s s'"
  shows "scheduled api env be h"
  unfolding scheduled_def using assms by blast

lemma scheduledD:
  "scheduled api env be h \<Longrightarrow> idle_thread t s \<Longrightarrow> h req ps (plane_of s) = (Returns resp, p) \<Longrightarrow>
    \<exists>s'. psteps api env be s s' \<and> plane_of s' = p \<and> same_threads s s'"
  unfolding scheduled_def by blast

lemma same_threads_simps [simp]:
  "same_threads s s" "same_threads s (s\<lparr>cp_db := d\<rparr>)" "same_threads s (with_mgr mg s)"
  "same_threads s ((with_mgr mg s)\<lparr>cp_db := d\<rparr>)"
  by (simp_all add: same_threads_def)

lemma plane_of_simps [simp]:
  "pl_db (plane_of s) = cp_db s" "pl_mgr (plane_of s) = mgr (cp_sys s)"
  "plane_of (s\<lparr>cp_db := d\<rparr>) = (plane_of s)\<lparr>pl_db := d\<rparr>" "plane_of (with_mgr mg s) = (plane_of s)\<lparr>pl_mgr := mg\<rparr>"
  by (simp_all add: plane_of_def)

text \<open>A handler that makes one step on the database, or one on the manager, or both.\<close>

lemma one_step:
  assumes "pstep api env be s s'" "plane_of s' = p" "same_threads s s'"
  shows "\<exists>s'. psteps api env be s s' \<and> plane_of s' = p \<and> same_threads s s'"
  using assms psteps_step by blast

lemma health_scheduled: "scheduled api env be (health_handler lib)"
  by (rule scheduledI) (auto simp: health_handler_def)

lemma describe_scheduled: "scheduled api env be (describe_handler lib api)"
proof (rule scheduledI)
  fix req ps t s resp p
  assume "describe_handler lib api req ps (plane_of s) = (Returns resp, p)"
  then obtain x d where "registry_get api (hd ps) (cp_db s) = (Inr x, d)" "p = (plane_of s)\<lparr>pl_db := d\<rparr>"
    by (auto simp: describe_handler_def split: prod.splits sum.splits option.splits)
  then show "\<exists>s'. psteps api env be s s' \<and> plane_of s' = p \<and> same_threads s s'"
    by (intro one_step [OF pstep.described]) simp_all
qed

lemma invocation_scheduled: "scheduled api env be (invocation_handler lib api)"
proof (rule scheduledI)
  fix req ps t s resp p
  assume "invocation_handler lib api req ps (plane_of s) = (Returns resp, p)"
  then obtain x d where "store_get api (hd ps) (cp_db s) = (Inr x, d)" "p = (plane_of s)\<lparr>pl_db := d\<rparr>"
    by (auto simp: invocation_handler_def split: prod.splits sum.splits option.splits)
  then show "\<exists>s'. psteps api env be s s' \<and> plane_of s' = p \<and> same_threads s s'"
    by (intro one_step [OF pstep.fetched]) simp_all
qed

lemma runtimes_scheduled: "scheduled api env be (runtimes_handler lib env)" "scheduled api env be (metrics_handler env)"
proof -
  have *: "\<exists>s'. psteps api env be s s' \<and> plane_of s' = (plane_of s)\<lparr>pl_mgr := snd (list_runtimes env (mgr (cp_sys s)))\<rparr> \<and> same_threads s s'" for s
    by (rule one_step [OF pstep.enumerated]) simp_all
  show "scheduled api env be (runtimes_handler lib env)"
    by (rule scheduledI) (use * in \<open>auto simp: runtimes_handler_def case_prod_beta\<close>)
  show "scheduled api env be (metrics_handler env)"
    by (rule scheduledI) (use * in \<open>auto simp: metrics_handler_def case_prod_beta Let_def\<close>)
qed

lemma runtime_scheduled: "scheduled api env be (runtime_handler lib api env)"
proof (rule scheduledI)
  fix req ps t s resp p
  assume h: "runtime_handler lib api env req ps (plane_of s) = (Returns resp, p)"
  then obtain x d where get: "registry_get api (hd ps) (cp_db s) = (Inr x, d)"
    by (auto simp: runtime_handler_def split: prod.splits sum.splits)
  let ?s1 = "s\<lparr>cp_db := d\<rparr>"
  have 1: "pstep api env be s ?s1" using get by (rule pstep.described)
  let ?s2 = "with_mgr (snd (runtime_status_of env (hd ps) (mgr (cp_sys ?s1)))) ?s1"
  have 2: "pstep api env be ?s1 ?s2" by (rule pstep.inspected)
  show "\<exists>s'. psteps api env be s s' \<and> plane_of s' = p \<and> same_threads s s'"
  proof (cases x)
    case None
    with h get 1 show ?thesis by (intro one_step [OF 1]) (auto simp: runtime_handler_def)
  next
    case (Some fn)
    with h get have "p = plane_of ?s2"
      by (auto simp: runtime_handler_def plane_of_def split: prod.splits option.splits)
    moreover have "psteps api env be s ?s2" using 1 2 by (meson r_into_rtranclp rtranclp.rtrancl_into_rtrancl)
    ultimately show ?thesis by (intro exI [of _ ?s2]) (simp add: same_threads_def)
  qed
qed

lemma delete_scheduled: "scheduled api env be (delete_handler lib api be)"
proof (rule scheduledI)
  fix req ps t s resp p
  assume t: "idle_thread t s" and h: "delete_handler lib api be req ps (plane_of s) = (Returns resp, p)"
  then obtain b d where rm: "registry_remove api (hd ps) (cp_db s) = (Inr b, d)"
    by (auto simp: delete_handler_def split: prod.splits sum.splits)
  show "\<exists>s'. psteps api env be s s' \<and> plane_of s' = p \<and> same_threads s s'"
  proof (cases b)
    case False
    with h rm show ?thesis by (intro one_step [OF pstep.not_there]) (auto simp: delete_handler_def)
  next
    case True
    let ?s1 = "set_job t (Some (Removing (hd ps))) (s\<lparr>cp_db := d\<rparr>)"
    let ?s2 = "set_job t None (with_mgr (terminate be (hd ps) (mgr (cp_sys ?s1))) ?s1)"
    have 1: "pstep api env be s ?s1" by (rule pstep.removed) (use t rm True in \<open>simp_all add: idle_thread_def\<close>)
    have 2: "pstep api env be ?s1 ?s2" by (rule pstep.terminated) simp
    have "p = plane_of ?s2" using h rm True by (auto simp: delete_handler_def plane_of_def)
    moreover have "same_threads s ?s2" using t by (auto simp: same_threads_def idle_thread_def)
    moreover have "psteps api env be s ?s2" using 1 2 by (meson r_into_rtranclp rtranclp.rtrancl_into_rtrancl)
    ultimately show ?thesis by blast
  qed
qed

lemma deploy_scheduled: "scheduled api env be (deploy_handler lib api idle)"
proof (rule scheduledI)
  fix req ps t s resp p
  assume t: "idle_thread t s" and h: "deploy_handler lib api idle req ps (plane_of s) = (Returns resp, p)"
  show "\<exists>s'. psteps api env be s s' \<and> plane_of s' = p \<and> same_threads s s'"
  proof (cases "p = plane_of s")
    case True
    then show ?thesis by (intro exI [of _ s]) simp
  next
    case False
    with h obtain spec fn d where reg: "register_function api spec (cp_db s) = (Inr fn, d)" "p = (plane_of s)\<lparr>pl_db := d\<rparr>"
      by (auto simp: deploy_handler_def split: option.splits if_splits prod.splits sum.splits)
    then obtain d1 where ins: "register_insert api spec (cp_db s) = (Inr (), d1)" "registry_get api (fs_name spec) d1 = (Inr (Some fn), d)"
      by (auto simp: register_function_def register_return_def split: prod.splits sum.splits option.splits)
    let ?s1 = "set_job t (Some (Registering spec)) (s\<lparr>cp_db := d1\<rparr>)"
    let ?s2 = "set_job t None (?s1\<lparr>cp_db := d\<rparr>)"
    have 1: "pstep api env be s ?s1" by (rule pstep.inserted) (use t ins in \<open>simp_all add: idle_thread_def\<close>)
    have 2: "pstep api env be ?s1 ?s2" by (rule pstep.reread [where t = t and spec = spec]) (use ins(2) in simp_all)
    have "p = plane_of ?s2" using reg(2) by (simp add: plane_of_def)
    moreover have "same_threads s ?s2" using t by (auto simp: same_threads_def idle_thread_def)
    moreover have "psteps api env be s ?s2" using 1 2 by (meson r_into_rtranclp rtranclp.rtrancl_into_rtrancl)
    ultimately show ?thesis by blast
  qed
qed

lemma invoke_scheduled: "scheduled api env be (invoke_handler lib api env be)"
proof (rule scheduledI)
  fix req ps t s resp p
  assume t: "idle_thread t s" and h: "invoke_handler lib api env be req ps (plane_of s) = (Returns resp, p)"
  then obtain x d1 where get: "registry_get api (hd ps) (cp_db s) = (Inr x, d1)"
    by (auto simp: invoke_handler_def split: prod.splits sum.splits)
  show "\<exists>s'. psteps api env be s s' \<and> plane_of s' = p \<and> same_threads s s'"
  proof (cases x)
    case None
    with h get show ?thesis by (intro one_step [OF pstep.described]) (auto simp: invoke_handler_def)
  next
    case (Some fn)
    define inp where "inp = (if rq_body req = [] then ''{}'' else rq_body req)"
    obtain r mg' k d2 where inv: "invoke env be (fn_spec fn) inp (mgr (cp_sys s)) = Some (r, mg')"
      and rec: "store_record api (hd ps) inp (ir_status r) (ir_output r) (word_of_int (ir_duration_ms r)) (ir_cold_start r) d1 = (Inr k, d2)"
      and p: "p = (plane_of s)\<lparr>pl_db := d2, pl_mgr := mg'\<rparr>"
      using h get Some unfolding invoke_handler_def inp_def [symmetric]
      by (auto simp: Let_def split: option.splits prod.splits sum.splits)
    let ?s1 = "set_job t (Some (Asked (hd ps) inp (fn_spec fn))) (s\<lparr>cp_db := d1\<rparr>)"
    let ?s2 = "set_job t (Some (Storing (hd ps) inp r)) (?s1\<lparr>cp_sys := (cp_sys ?s1)\<lparr>mgr := mg', finished := finished (cp_sys ?s1) @ [r]\<rparr>\<rparr>)"
    let ?s3 = "set_job t None (?s2\<lparr>cp_db := d2, cp_answers := cp_answers ?s2 @ [\<lparr>an_id = k, an_function = hd ps, an_input = inp, an_result = r\<rparr>]\<rparr>)"
    have 1: "pstep api env be s ?s1" by (rule pstep.found) (use t get Some in \<open>simp_all add: idle_thread_def\<close>)
    have 2: "psteps api env be ?s1 ?s2" by (rule invoke_psteps) (use t inv in \<open>simp_all add: idle_thread_def\<close>)
    have 3: "pstep api env be ?s2 ?s3" by (rule pstep.recorded) (use rec in simp_all)
    have "p = plane_of ?s3" using p by (simp add: plane_of_def)
    moreover have "same_threads s ?s3" using t by (auto simp: same_threads_def idle_thread_def)
    moreover have "psteps api env be s ?s3" using 1 2 3 by (meson converse_rtranclp_into_rtranclp rtranclp.rtrancl_into_rtrancl)
    ultimately show ?thesis by blast
  qed
qed

lemma routes_scheduled: "route \<in> set (api_routes lib api env be idle) \<Longrightarrow> scheduled api env be (ro_handler route)"
  by (auto simp: api_routes_def make_route_def health_scheduled deploy_scheduled describe_scheduled delete_scheduled
      invoke_scheduled runtime_scheduled runtimes_scheduled invocation_scheduled)

lemma dispatch_scheduled:
  assumes "\<And>route. route \<in> set routes \<Longrightarrow> scheduled api env be (ro_handler route)" "idle_thread t s"
    and "dispatch routes req segments any (plane_of s) = (Returns resp, p)"
  shows "\<exists>s'. psteps api env be s s' \<and> plane_of s' = p \<and> same_threads s s'"
  using assms(1,3)
proof (induction routes arbitrary: any)
  case (Cons route routes)
  show ?case
  proof (cases "\<exists>ps. match_route route segments = Some ps \<and> ro_method route = rq_method req")
    case True
    then obtain ps where "ro_handler route req ps (plane_of s) = (Returns resp, p)" using Cons.prems(2) by auto
    with Cons.prems(1) [of route] assms(2) show ?thesis by (auto intro: scheduledD)
  next
    case False
    with Cons.prems(2) obtain any' where "dispatch routes req segments any' (plane_of s) = (Returns resp, p)"
      by (auto split: option.splits if_splits)
    with Cons.IH Cons.prems(1) show ?thesis by simp
  qed
qed (auto simp: same_threads_def)

end
