(* ===== verification/Exposition.thy ===== *)
theory Exposition
  imports Metrics
begin

text \<open>
  What \<^verbatim>\<open>GET /metrics\<close> should give: the text of the exposition as a function of the finished
  invocations, and that \<open>render\<close> produces it from a registry that reflects them.
\<close>

section \<open>The text, line by line\<close>

text \<open>
  The text that \<^verbatim>\<open>GET /metrics\<close> should give, line by line, from the number of tracked runtimes, the
  finished invocations, the runtimes created and the runtimes ended by reason.
\<close>

definition label :: "string \<Rightarrow> string \<Rightarrow> string" where
  "label k v = k @ ''='' @ DQ @ v @ DQ"

definition cold_label :: "bool \<Rightarrow> string" where
  "cold_label cold = label ''cold_start'' (if cold then ''true'' else ''false'')"

definition invocation_samples :: "invocation_event list \<Rightarrow> string list" where
  "invocation_samples evs = concat (map (\<lambda>st. concat (map (\<lambda>cold.
     if occurrences st cold evs = 0 then []
     else [''faas_invocations_total{'' @ label ''status'' st @ '','' @ cold_label cold @ ''} '' @ show_int (occurrences st cold evs)])
     [False, True])) [''error'', ''infra_error'', ''success'', ''timeout''])"

definition duration_samples :: "invocation_event list \<Rightarrow> string list" where
  "duration_samples evs = concat (map (\<lambda>cold. let ds = durations cold evs in
     if ds = [] then []
     else map (\<lambda>b. ''faas_invocation_duration_ms_bucket{'' @ cold_label cold @ '','' @ label ''le'' (show_int b) @ ''} ''
            @ show_int (int (length (filter (\<lambda>d. d \<le> b) ds))))
            [1, 5, 10, 25, 50, 100, 250, 500, 1000, 2500, 5000, 10000]
        @ [''faas_invocation_duration_ms_bucket{'' @ cold_label cold @ '','' @ label ''le'' ''+Inf'' @ ''} '' @ show_int (int (length ds)),
           ''faas_invocation_duration_ms_sum{'' @ cold_label cold @ ''} '' @ show_double (foldl (\<lambda>a d. round53 (a + d)) 0 ds),
           ''faas_invocation_duration_ms_count{'' @ cold_label cold @ ''} '' @ show_int (int (length ds))])
     [False, True])"

definition exposition :: "int \<Rightarrow> invocation_event list \<Rightarrow> int \<Rightarrow> (string \<times> int) list \<Rightarrow> string list" where
  "exposition active evs created ended =
     [''# HELP faas_active_runtimes Number of runtimes currently active.'',
      ''# TYPE faas_active_runtimes gauge'',
      ''faas_active_runtimes '' @ show_int active,
      ''# HELP faas_invocations_total Total invocations by outcome and cold/warm.'',
      ''# TYPE faas_invocations_total counter'']
     @ invocation_samples evs
     @ [''# HELP faas_invocation_duration_ms Invocation duration in milliseconds.'',
        ''# TYPE faas_invocation_duration_ms histogram'']
     @ duration_samples evs
     @ [''# HELP faas_runtimes_created_total Total runtimes created (cold starts).'',
        ''# TYPE faas_runtimes_created_total counter'',
        ''faas_runtimes_created_total '' @ show_int created,
        ''# HELP faas_runtimes_terminated_total Total runtimes stopped, by reason.'',
        ''# TYPE faas_runtimes_terminated_total counter'']
     @ map (\<lambda>(reason, n). ''faas_runtimes_terminated_total{'' @ label ''reason'' reason @ ''} '' @ show_int n) ended"

abbreviation (input) lines_text :: "string list \<Rightarrow> string" where
  "lines_text ls \<equiv> concat (map (\<lambda>l. l @ [LF]) ls)"

definition counted :: "invocation_event list \<Rightarrow> (string \<times> bool, int) omap" where
  "counted evs = filter (\<lambda>e. snd e \<noteq> 0) (map (\<lambda>k. (k, occurrences (fst k) (snd k) evs))
     (concat (map (\<lambda>st. [(st, False), (st, True)]) [''error'', ''infra_error'', ''success'', ''timeout''])))"

definition measured :: "invocation_event list \<Rightarrow> (bool, histogram) omap" where
  "measured evs = concat (map (\<lambda>c. if durations c evs = [] then [] else [(c, hist_of (durations c evs))]) [False, True])"

section \<open>The rendering is the exposition\<close>

lemma om_find_tabulate: "om_find (map (\<lambda>k. (k, f k)) ks) k = (if k \<in> set ks then Some (f k) else None)"
  by (induction ks) auto

lemma counted_ok: "om_ok (counted evs)"
  unfolding counted_def by (rule om_ok_filter) (simp add: om_ok_def less_char_def)

lemma reflects_counted:
  assumes "reflects evs m" "\<forall>e \<in> set evs. fst e \<in> {''error'', ''infra_error'', ''success'', ''timeout''}"
  shows "invocation_counts m = counted evs"
proof (rule om_ext)
  show "om_ok (invocation_counts m)" using assms(1) by (simp add: reflects_def)
  show "om_ok (counted evs)" by (rule counted_ok)
  fix k :: "string \<times> bool"
  obtain st c where k: "k = (st, c)" by (cases k)
  have none: "occurrences st c evs = 0" if "st \<notin> {''error'', ''infra_error'', ''success'', ''timeout''}"
    using that assms(2) by (auto simp: occurrences_def filter_empty_conv)
  let ?ks = "concat (map (\<lambda>st. [(st, False), (st, True)]) [''error'', ''infra_error'', ''success'', ''timeout''])"
  have "om_ok (map (\<lambda>k. (k, occurrences (fst k) (snd k) evs)) ?ks)" by (simp add: om_ok_def less_char_def)
  then have "om_find (counted evs) k = (if (st, c) \<in> set ?ks \<and> occurrences st c evs \<noteq> 0 then Some (occurrences st c evs) else None)"
    unfolding counted_def k by (subst om_find_filter [where P = "\<lambda>n. n \<noteq> 0"]) (simp_all only: om_find_tabulate fst_conv snd_conv, auto)
  moreover have "(st, c) \<in> set ?ks \<longleftrightarrow> st \<in> {''error'', ''infra_error'', ''success'', ''timeout''}" by (cases c) auto
  ultimately have "om_find (counted evs) k = (if occurrences st c evs = 0 then None else Some (occurrences st c evs))"
    using none by auto
  then show "om_find (invocation_counts m) k = om_find (counted evs) k" using assms(1) by (simp add: reflects_def k)
qed

lemma reflects_measured:
  assumes "reflects evs m"
  shows "duration_histograms m = measured evs"
proof (rule om_ext)
  show "om_ok (duration_histograms m)" using assms by (simp add: reflects_def)
  show "om_ok (measured evs)" by (simp add: measured_def)
  fix c
  have "om_find (measured evs) c = (if durations c evs = [] then None else Some (hist_of (durations c evs)))"
    by (cases c) (simp_all add: measured_def)
  then show "om_find (duration_histograms m) c = om_find (measured evs) c" using assms by (simp add: reflects_def)
qed

lemma concat_map_concat: "concat (map f (concat (map g xs))) = concat (map (\<lambda>x. concat (map f (g x))) xs)"
  by (induction xs) auto

lemma counted_text: "concat (map invocation_line (counted evs)) = lines_text (invocation_samples evs)"
proof -
  let ?sts = "[''error'', ''infra_error'', ''success'', ''timeout'']"
  let ?row = "\<lambda>st. filter (\<lambda>e. snd e \<noteq> 0) (map (\<lambda>k. (k, occurrences (fst k) (snd k) evs)) [(st, False), (st, True)])"
  let ?samples = "\<lambda>st. concat (map (\<lambda>cold. if occurrences st cold evs = 0 then []
      else [''faas_invocations_total{'' @ label ''status'' st @ '','' @ cold_label cold @ ''} '' @ show_int (occurrences st cold evs)])
      [False, True])"
  have row: "concat (map invocation_line (?row st)) = lines_text (?samples st)" for st
    by (simp add: invocation_line_def label_def cold_label_def bool_str_def)
  have "counted evs = concat (map ?row ?sts)"
    by (simp only: counted_def map_concat filter_concat map_map comp_def)
  then have "concat (map invocation_line (counted evs)) = concat (map (\<lambda>st. concat (map invocation_line (?row st))) ?sts)"
    by (simp only: concat_map_concat)
  also have "\<dots> = concat (map (\<lambda>st. lines_text (?samples st)) ?sts)" by (simp only: row)
  also have "\<dots> = lines_text (invocation_samples evs)" unfolding invocation_samples_def by (rule concat_map_concat [symmetric])
  finally show ?thesis .
qed

lemma hist_of_total: "sum_ms (hist_of ds) = foldl (\<lambda>a d. round53 (a + d)) 0 ds"
  by (induction ds rule: rev_induct)
    (simp_all add: hist_of_snoc observe_def Let_def, simp add: default_histogram_def)

lemma measured_text: "concat (map histogram_lines (measured evs)) = lines_text (duration_samples evs)"
proof -
  have b: "map show_double [1, 5, 10, 25, 50, 100, 250, 500, 1000, 2500, 5000, 10000]
      = map show_int [1, 5, 10, 25, 50, 100, 250, 500, 1000, 2500, 5000, 10000]" by (simp add: show_double_def)
  have "bucket_lines c kBucketsMs (map (at_most ds) kBucketsMs)
      = lines_text (map (\<lambda>b. ''faas_invocation_duration_ms_bucket{'' @ cold_label c @ '','' @ label ''le'' (show_int b) @ ''} ''
            @ show_int (int (length (filter (\<lambda>d. d \<le> b) ds)))) [1, 5, 10, 25, 50, 100, 250, 500, 1000, 2500, 5000, 10000])" for c ds
    using b by (simp add: kBucketsMs_def bucket_line_def label_def cold_label_def bool_str_def at_most_def)
  note bl = this
  have h: "histogram_lines (c, hist_of ds) = lines_text (
      map (\<lambda>b. ''faas_invocation_duration_ms_bucket{'' @ cold_label c @ '','' @ label ''le'' (show_int b) @ ''} ''
            @ show_int (int (length (filter (\<lambda>d. d \<le> b) ds)))) [1, 5, 10, 25, 50, 100, 250, 500, 1000, 2500, 5000, 10000]
        @ [''faas_invocation_duration_ms_bucket{'' @ cold_label c @ '','' @ label ''le'' ''+Inf'' @ ''} '' @ show_int (int (length ds)),
           ''faas_invocation_duration_ms_sum{'' @ cold_label c @ ''} '' @ show_double (foldl (\<lambda>a d. round53 (a + d)) 0 ds),
           ''faas_invocation_duration_ms_count{'' @ cold_label c @ ''} '' @ show_int (int (length ds))])" if "ds \<noteq> []" for c ds
    unfolding map_append concat_append bl [symmetric]
    by (simp add: histogram_lines_def hist_of_buckets [OF that] hist_of_count hist_of_total
        bucket_line_def label_def cold_label_def bool_str_def)
  show ?thesis unfolding duration_samples_def Let_def measured_def
    by (cases "durations False evs = []"; cases "durations True evs = []")
      (simp_all only: list.map concat.simps map_append concat_append h if_True if_False append_Nil append_Nil2 simp_thms not_False_eq_True)
qed

lemma render_exposition:
  assumes "reflects evs m" "\<forall>e \<in> set evs. fst e \<in> {''error'', ''infra_error'', ''success'', ''timeout''}"
  shows "render active m = lines_text (exposition active evs (runtimes_created m) (runtimes_terminated m))"
proof -
  have "terminated_line = (\<lambda>e. (case e of (reason, n) \<Rightarrow> ''faas_runtimes_terminated_total{'' @ label ''reason'' reason @ ''} '' @ show_int n) @ [LF])"
    by (rule ext) (simp add: terminated_line_def label_def split: prod.split)
  then have t: "concat (map terminated_line ended) = lines_text (map (\<lambda>(reason, n).
      ''faas_runtimes_terminated_total{'' @ label ''reason'' reason @ ''} '' @ show_int n) ended)" for ended
    by (simp add: comp_def)
  show ?thesis
    unfolding render_def exposition_def reflects_counted [OF assms] reflects_measured [OF assms(1)] counted_text measured_text t
    by (simp only: list.map concat.simps map_append concat_append append_assoc append_Nil2)
qed

end
