(* ===== verification/Concurrent_Properties.thy ===== *)
theory Concurrent_Properties
  imports Handler_Schedules Plane_Properties Http_Properties Exposition
begin

text \<open>
  The properties of the control plane as a whole, for every interleaving of its threads.
\<close>

section \<open>A run of the example\<close>

lemma demo_history_laws: "history_laws mem_api mem_iok mem_room mem_itbl"
proof -
  have "keeps mem_api sql (\<lambda>d. (mem_iok d, mem_itbl d))" if "sql \<in> {kUpsertSql, kSelectOneSql, kDeleteSql}" for sql
    using mem_functions_keep [OF that] by (auto simp: keeps_def)
  then show ?thesis
    by (simp add: history_laws_def apart_def mem_insert_invocation mem_insert_full mem_select_invocation)
qed

text \<open>The function is looked up and invoked, and then nothing is being handled.\<close>

lemma demo_asked:
  "plane_reachable mem_api demo_env demo_be disk_db init_world
    (set_job 0 (Some (Asked ''hello'' ''x'' (stored deployed_spec))) (init_plane disk_db init_world))"
proof -
  obtain fn where fn: "registry_get mem_api ''hello'' disk_db = (Inr (Some fn), disk_db)" "fn_spec fn = stored deployed_spec"
    using disk_found by blast
  have "pstep mem_api demo_env demo_be (init_plane disk_db init_world)
      (set_job 0 (Some (Asked ''hello'' ''x'' (fn_spec fn))) ((init_plane disk_db init_world)\<lparr>cp_db := disk_db\<rparr>))"
    by (rule found) (use fn(1) in \<open>simp_all add: init_plane_def\<close>)
  then show ?thesis using plane_step [OF plane_start] fn(2) by (simp add: init_plane_def)
qed

lemma demo_cold_start:
  "\<exists>mg1. checkout demo_env demo_be (stored deployed_spec)
      ((init_manager init_world)\<lparr>mworld := snd (steady_now demo_env (mworld (init_manager init_world)))\<rparr>)
    = Some (Inr (True, 32768, ''abc123''), mg1)"
proof -
  have "map_option fst (checkout demo_env demo_be (stored deployed_spec)
      ((init_manager init_world)\<lparr>mworld := snd (steady_now demo_env (mworld (init_manager init_world)))\<rparr>))
    = Some (Inr (True, 32768, ''abc123''))" by code_simp
  then show ?thesis by auto
qed

lemma demo_answer_ok: "outcome_ok demo_answer" "cr_ok demo_answer" "\<not> cr_timed_out demo_answer"
  by (simp_all add: demo_answer_def default_response_def outcome_ok_def)

lemma plane_invoked:
  "\<exists>s a. plane_reachable mem_api demo_env demo_be disk_db init_world s \<and> (\<forall>t. cp_jobs s t = None) \<and> cp_answers s = [a]"
proof -
  let ?s = "set_job 0 (Some (Asked ''hello'' ''x'' (stored deployed_spec))) (init_plane disk_db init_world)"
  obtain mg1 where co: "checkout demo_env demo_be (stored deployed_spec)
      ((mgr (cp_sys ?s))\<lparr>mworld := snd (steady_now demo_env (mworld (mgr (cp_sys ?s))))\<rparr>) = Some (Inr (True, 32768, ''abc123''), mg1)"
    using demo_cold_start by (auto simp: init_plane_def init_system_def)
  have job: "cp_jobs ?s 0 = Some (Asked ''hello'' ''x'' (stored deployed_spec))" by simp
  have "\<exists>k d'. store_record mem_api ''hello'' ''x'' st (cr_body demo_answer) dur True (cp_db ?s) = (Inr k, d')" for st dur
    using store_record_ok [OF mem_insert_invocation disk_room(2,3)] by (fastforce simp: init_plane_def)
  from invoke_completes [OF demo_asked job co demo_answer_ok this]
  show ?thesis by (fastforce simp: init_plane_def)
qed

text \<open>
  The history is complete and consistent under concurrency: in every reachable state, the
  ids that invocations were answered with are pairwise different, and looking up each of them
  finds the record of that very invocation, whatever other requests were served since.
\<close>
theorem answered_invocations_recorded:
  assumes "history_laws api iok room itbl" "iok d" "plane_reachable api env be d w s"
  shows "distinct (map an_id (cp_answers s))
    \<and> (\<forall>a \<in> set (cp_answers s). \<exists>rec d'. store_get api (an_id a) (cp_db s) = (Inr (Some rec), d')
        \<and> iv_id rec = an_id a \<and> iv_function_name rec = c_str (an_function a) \<and> iv_input rec = c_str (an_input a)
        \<and> iv_status rec = c_str (ir_status (an_result a)) \<and> iv_output rec = c_str (ir_output (an_result a))
        \<and> iv_duration_ms rec = word_of_int (ir_duration_ms (an_result a)) \<and> iv_cold_start rec = ir_cold_start (an_result a))"
  using history_ok_records [OF assms(1) plane_history [OF assms]] by blast

theorem answered_invocations_recorded_witness:
  "\<exists>s a rec d'. plane_reachable mem_api demo_env demo_be disk_db init_world s \<and> cp_answers s = [a]
    \<and> store_get mem_api (an_id a) (cp_db s) = (Inr (Some rec), d') \<and> iv_id rec = an_id a"
proof -
  obtain s a where s: "plane_reachable mem_api demo_env demo_be disk_db init_world s" "cp_answers s = [a]" using plane_invoked by blast
  from answered_invocations_recorded [OF demo_history_laws disk_room(2) s(1)] s show ?thesis by auto
qed

text \<open>
  C16: The metrics and the history table agree. When no request is being handled, the rows of the
  invocations table that were not there when the process started can be listed, each once, so
  that looking each of them up gives a record with some status, cold flag and duration, and
  the metrics are exactly what recording these statuses, flags and durations, in some order,
  gives: none is counted twice, none is missing. The rows of earlier processes are as they
  were and are not counted.
\<close>
theorem metrics_agree_with_history:
  assumes "history_laws api iok room itbl" "iok d" "plane_reachable api env be d w s" "\<And>t. cp_jobs s t = None"
  shows "(\<forall>i. itbl d i \<noteq> None \<longrightarrow> itbl (cp_db s) i = itbl d i)
    \<and> (\<exists>log. distinct (map fst log) \<and> set (map fst log) = {i. itbl d i = None \<and> itbl (cp_db s) i \<noteq> None}
        \<and> list_all (\<lambda>(i, st, cold, dur). \<exists>rec d'. store_get api (show_int (sint i)) (cp_db s) = (Inr (Some rec), d')
              \<and> iv_status rec = st \<and> iv_cold_start rec = cold \<and> iv_duration_ms rec = word_of_int dur) log
        \<and> (\<exists>evs. mset evs = mset (map (\<lambda>(i, st, cold, dur). (st, cold, double_of_long dur)) log)
              \<and> reflects evs (mmetrics (mgr (cp_sys s)))))"
proof -
  obtain ids where ids: "iok (cp_db s)" "distinct ids" "list_all2 (in_table (itbl (cp_db s))) ids (cp_answers s)"
    "\<forall>i \<in> set ids. itbl d i = None" "\<forall>i. i \<notin> set ids \<longrightarrow> itbl (cp_db s) i = itbl d i"
    using plane_grown [OF assms(1-3)] by (auto simp: grown_def)
  have len: "length ids = length (cp_answers s)" using ids(3) by (rule list_all2_lengthD)
  let ?entry = "\<lambda>(i, a). (i, ir_status (an_result a), ir_cold_start (an_result a), ir_duration_ms (an_result a))"
  define log where "log = map ?entry (zip ids (cp_answers s))"
  have keys: "map fst log = ids" using len by (simp add: log_def comp_def case_prod_beta)
  have tabled: "in_table (itbl (cp_db s)) i a" if "(i, a) \<in> set (zip ids (cp_answers s))" for i a
    using ids(3) that by (auto simp: list_all2_iff)
  have "itbl (cp_db s) i \<noteq> None" if "i \<in> set ids" for i
    using not_in_table [OF ids(3)] that by blast
  then have dom: "set ids = {i. itbl d i = None \<and> itbl (cp_db s) i \<noteq> None}" using ids(4,5) by force
  have law: "select_invocation_law api iok itbl" using assms(1) by (simp add: history_laws_def)
  have recs: "list_all (\<lambda>(i, st, cold, dur). \<exists>rec d'. store_get api (show_int (sint i)) (cp_db s) = (Inr (Some rec), d')
      \<and> iv_status rec = st \<and> iv_cold_start rec = cold \<and> iv_duration_ms rec = word_of_int dur) log"
    using row_found [OF law ids(1) tabled answers_known [OF assms(3)]] by (fastforce simp: log_def list_all_iff dest: set_zip_rightD)
  have "map (\<lambda>(i, st, cold, dur). (st, cold, double_of_long dur)) log
      = map (\<lambda>a. event_of (an_result a)) (map snd (zip ids (cp_answers s)))"
    unfolding log_def map_map by (rule map_cong) (auto simp: event_of_def)
  then have "mset (map event_of (finished (cp_sys s))) = mset (map (\<lambda>(i, st, cold, dur). (st, cold, double_of_long dur)) log)"
    using quiet_books [OF assms(3,4)] len by simp
  moreover have "reflects (map event_of (finished (cp_sys s))) (mmetrics (mgr (cp_sys s)))"
    using plane_reachable_sys [OF assms(3)] reachable_reflects by blast
  ultimately have "\<exists>evs. mset evs = mset (map (\<lambda>(i, st, cold, dur). (st, cold, double_of_long dur)) log)
      \<and> reflects evs (mmetrics (mgr (cp_sys s)))" by blast
  moreover have "itbl (cp_db s) i = itbl d i" if "itbl d i \<noteq> None" for i using ids(4,5) that by metis
  ultimately show ?thesis using ids(2) recs by (intro conjI exI [of _ log]) (simp_all add: keys dom)
qed

theorem metrics_agree_with_history_witness:
  "\<exists>s a log evs. plane_reachable mem_api demo_env demo_be disk_db init_world s \<and> cp_answers s = [a]
    \<and> distinct (map fst log) \<and> set (map fst log) = {i. mem_itbl disk_db i = None \<and> mem_itbl (cp_db s) i \<noteq> None}
    \<and> mset evs = mset (map (\<lambda>(i, st, cold, dur). (st, cold, double_of_long dur)) log)
    \<and> reflects evs (mmetrics (mgr (cp_sys s)))"
proof -
  obtain s a where s: "plane_reachable mem_api demo_env demo_be disk_db init_world s" "\<And>t. cp_jobs s t = None" "cp_answers s = [a]"
    using plane_invoked by blast
  from metrics_agree_with_history [OF demo_history_laws disk_room(2) s(1,2)] s(1,3) show ?thesis by blast
qed

section \<open>The metrics endpoint\<close>

text \<open>
  C29: \<^verbatim>\<open>GET /metrics\<close> tells the truth. In every reachable state of the control plane the request,
  served from that state, is answered 200 with exactly the lines that the finished
  invocations, the tracked runtimes and the two runtime counters determine: a gauge with the
  number of tracked runtimes; for each outcome and cold flag that occurred, in this order,
  the number of finished invocations that had it, and no line for one that did not occur; for
  warm and for cold invocations, if there were any, the cumulative histogram of their
  durations at the twelve bounds and at \<^verbatim>\<open>+Inf\<close>, with their sum and count. The runtimes created
  are the ones tracked and the ones terminated. Nothing but the clock's reading is changed.
\<close>
theorem metrics_endpoint_exact:
  assumes "plane_reachable api env (make_runtime_backend kind env) d w s" "q = [] \<or> hd q = CHR ''?''"
    and "mg = mgr (cp_sys s)"
  shows "\<exists>resp. routed lib api env (make_runtime_backend kind env) idle req ''GET'' [''metrics''] q (plane_of s)
      = (Returns resp, (plane_of s)\<lparr>pl_mgr := mg\<lparr>mworld := snd (steady_now env (mworld mg))\<rparr>\<rparr>)
    \<and> rp_status resp = 200 \<and> om_find (rp_headers resp) ''Content-Type'' = Some ''text/plain; version=0.0.4''
    \<and> rp_body resp = concat (map (\<lambda>line. line @ [LF])
        (exposition (int (length (runtimes mg))) (map event_of (finished (cp_sys s)))
          (runtimes_created (mmetrics mg)) (runtimes_terminated (mmetrics mg))))
    \<and> runtimes_created (mmetrics mg) = int (length (runtimes mg)) + sum_list (map snd (runtimes_terminated (mmetrics mg)))"
proof -
  have sys: "reachable env (make_runtime_backend kind env) w (cp_sys s)" using plane_reachable_sys [OF assms(1)] by blast
  have st: "\<forall>e \<in> set (map event_of (finished (cp_sys s))). fst e \<in> {''error'', ''infra_error'', ''success'', ''timeout''}"
    using reachable_known [OF sys] by (simp add: known_statuses_def list_all_iff known_status_def event_of_def)
  note body = render_exposition [OF reachable_reflects [OF sys, folded assms(3)] st]
  have "balanced mg" using chosen.reachable_mgr_ok [OF sys] assms(3) by (simp add: mgr_ok_def)
  moreover have "routed lib api env (make_runtime_backend kind env) idle req ''GET'' [''metrics''] q (plane_of s)
      = metrics_handler env (req\<lparr>rq_method := ''GET'', rq_path := path_of [''metrics''] @ q\<rparr>) [] (plane_of s)"
    by (subst routed_eq [OF _ assms(2)])
      (simp_all add: plain_segment_def api_routes_def make_route_def split_path_def match_route_def is_param_def)
  ultimately show ?thesis
    by (simp add: metrics_handler_def list_runtimes_def case_prod_beta Let_def response_text_def body plane_of_def assms(3) [symmetric]
        balanced_def om_total_def map_simps)
qed

theorem metrics_endpoint_exact_witness:
  "\<exists>s a resp p. plane_reachable mem_api demo_env demo_be disk_db init_world s \<and> cp_answers s = [a]
    \<and> routed mj_lib mem_api demo_env demo_be 60000 demo_post ''GET'' [''metrics''] [] (plane_of s) = (Returns resp, p)
    \<and> rp_body resp = concat (map (\<lambda>line. line @ [LF])
        (exposition (int (length (runtimes (mgr (cp_sys s))))) (map event_of (finished (cp_sys s)))
          (runtimes_created (mmetrics (mgr (cp_sys s)))) (runtimes_terminated (mmetrics (mgr (cp_sys s))))))"
proof -
  obtain s a where s: "plane_reachable mem_api demo_env demo_be disk_db init_world s" "cp_answers s = [a]" using plane_invoked by blast
  from metrics_endpoint_exact [OF s(1) _ refl, of "[]" mj_lib 60000 demo_post] s show ?thesis by blast
qed

section \<open>Handlers and schedules\<close>

text \<open>
  C15: The step relation and the handlers describe the same program: whenever a thread is idle,
  serving a connection from beginning to end without interruption, as the handlers of
  \<^verbatim>\<open>main.cpp\<close> do it, is one of the schedules of the concurrent system. If the connection is
  answered, steps of that thread lead to the state of database, runtimes and metrics that
  the handler leaves, and every other thread stands where it stood.
\<close>
theorem handlers_are_schedules:
  assumes "idle_thread t s" "handle_connection (api_routes lib api env be idle) r (plane_of s) = (Answered out, p)"
  shows "\<exists>s'. (pstep api env be)\<^sup>*\<^sup>* s s' \<and> plane_of s' = p \<and> cp_jobs s' = cp_jobs s \<and> threads (cp_sys s') = threads (cp_sys s)"
proof -
  obtain req resp where "dispatch (api_routes lib api env be idle) req (split_path (rq_path req)) False (plane_of s) = (Returns resp, p)"
    using assms(2) by (auto simp: handle_connection_def split: received.splits outcome.splits prod.splits)
  from dispatch_scheduled [OF routes_scheduled assms(1) this] show ?thesis by (auto simp: same_threads_def)
qed

definition demo_delete :: string where
  "demo_delete = ''DELETE /functions/hello HTTP/1.1'' @ CRLF @ CRLF"

lemma demo_delete_served:
  "case handle_connection (api_routes mj_lib mem_api demo_env demo_be 60000) (whole demo_delete)
      (plane_of (init_plane disk_db init_world)) of
    (Answered out, p) \<Rightarrow> m_functions (pl_db p) = [] | _ \<Rightarrow> False"
  by code_simp

theorem handlers_are_schedules_witness:
  "\<exists>s'. (pstep mem_api demo_env demo_be)\<^sup>*\<^sup>* (init_plane disk_db init_world) s'
    \<and> m_functions disk_db \<noteq> [] \<and> m_functions (cp_db s') = []"
proof -
  obtain out p where p: "handle_connection (api_routes mj_lib mem_api demo_env demo_be 60000) (whole demo_delete)
      (plane_of (init_plane disk_db init_world)) = (Answered out, p)" "m_functions (pl_db p) = []"
    using demo_delete_served by (auto split: prod.splits conn_result.splits)
  have "m_functions disk_db \<noteq> []" by code_simp
  moreover have "idle_thread 0 (init_plane disk_db init_world)" by (simp add: idle_thread_def init_plane_def init_system_def)
  ultimately show ?thesis using handlers_are_schedules [OF _ p(1), of 0] p(2) by (auto simp: plane_of_def)
qed

section \<open>Deleting a function that is being invoked\<close>

text \<open>
  C40: A delete does not stop an invocation that has already looked up its function. In any
  state, if one thread has found the function and another deletes it, completely, before the
  first enters the runtime manager, the first starts (or finds) a runtime for a function that
  no longer exists, and leaves it behind: in the end no request is being handled, the function
  is not registered, a runtime is tracked for it, and the invocation was answered and
  recorded.
\<close>
theorem delete_races_with_invoke:
  assumes "select_law api ok tbl" "delete_law api ok tbl" "insert_invocation_law api iok room itbl"
    and "keeps api kSelectOneSql (\<lambda>d. (iok d, room d))" "keeps api kDeleteSql (\<lambda>d. (iok d, room d))"
      "keeps api kInsertInvocationSql (\<lambda>d. (ok d, tbl d))"
    and "ok (cp_db s)" "iok (cp_db s)" "room (cp_db s)"
    and "plane_reachable api env be d w s" "cp_jobs s t = None" "cp_jobs s u = None" "t \<noteq> u"
    and "registry_get api nm (cp_db s) = (Inr (Some fn), d1)"
    and "mg = terminate be nm (mgr (cp_sys s))"
    and "checkout env be (fn_spec fn) (mg\<lparr>mworld := snd (steady_now env (mworld mg))\<rparr>) = Some (Inr (cold, port, cid), mg1)"
    and "outcome_ok resp" "cr_ok resp" "\<not> cr_timed_out resp"
  shows "\<exists>s' d' k r. plane_reachable api env be d w s' \<and> cp_jobs s' = cp_jobs s
    \<and> registry_get api nm (cp_db s') = (Inr None, d')
    \<and> om_find (runtimes (mgr (cp_sys s'))) (fs_name (fn_spec fn)) \<noteq> None
    \<and> cp_answers s' = cp_answers s @ [\<lparr>an_id = k, an_function = nm, an_input = inp, an_result = r\<rparr>]
    \<and> ir_status r = response_status resp"
proof -
  have d1: "ok d1" "tbl d1 = tbl (cp_db s)" "iok d1" "room d1"
    using registry_get_ok [OF assms(1,7), of nm] registry_get_keeps [OF assms(4,14)] assms(8,9,14) by (auto split: option.splits)
  have row: "tbl d1 (c_str nm) \<noteq> None"
    using registry_get_ok [OF assms(1,7), of nm] assms(14) d1(2) by (auto split: option.splits)
  obtain d2 where rm: "registry_remove api nm d1 = (Inr True, d2)" "ok d2" "tbl d2 = (tbl d1)(c_str nm := None)"
    using registry_remove_ok [OF assms(2) d1(1), of nm] row by auto
  have d2: "iok d2" "room d2" using registry_remove_keeps [OF assms(5) rm(1)] d1 by auto
  let ?s1 = "set_job t (Some (Asked nm inp (fn_spec fn))) (s\<lparr>cp_db := d1\<rparr>)"
  have r1: "plane_reachable api env be d w ?s1" by (rule plane_step [OF assms(10) found [OF assms(11,14)]])
  have "pstep api env be ?s1 (set_job u (Some (Removing nm)) (?s1\<lparr>cp_db := d2\<rparr>))"
    by (rule removed) (use assms(12,13) rm(1) in simp_all)
  from plane_step [OF r1 this] have r2: "plane_reachable api env be d w (set_job u (Some (Removing nm)) (?s1\<lparr>cp_db := d2\<rparr>))"
    (is "plane_reachable _ _ _ _ _ ?s2") .
  have "pstep api env be ?s2 (set_job u None (with_mgr (terminate be nm (mgr (cp_sys ?s2))) ?s2))"
    by (rule terminated [of _ u]) simp
  from plane_step [OF r2 this] have r3: "plane_reachable api env be d w (set_job u None (with_mgr (terminate be nm (mgr (cp_sys ?s2))) ?s2))"
    (is "plane_reachable _ _ _ _ _ ?s3") .
  have job: "cp_jobs ?s3 t = Some (Asked nm inp (fn_spec fn))" using assms(13) by simp
  have db: "cp_db ?s3 = d2" and mg: "mgr (cp_sys ?s3) = mg" using assms(15) by simp_all
  have co: "checkout env be (fn_spec fn) ((mgr (cp_sys ?s3))\<lparr>mworld := snd (steady_now env (mworld (mgr (cp_sys ?s3))))\<rparr>)
      = Some (Inr (cold, port, cid), mg1)" using assms(16) by (simp only: mg)
  have "\<exists>k d'. store_record api nm inp st (cr_body resp) dur cold (cp_db ?s3) = (Inr k, d')" for st dur
    using store_record_ok [OF assms(3) d2, of nm inp st "cr_body resp" dur cold] unfolding db by blast
  from invoke_completes [OF r3 job co assms(17-19) this] obtain s' k r where s': "plane_reachable api env be d w s'"
    "cp_jobs s' = (cp_jobs ?s3)(t := None)" "om_find (runtimes (mgr (cp_sys s'))) (fs_name (fn_spec fn)) \<noteq> None"
    "store_record api nm inp (ir_status r) (cr_body resp) (word_of_int (ir_duration_ms r)) cold d2 = (Inr k, cp_db s')"
    "ir_status r = response_status resp"
    "cp_answers s' = cp_answers s @ [\<lparr>an_id = k, an_function = nm, an_input = inp, an_result = r\<rparr>]"
    unfolding db by auto
  have jobs: "cp_jobs s' = cp_jobs s" using s'(2) assms(11,12) by (auto simp: fun_eq_iff)
  have "ok (cp_db s')" "tbl (cp_db s') = tbl d2" using store_record_keeps [OF assms(6) s'(4)] rm(2) by auto
  then obtain d' where "registry_get api nm (cp_db s') = (Inr None, d')"
    using registry_get_ok [OF assms(1), of "cp_db s'" nm] rm(3) by auto
  with s' jobs show ?thesis by blast
qed

theorem delete_races_with_invoke_witness:
  "\<exists>s' d'. plane_reachable mem_api demo_env (make_runtime_backend None demo_env) disk_db init_world s' \<and> (\<forall>t. cp_jobs s' t = None)
    \<and> registry_get mem_api ''hello'' (cp_db s') = (Inr None, d')
    \<and> om_find (runtimes (mgr (cp_sys s'))) ''hello'' \<noteq> None"
proof -
  let ?s = "init_plane disk_db init_world"
  obtain fn where fn: "registry_get mem_api ''hello'' (cp_db ?s) = (Inr (Some fn), disk_db)" "fn_spec fn = stored deployed_spec"
    using disk_found by (auto simp: init_plane_def)
  have nm: "fs_name (stored deployed_spec) = ''hello''" by code_simp
  have keep: "keeps mem_api kSelectOneSql (\<lambda>d. (mem_iok d, mem_room d))" "keeps mem_api kDeleteSql (\<lambda>d. (mem_iok d, mem_room d))"
    "keeps mem_api kInsertInvocationSql (\<lambda>d. (mem_ok d, mem_tbl d))"
    using mem_functions_keep [of kSelectOneSql] mem_functions_keep [of kDeleteSql] mem_invocations_keep [of kInsertInvocationSql]
    by (simp_all add: keeps_def)
  have db: "mem_ok (cp_db ?s)" "mem_iok (cp_db ?s)" "mem_room (cp_db ?s)" using disk_room by (simp_all add: init_plane_def)
  have mg: "init_manager init_world = terminate demo_be ''hello'' (mgr (cp_sys ?s))"
    by (simp add: init_plane_def init_system_def init_manager_def terminate_def)
  obtain mg1 where co: "checkout demo_env demo_be (fn_spec fn)
      ((init_manager init_world)\<lparr>mworld := snd (steady_now demo_env (mworld (init_manager init_world)))\<rparr>)
      = Some (Inr (True, 32768, ''abc123''), mg1)"
    unfolding fn(2) using demo_cold_start by blast
  from delete_races_with_invoke [where t = 0 and u = 1 and inp = "''x''", OF mem_select mem_delete mem_insert_invocation
      keep db plane_start _ _ _ fn(1) mg co demo_answer_ok]
  show ?thesis unfolding fn(2) nm by (auto simp: init_plane_def)
qed

end
