(* ===== verification/Plane_Lifetimes.thy ===== *)
theory Plane_Lifetimes
  imports Concurrent_Properties
begin

text \<open>
  The control plane over several lifetimes of its process. The process may end at any moment
  (an exception, a signal, the machine's administrator) and be started again: what was in
  memory is lost, and \<^verbatim>\<open>main\<close> opens the database file as the last process left it. SQLite
  commits each statement before it returns, so the file holds what the connection held; the
  argument \<open>reopen\<close> stands for closing and opening it.
\<close>

section \<open>Lifetimes\<close>

text \<open>The state in which \<^verbatim>\<open>main\<close> starts to listen.\<close>

definition boot :: "'d plane \<Rightarrow> 'd control_plane" where
  "boot p = init_plane (pl_db p) (mworld (pl_mgr p))"

text \<open>SQLite as the next process finds it: opening the file gives the database \<open>d\<close>.\<close>

definition opens :: "'d \<Rightarrow> ('d, 'st) sqlite3 \<Rightarrow> ('d, 'st) sqlite3" where
  "opens d api = api\<lparr>sq_open := (\<lambda>_. Inr d)\<rparr>"

inductive lifetimes ::
  "('d, 'st) sqlite3 \<Rightarrow> env \<Rightarrow> backend \<Rightarrow> ('d \<Rightarrow> 'd) \<Rightarrow> string option \<Rightarrow> 'd \<Rightarrow> 'd control_plane \<Rightarrow> bool"
  for api env be reopen path d where
  born: "startup (opens d api) path w = Inr p \<Longrightarrow> lifetimes api env be reopen path d (boot p)"
| lived: "lifetimes api env be reopen path d s \<Longrightarrow> pstep api env be s s' \<Longrightarrow> lifetimes api env be reopen path d s'"
| reborn: "lifetimes api env be reopen path d s \<Longrightarrow> extends (mworld (mgr (cp_sys s))) w \<Longrightarrow> pod_counter w = 0 \<Longrightarrow>
    startup (opens (reopen (cp_db s)) api) path w = Inr p \<Longrightarrow>
    lifetimes api env be reopen path d ((boot p)\<lparr>cp_answers := cp_answers s\<rparr>)"

text \<open>
  What is relied on: a reopened file has the rows it had, and \<^verbatim>\<open>CREATE TABLE IF NOT EXISTS\<close> changes
  none.
\<close>

definition durable_law :: "('d, 'st) sqlite3 \<Rightarrow> ('d \<Rightarrow> bool) \<Rightarrow> ('d \<Rightarrow> c_long \<Rightarrow> sql_row option) \<Rightarrow> ('d \<Rightarrow> 'd) \<Rightarrow> bool" where
  "durable_law api iok itbl reopen \<longleftrightarrow>
     (\<forall>d. iok d \<longrightarrow> iok (reopen d) \<and> itbl (reopen d) = itbl d)
   \<and> (\<forall>d. \<forall>sql \<in> {kCreateFunctionsSql, kCreateInvocationsSql}. iok d \<longrightarrow>
        iok (snd (sq_exec api d sql)) \<and> itbl (snd (sq_exec api d sql)) = itbl d)"

lemma startup_history:
  assumes "durable_law api iok itbl reopen" "startup (opens d api) path w = Inr p" "iok d"
  shows "iok (pl_db p)" "itbl (pl_db p) = itbl d" "mworld (pl_mgr p) = w"
proof -
  have c: "c_str kCreateFunctionsSql = kCreateFunctionsSql" "c_str kCreateInvocationsSql = kCreateInvocationsSql" by code_simp+
  have exec: "iok d1 \<and> itbl d1 = itbl d0" if "sq_exec api d0 sql = (x, d1)" "iok d0" "sql \<in> {kCreateFunctionsSql, kCreateInvocationsSql}"
    for d0 d1 sql x
    using assms(1) that unfolding durable_law_def by (metis snd_conv)
  obtain d1 d2 x y where "sq_exec api d kCreateFunctionsSql = (x, d1)" "sq_exec api d1 kCreateInvocationsSql = (y, d2)"
    "p = \<lparr>pl_db = d2, pl_mgr = init_manager w\<rparr>"
    using assms(2) by (auto simp: startup_def opens_def db_open_def registry_new_def store_new_def db_exec_def c
        split: prod.splits sum.splits)
  with exec [of d kCreateFunctionsSql x d1] exec [of d1 kCreateInvocationsSql y d2] assms(3)
  show "iok (pl_db p)" "itbl (pl_db p) = itbl d" "mworld (pl_mgr p) = w" by (auto simp: init_manager_def)
qed

lemma lifetimes_history:
  assumes "history_laws api iok room itbl" "durable_law api iok itbl reopen" "iok d"
  shows "lifetimes api env be reopen path d s \<Longrightarrow> history_ok iok itbl s"
proof (induction rule: lifetimes.induct)
  case (born w p)
  then show ?case using startup_history [OF assms(2)] assms(3)
    by (auto simp: history_ok_def boot_def init_plane_def intro: exI [of _ "[]"])
next
  case (lived s s')
  then show ?case using history_ok_step [OF assms(1)] by blast
next
  case (reborn s w p)
  from reborn.IH have "iok (cp_db s)" by (simp add: history_ok_def)
  with assms(2) have r: "iok (reopen (cp_db s))" "itbl (reopen (cp_db s)) = itbl (cp_db s)" by (auto simp: durable_law_def)
  from startup_history [OF assms(2) reborn(4) r(1)] r(2) reborn.IH show ?case
    by (simp add: history_ok_def boot_def init_plane_def)
qed

text \<open>Within one lifetime the states are those of \<open>plane_reachable\<close>.\<close>

lemma reachable_lifetimes:
  assumes "startup (opens d api) path w = Inr p"
  shows "plane_reachable api env be (pl_db p) (mworld (pl_mgr p)) s \<Longrightarrow> lifetimes api env be reopen path d s"
proof (induction rule: plane_reachable.induct)
  case plane_start
  then show ?case using born [OF assms] by (simp add: boot_def)
qed (rule lived)

text \<open>In every lifetime the runtime manager goes through states of its own.\<close>

lemma boot_sys: "reachable env be (mworld (pl_mgr p)) (cp_sys (boot p)) \<and> jobs_match (boot p)"
  using reach_init [of env be "mworld (pl_mgr p)"]
  by (simp add: boot_def init_plane_def jobs_match_def init_system_def)

lemma lifetimes_sys:
  "lifetimes api env be reopen path d s \<Longrightarrow> (\<exists>w. reachable env be w (cp_sys s)) \<and> jobs_match s"
proof (induction rule: lifetimes.induct)
  case (born w p)
  then show ?case using boot_sys by blast
next
  case (lived s s')
  then show ?case using pstep_projects by (metis reach_step)
next
  case (reborn s w p)
  then show ?case using boot_sys [where env = env and be = be and p = p] by (auto simp: jobs_match_def)
qed

text \<open>
  C3: No answered invocation is ever lost: over any number of lifetimes of the process, each
  ended at an arbitrary moment under an arbitrary interleaving of its threads, the ids given
  out are pairwise different, across all lifetimes, each of them still finds the record of
  its own invocation in the current process, and the runtime manager's invariant holds.
\<close>
theorem answers_survive_crashes:
  assumes "history_laws api iok room itbl" "durable_law api iok itbl reopen" "iok d"
    and "lifetimes api env (make_runtime_backend kind env) reopen path d s"
  shows "distinct (map an_id (cp_answers s))
    \<and> (\<forall>a \<in> set (cp_answers s). \<exists>rec d'. store_get api (an_id a) (cp_db s) = (Inr (Some rec), d')
        \<and> iv_id rec = an_id a \<and> iv_function_name rec = c_str (an_function a) \<and> iv_input rec = c_str (an_input a)
        \<and> iv_status rec = c_str (ir_status (an_result a)) \<and> iv_output rec = c_str (ir_output (an_result a))
        \<and> iv_duration_ms rec = word_of_int (ir_duration_ms (an_result a)) \<and> iv_cold_start rec = ir_cold_start (an_result a))
    \<and> mgr_ok (mgr (cp_sys s))"
  using history_ok_records [OF assms(1) lifetimes_history [OF assms]] lifetimes_sys [OF assms(4)] chosen.reachable_mgr_ok
  by blast

lemma mem_durable: "durable_law mem_api mem_iok mem_itbl id"
  by (simp add: durable_law_def mem_api_def)

lemma mem_startup: "startup (opens d mem_api) path w = Inr \<lparr>pl_db = d, pl_mgr = init_manager w\<rparr>"
  by (simp add: startup_def opens_def db_open_def registry_new_def store_new_def db_exec_def mem_api_def)

theorem answers_survive_crashes_witness:
  "\<exists>s a rec d'. lifetimes mem_api demo_env demo_be id None disk_db s \<and> runtimes (mgr (cp_sys s)) = [] \<and> cp_answers s = [a]
    \<and> store_get mem_api (an_id a) (cp_db s) = (Inr (Some rec), d') \<and> iv_id rec = an_id a"
proof -
  obtain s a where s: "plane_reachable mem_api demo_env demo_be disk_db init_world s" "cp_answers s = [a]" using plane_invoked by blast
  let ?w = "(mworld (mgr (cp_sys s)))\<lparr>pod_counter := 0\<rparr>"
  let ?p = "\<lparr>pl_db = cp_db s, pl_mgr = init_manager ?w\<rparr>"
  have "lifetimes mem_api demo_env demo_be id None disk_db s"
    by (rule reachable_lifetimes [OF mem_startup]) (use s(1) in \<open>simp add: init_manager_def\<close>)
  from reborn [OF this, of ?w ?p]
  have l: "lifetimes mem_api demo_env demo_be id None disk_db ((boot ?p)\<lparr>cp_answers := cp_answers s\<rparr>)"
    by (simp add: mem_startup extends_def)
  have "runtimes (mgr (cp_sys ((boot ?p)\<lparr>cp_answers := cp_answers s\<rparr>))) = []"
    by (simp add: boot_def init_plane_def init_system_def init_manager_def)
  moreover have "cp_answers ((boot ?p)\<lparr>cp_answers := cp_answers s\<rparr>) = [a]" using s(2) by simp
  moreover have "\<exists>rec d'. store_get mem_api (an_id a) (cp_db ((boot ?p)\<lparr>cp_answers := cp_answers s\<rparr>)) = (Inr (Some rec), d') \<and> iv_id rec = an_id a"
    using answers_survive_crashes [OF demo_history_laws mem_durable disk_room(2) l] s(2) by auto
  ultimately show ?thesis using l by blast
qed

end
