(* ===== verification/Test_Suite.thy ===== *)
theory Test_Suite
  imports Plane_Lifetimes
begin

text \<open>
  The project's unit tests (\<^verbatim>\<open>tests/\<close>): the test framework and the sixteen test cases, each as
  the definition of whether it passes, over the models of the components they exercise. The
  theorem at the end is that the test program passes.
\<close>

section \<open>Definitions\<close>

text \<open>
  \<^verbatim>\<open>test_framework.hpp\<close>: a test that returns has passed, one that throws has failed. \<^verbatim>\<open>run_all\<close>
  runs the registered tests in the order of their registration, which across files is not
  specified; it gives the number of tests that passed and the exit code of the program.
\<close>

fun run_tests :: "bool list \<Rightarrow> nat \<Rightarrow> nat \<Rightarrow> nat \<times> nat" where
  "run_tests [] passed failed = (passed, failed)"
| "run_tests (t # ts) passed failed = (if t then run_tests ts (passed + 1) failed else run_tests ts passed (failed + 1))"

definition run_all :: "bool list \<Rightarrow> nat \<times> int" where
  "run_all tests = (case run_tests tests 0 0 of (passed, failed) \<Rightarrow> (passed, if failed = 0 then 0 else 1))"

text \<open>The steps of the tests: an operation that throws ends the test.\<close>

definition after :: "('e + 'a) \<times> 'd \<Rightarrow> ('a \<Rightarrow> 'd \<Rightarrow> bool) \<Rightarrow> bool" where
  "after x k = (case x of (Inl _, _) \<Rightarrow> False | (Inr v, d) \<Rightarrow> k v d)"

definition with_registry :: "('d, 'st) sqlite3 \<Rightarrow> string \<Rightarrow> ('d \<Rightarrow> bool) \<Rightarrow> bool" where
  "with_registry api path k =
     (case db_open api path of Inl _ \<Rightarrow> False | Inr d \<Rightarrow> after (registry_new api d) (\<lambda>_. k))"

definition with_store :: "('d, 'st) sqlite3 \<Rightarrow> ('d \<Rightarrow> bool) \<Rightarrow> bool" where
  "with_store api k =
     (case db_open api '':memory:'' of Inl _ \<Rightarrow> False | Inr d \<Rightarrow> after (store_new api d) (\<lambda>_. k))"

definition check_some :: "'a option \<Rightarrow> ('a \<Rightarrow> bool) \<Rightarrow> bool" where
  "check_some x P = (case x of None \<Rightarrow> False | Some v \<Rightarrow> P v)"

definition test_spec :: "string \<Rightarrow> string \<Rightarrow> function_spec" where
  "test_spec nm img = default_spec\<lparr>fs_name := nm, fs_image := img\<rparr>"

subsection \<open>\<^verbatim>\<open>test_function_registry.cpp\<close>\<close>

definition register_and_get_function :: "('d, 'st) sqlite3 \<Rightarrow> bool" where
  "register_and_get_function api = with_registry api '':memory:'' (\<lambda>d.
     after (register_function api (test_spec ''hello'' ''hello:v1'') d) (\<lambda>_ d.
     after (registry_get api ''hello'' d) (\<lambda>fn d.
       check_some fn (\<lambda>f. fs_image (fn_spec f) = ''hello:v1'' \<and> fs_name (fn_spec f) = ''hello''))))"

definition get_missing_function_returns_nullopt :: "('d, 'st) sqlite3 \<Rightarrow> bool" where
  "get_missing_function_returns_nullopt api = with_registry api '':memory:'' (\<lambda>d.
     after (registry_get api ''does-not-exist'' d) (\<lambda>fn d. fn = None))"

definition remove_function :: "('d, 'st) sqlite3 \<Rightarrow> bool" where
  "remove_function api = with_registry api '':memory:'' (\<lambda>d.
     after (register_function api (test_spec ''hello'' ''hello:v1'') d) (\<lambda>_ d.
     after (registry_remove api ''hello'' d) (\<lambda>removed d. removed \<and>
     after (registry_get api ''hello'' d) (\<lambda>fn d. fn = None \<and>
     after (registry_remove api ''hello'' d) (\<lambda>removed d. \<not> removed)))))"

definition list_returns_all_registered_functions :: "('d, 'st) sqlite3 \<Rightarrow> bool" where
  "list_returns_all_registered_functions api = with_registry api '':memory:'' (\<lambda>d.
     after (register_function api (test_spec ''a'' ''a:v1'') d) (\<lambda>_ d.
     after (register_function api (test_spec ''b'' ''b:v1'') d) (\<lambda>_ d.
       (case registry_list api d of None \<Rightarrow> False | Some x \<Rightarrow> after x (\<lambda>fns d. length fns = 2)))))"

definition re_registering_overwrites_existing_function :: "('d, 'st) sqlite3 \<Rightarrow> bool" where
  "re_registering_overwrites_existing_function api = with_registry api '':memory:'' (\<lambda>d.
     after (register_function api (test_spec ''hello'' ''hello:v1'') d) (\<lambda>_ d.
     after (register_function api (test_spec ''hello'' ''hello:v2'') d) (\<lambda>_ d.
     after (registry_get api ''hello'' d) (\<lambda>fn d.
       check_some fn (\<lambda>f. fs_image (fn_spec f) = ''hello:v2'')))))"

definition default_spec_values_are_applied :: "('d, 'st) sqlite3 \<Rightarrow> bool" where
  "default_spec_values_are_applied api = with_registry api '':memory:'' (\<lambda>d.
     after (register_function api (test_spec ''defaults'' ''defaults:v1'') d) (\<lambda>fn d.
       fs_version (fn_spec fn) = 1 \<and> fs_timeout_ms (fn_spec fn) = 5000 \<and> fs_memory_mb (fn_spec fn) = 256
       \<and> fs_max_concurrency (fn_spec fn) = 1 \<and> fs_idle_timeout_ms (fn_spec fn) = 60000))"

definition db_test_path :: string where
  "db_test_path = ''/tmp/faas_test_function_registry.db''"

text \<open>The file is closed and opened again: the second \<^verbatim>\<open>Database\<close> finds what the first left.\<close>

definition function_metadata_survives_reopening_the_database_file :: "('d, 'st) sqlite3 \<Rightarrow> ('d \<Rightarrow> 'd) \<Rightarrow> bool" where
  "function_metadata_survives_reopening_the_database_file api reopen = with_registry api db_test_path (\<lambda>d.
     after (register_function api (test_spec ''hello'' ''hello:v1'') d) (\<lambda>_ d.
     with_registry (opens (reopen d) api) db_test_path (\<lambda>d.
     after (registry_get api ''hello'' d) (\<lambda>fn d.
       check_some fn (\<lambda>f. fs_image (fn_spec f) = ''hello:v1'')))))"

subsection \<open>\<^verbatim>\<open>test_invocation_store.cpp\<close>\<close>

definition hello_adi :: string where
  "hello_adi = DQ @ ''Hello, Adi!'' @ DQ"

definition record_and_get_invocation :: "('d, 'st) sqlite3 \<Rightarrow> bool" where
  "record_and_get_invocation api = with_store api (\<lambda>d.
     after (store_record api ''hello'' (''{'' @ DQ @ ''name'' @ DQ @ '':'' @ DQ @ ''Adi'' @ DQ @ ''}'') ''success'' hello_adi 18 False d) (\<lambda>i d.
     after (store_get api i d) (\<lambda>r d.
       check_some r (\<lambda>r. iv_function_name r = ''hello'' \<and> iv_status r = ''success'' \<and> iv_output r = hello_adi
         \<and> iv_duration_ms r = 18 \<and> \<not> iv_cold_start r))))"

definition get_missing_invocation_returns_nullopt :: "('d, 'st) sqlite3 \<Rightarrow> bool" where
  "get_missing_invocation_returns_nullopt api = with_store api (\<lambda>d. after (store_get api ''999'' d) (\<lambda>r d. r = None))"

definition get_non_numeric_id_returns_nullopt :: "('d, 'st) sqlite3 \<Rightarrow> bool" where
  "get_non_numeric_id_returns_nullopt api = with_store api (\<lambda>d. after (store_get api ''not-an-id'' d) (\<lambda>r d. r = None))"

definition successive_records_get_distinct_ids :: "('d, 'st) sqlite3 \<Rightarrow> bool" where
  "successive_records_get_distinct_ids api = with_store api (\<lambda>d.
     after (store_record api ''hello'' ''{}'' ''success'' (DQ @ ''a'' @ DQ) 5 True d) (\<lambda>first d.
     after (store_record api ''hello'' ''{}'' ''success'' (DQ @ ''b'' @ DQ) 5 False d) (\<lambda>second d.
       first \<noteq> second \<and>
       after (store_get api first d) (\<lambda>r d. r \<noteq> None \<and>
       after (store_get api second d) (\<lambda>r d. r \<noteq> None)))))"

definition cold_start_flag_round_trips :: "('d, 'st) sqlite3 \<Rightarrow> bool" where
  "cold_start_flag_round_trips api = with_store api (\<lambda>d.
     after (store_record api ''hello'' ''{}'' ''success'' (DQ @ ''a'' @ DQ) 5 True d) (\<lambda>i d.
     after (store_get api i d) (\<lambda>r d. check_some r iv_cold_start)))"

subsection \<open>\<^verbatim>\<open>test_metrics.cpp\<close>\<close>

definition contains_text :: "string \<Rightarrow> string \<Rightarrow> bool" where
  "contains_text out pat \<longleftrightarrow> find_sub pat out \<noteq> None"

definition total_line :: "string \<Rightarrow> string \<Rightarrow> string" where
  "total_line status cold = ''faas_invocations_total{status='' @ DQ @ status @ DQ @ '',cold_start='' @ DQ @ cold @ DQ @ ''} 1''"

definition render_includes_recorded_invocation_counts :: bool where
  "render_includes_recorded_invocation_counts =
     (let out = render 2 (record_invocation ''timeout'' False 1000 (record_invocation ''success'' False 3
                  (record_invocation ''success'' True 42 init_metrics)))
      in contains_text out (total_line ''success'' ''true'') \<and> contains_text out (total_line ''success'' ''false'')
       \<and> contains_text out (total_line ''timeout'' ''false'') \<and> contains_text out ''faas_active_runtimes 2'')"

definition bucket_text :: "string \<Rightarrow> string \<Rightarrow> string" where
  "bucket_text le n = ''faas_invocation_duration_ms_bucket{cold_start='' @ DQ @ ''false'' @ DQ @ '',le='' @ DQ @ le @ DQ @ ''} '' @ n"

definition histogram_buckets_are_cumulative :: bool where
  "histogram_buckets_are_cumulative =
     (let out = render 0 (record_invocation ''success'' False 3 init_metrics)
      in contains_text out (bucket_text ''1'' ''0'') \<and> contains_text out (bucket_text ''5'' ''1'') \<and> contains_text out (bucket_text ''+Inf'' ''1'')
       \<and> contains_text out (''faas_invocation_duration_ms_count{cold_start='' @ DQ @ ''false'' @ DQ @ ''} 1''))"

definition runtime_creation_and_termination_are_counted :: bool where
  "runtime_creation_and_termination_are_counted =
     (let out = render 0 (record_runtime_terminated ''idle_timeout'' (record_runtime_created (record_runtime_created init_metrics)))
      in contains_text out ''faas_runtimes_created_total 2''
       \<and> contains_text out (''faas_runtimes_terminated_total{reason='' @ DQ @ ''idle_timeout'' @ DQ @ ''} 1''))"

definition render_with_no_data_still_produces_valid_output :: bool where
  "render_with_no_data_still_produces_valid_output =
     (let out = render 0 init_metrics
      in contains_text out ''faas_active_runtimes 0'' \<and> contains_text out ''# TYPE faas_invocations_total counter'')"

section \<open>The tests of the metrics\<close>

lemma contains_text_iff: "contains_text out pat \<longleftrightarrow> sublist pat out"
proof
  assume "contains_text out pat"
  then obtain i where "find_sub pat out = Some i" by (auto simp: contains_text_def)
  then have "prefix pat (drop i out)" by (simp add: find_sub_iff)
  then obtain t where "drop i out = pat @ t" by (auto simp: prefix_def)
  then have "out = take i out @ pat @ t" by (metis append_take_drop_id)
  then show "sublist pat out" unfolding sublist_def by blast
next
  assume "sublist pat out"
  then obtain a b where "out = a @ pat @ b" by (auto simp: sublist_def)
  then have "prefix pat (drop (length a) out)" "length a \<le> length out" by auto
  then show "contains_text out pat" by (auto simp: contains_text_def find_sub_None_iff)
qed

lemma small_ints: "show_int 0 = ''0''" "show_int 1 = ''1''" "show_int 2 = ''2''"
  by code_simp+

lemmas render_gauges = render_contains(1,2) [unfolded append_assoc [symmetric], THEN sublist_prefixD]

lemma counts_test_passes: "render_includes_recorded_invocation_counts"
proof -
  let ?m = "record_invocation ''timeout'' False 1000 (record_invocation ''success'' False 3 (record_invocation ''success'' True 42 init_metrics))"
  have m: "set (invocation_counts ?m) = {((''success'', True), 1), ((''success'', False), 1), ((''timeout'', False), 1)}" by code_simp
  have line: "invocation_line ((st, c), 1) = total_line st (bool_str c) @ [LF]" for st c
    by (simp add: invocation_line_def total_line_def small_ints)
  have "sublist (total_line st (bool_str c)) (render 2 ?m)" if "((st, c), 1) \<in> set (invocation_counts ?m)" for st c
    using render_contains(4) [OF that, of 2] unfolding line by (rule sublist_prefixD)
  from this [of "''success''" True] this [of "''success''" False] this [of "''timeout''" False]
  show ?thesis
    using render_gauges(1) [of 2 ?m]
    by (simp add: render_includes_recorded_invocation_counts_def contains_text_iff m bool_str_def small_ints)
qed

text \<open>The lines of the histogram that has seen one duration of 3 ms.\<close>

lemma one_observation_lines:
  "histogram_lines (False, observe 3 default_histogram) =
    concat (map (\<lambda>e. bucket_line False (show_double (fst e)) (snd e)) (zip kBucketsMs (bucket_counts (observe 3 default_histogram)))
      @ [bucket_line False ''+Inf'' 1, ''faas_invocation_duration_ms_sum{cold_start='' @ DQ @ bool_str False @ DQ @ ''} '' @ show_double 3 @ [LF],
         ''faas_invocation_duration_ms_count{cold_start='' @ DQ @ ''false'' @ DQ @ ''} 1'', [LF]])"
  by (simp add: histogram_lines_def bucket_lines_zip observe_def default_histogram_def small_ints bool_str_def round53_exact Let_def)

lemma bucket_line_text: "show_int n = k \<Longrightarrow> sublist (bucket_line False le n) out \<Longrightarrow> sublist (bucket_text le k) out"
  using sublist_prefixD [of "bucket_text le k" "[LF]" out] by (auto simp: bucket_line_def bucket_text_def bool_str_def)

lemma histogram_test_passes: "histogram_buckets_are_cumulative"
proof -
  let ?h = "record_invocation ''success'' False 3 init_metrics"
  have "(False, observe 3 default_histogram) \<in> set (duration_histograms ?h)" by code_simp
  from render_contains(5) [OF this, of 0]
  have sub: "sublist p (render 0 ?h)" if "sublist p (histogram_lines (False, observe 3 default_histogram))" for p
    using that sublist_order.order_trans by blast
  have "(1, 0) \<in> set (zip kBucketsMs (bucket_counts (observe 3 default_histogram)))"
    "(5, 1) \<in> set (zip kBucketsMs (bucket_counts (observe 3 default_histogram)))" by code_simp+
  then have "sublist (bucket_line False (show_double 1) 0) (render 0 ?h)" "sublist (bucket_line False (show_double 5) 1) (render 0 ?h)"
    unfolding one_observation_lines by (intro sub [unfolded one_observation_lines] sublist_concat; force)+
  moreover have "show_double 1 = ''1''" "show_double 5 = ''5''" by code_simp+
  moreover have "sublist (bucket_line False ''+Inf'' 1) (render 0 ?h)"
    "sublist (''faas_invocation_duration_ms_count{cold_start='' @ DQ @ ''false'' @ DQ @ ''} 1'') (render 0 ?h)"
    by (rule sub [unfolded one_observation_lines], rule sublist_concat, simp)+
  ultimately show ?thesis
    by (auto simp: histogram_buckets_are_cumulative_def contains_text_iff small_ints Let_def intro: bucket_line_text [OF small_ints(1)] bucket_line_text [OF small_ints(2)])
qed

lemma termination_test_passes: "runtime_creation_and_termination_are_counted"
proof -
  let ?t = "record_runtime_terminated ''idle_timeout'' (record_runtime_created (record_runtime_created init_metrics))"
  have "(''idle_timeout'', 1) \<in> set (runtimes_terminated ?t)" "runtimes_created ?t = 2" by code_simp+
  then show ?thesis
    using sublist_prefixD [OF render_contains(6) [of "(''idle_timeout'', 1)" ?t 0, unfolded terminated_line_def append_assoc [symmetric]]]
      render_gauges(2) [of ?t 0]
    by (simp add: runtime_creation_and_termination_are_counted_def contains_text_iff small_ints)
qed

lemma empty_test_passes: "render_with_no_data_still_produces_valid_output"
  using render_gauges(1) [of 0 init_metrics] render_contains(3)
  by (simp add: render_with_no_data_still_produces_valid_output_def contains_text_iff small_ints)

lemmas metrics_tests_pass = counts_test_passes histogram_test_passes termination_test_passes empty_test_passes

section \<open>The tests of the stores\<close>

text \<open>
  What opening a database that does not exist yet gives: after either \<^verbatim>\<open>CREATE TABLE\<close> its table is
  empty, and the table of invocations has room for two rows.
\<close>

definition fresh_law ::
  "('d, 'st) sqlite3 \<Rightarrow> ('d \<Rightarrow> bool) \<Rightarrow> ('d \<Rightarrow> string \<Rightarrow> sql_row option) \<Rightarrow> ('d \<Rightarrow> bool) \<Rightarrow> ('d \<Rightarrow> bool)
    \<Rightarrow> ('d \<Rightarrow> c_long \<Rightarrow> sql_row option) \<Rightarrow> string \<Rightarrow> bool" where
  "fresh_law api ok tbl iok room itbl path \<longleftrightarrow> (\<exists>d. sq_open api path = Inr d
     \<and> (\<exists>d'. sq_exec api d kCreateFunctionsSql = (Inr (), d') \<and> ok d' \<and> tbl d' = Map.empty)
     \<and> (\<exists>d'. sq_exec api d kCreateInvocationsSql = (Inr (), d') \<and> iok d' \<and> room d' \<and> itbl d' = Map.empty
          \<and> (\<forall>rc st d2 st2. sq_step api d' st = (rc, d2, st2) \<longrightarrow> room d2)))"

lemma create_no_nul: "c_str kCreateFunctionsSql = kCreateFunctionsSql" "c_str kCreateInvocationsSql = kCreateInvocationsSql"
  by code_simp+

lemma fresh_registry:
  assumes "fresh_law api ok tbl iok room itbl path" "c_str path = path" "\<And>d. represents ok tbl d Map.empty \<Longrightarrow> k d"
  shows "with_registry api path k"
proof -
  obtain d d' where d: "sq_open api path = Inr d" "sq_exec api d kCreateFunctionsSql = (Inr (), d')" "ok d'" "tbl d' = Map.empty"
    using assms(1) unfolding fresh_law_def by blast
  then have "represents ok tbl d' Map.empty" by (intro representsI [of _ _ _ Map.empty]) (simp_all add: rows_ours_def)
  with assms(3) d show ?thesis
    by (simp add: with_registry_def db_open_def assms(2) after_def registry_new_def db_exec_def create_no_nul)
qed

lemma fresh_store:
  assumes "fresh_law api ok tbl iok room itbl '':memory:''"
    and "\<And>d. iok d \<Longrightarrow> room d \<Longrightarrow> itbl d = Map.empty \<Longrightarrow>
      (\<And>rc st d2 st2. sq_step api d st = (rc, d2, st2) \<Longrightarrow> room d2) \<Longrightarrow> k d"
  shows "with_store api k"
proof -
  obtain d d' where d: "sq_open api '':memory:'' = Inr d" "sq_exec api d kCreateInvocationsSql = (Inr (), d')"
    "iok d'" "room d'" "itbl d' = Map.empty"
    "\<forall>rc st d2 st2. sq_step api d' st = (rc, d2, st2) \<longrightarrow> room d2"
    using assms(1) unfolding fresh_law_def by blast
  have "k d'" by (rule assms(2)) (use d(3-6) in blast)+
  moreover have "c_str '':memory:'' = '':memory:''" by code_simp
  ultimately show ?thesis using d(1,2)
    by (simp add: with_store_def db_open_def after_def store_new_def db_exec_def create_no_nul)
qed

lemma after_register:
  assumes "sqlite_laws api ok tbl" "represents ok tbl d m" "storable_real (fs_cpu spec)"
    and "\<And>fn d'. fn_spec fn = stored spec \<Longrightarrow> represents ok tbl d' (m(c_str (fs_name spec) \<mapsto> stored spec)) \<Longrightarrow> k fn d'"
  shows "after (register_function api spec d) k"
  using reg_step_refines [OF assms(1,2), of "RegisterOp spec"] assms(3,4)
  by (auto simp: after_def split: prod.splits sum.splits)

lemma after_get:
  assumes "sqlite_laws api ok tbl" "represents ok tbl d m"
    and "\<And>x d'. map_option fn_spec x = m (c_str nm) \<Longrightarrow> represents ok tbl d' m \<Longrightarrow> k x d'"
  shows "after (registry_get api nm d) k"
  using reg_step_refines [OF assms(1,2), of "GetOp nm"] assms(3)
  by (auto simp: after_def split: prod.splits sum.splits)

lemma after_remove:
  assumes "sqlite_laws api ok tbl" "represents ok tbl d m"
    and "\<And>d'. represents ok tbl d' (m(c_str nm := None)) \<Longrightarrow> k (m (c_str nm) \<noteq> None) d'"
  shows "after (registry_remove api nm d) k"
  using reg_step_refines [OF assms(1,2), of "RemoveOp nm"] assms(3)
  by (auto simp: after_def split: prod.splits sum.splits)

lemma registry_list_length:
  assumes "select_all_law api ok tbl" "represents ok tbl d m"
  shows "\<exists>fs d'. registry_list api d = Some (Inr fs, d') \<and> length fs = card (dom m)"
proof -
  obtain fns where ok: "ok d" and rows: "rows_ours (tbl d) fns" and m: "m = map_option fn_spec \<circ> fns"
    using assms(2) by (auto simp: represents_def)
  obtain st0 ks where p: "sq_prepare api d kSelectAllSql = Inr st0" "distinct ks" "set ks = dom (tbl d)"
    "row_steps api (\<lambda>d'. ok d' \<and> tbl d' = tbl d) (tbl d) d st0 ks"
    using assms(1) ok unfolding select_all_law_def by blast
  obtain d' where "list_rows api d st0 [] = Some (Inr (map (\<lambda>k. the (fns k)) ks), d')"
    using list_rows_ok [OF rows p(4), of "[]"] by auto
  moreover have "dom (tbl d) = dom m" using rows_ours_None [OF rows] by (auto simp: dom_def m)
  then have "length ks = card (dom m)" using p(2,3) distinct_card by metis
  moreover have "c_str kSelectAllSql = kSelectAllSql" by code_simp
  ultimately show ?thesis using p(1) by (auto simp: registry_list_def stmt_new_def)
qed

lemma test_spec_stored:
  "storable_real (fs_cpu (test_spec nm img))" "fs_name (stored (test_spec nm img)) = c_str nm" "fs_image (stored (test_spec nm img)) = c_str img"
  "c_str (fs_name (test_spec nm img)) = c_str nm"
  by (simp_all add: test_spec_def default_spec_def storable_real_def stored_def)

lemma registry_tests_pass:
  assumes "sqlite_laws api ok tbl" "fresh_law api ok tbl iok room itbl '':memory:''"
  shows "register_and_get_function api" "get_missing_function_returns_nullopt api" "remove_function api"
    "re_registering_overwrites_existing_function api" "default_spec_values_are_applied api"
    "list_returns_all_registered_functions api"
proof -
  have mem: "c_str '':memory:'' = '':memory:''" by code_simp
  note fresh = fresh_registry [OF assms(2) mem] and reg = after_register [OF assms(1) _ test_spec_stored(1)]
    and get = after_get [OF assms(1)] and remove = after_remove [OF assms(1)]
  have c: "c_str ''hello'' = ''hello''" "c_str ''hello:v1'' = ''hello:v1''" "c_str ''hello:v2'' = ''hello:v2''" "c_str ''a'' = ''a''" "c_str ''b'' = ''b''"
    by code_simp+
  show "register_and_get_function api" unfolding register_and_get_function_def
    by (rule fresh, erule reg, erule get) (auto simp: test_spec_stored c check_some_def split: option.splits)
  show "get_missing_function_returns_nullopt api" unfolding get_missing_function_returns_nullopt_def
    by (rule fresh, erule get) simp
  show "re_registering_overwrites_existing_function api" unfolding re_registering_overwrites_existing_function_def
    by (rule fresh, erule reg, erule reg, erule get) (auto simp: test_spec_stored c check_some_def split: option.splits)
  show "default_spec_values_are_applied api" unfolding default_spec_values_are_applied_def
    by (rule fresh, erule reg) (simp add: stored_def test_spec_def default_spec_def)
  show "remove_function api" unfolding remove_function_def
    by (rule fresh, erule reg, erule remove) (auto simp: test_spec_stored c intro!: get remove)
  show "list_returns_all_registered_functions api" unfolding list_returns_all_registered_functions_def
  proof (rule fresh, erule reg, erule reg)
    fix fn d
    assume r: "represents ok tbl d (Map.empty(c_str (fs_name (test_spec ''a'' ''a:v1'')) \<mapsto> stored (test_spec ''a'' ''a:v1''),
        c_str (fs_name (test_spec ''b'' ''b:v1'')) \<mapsto> stored (test_spec ''b'' ''b:v1'')))"
    have "select_all_law api ok tbl" using assms(1) by (simp add: sqlite_laws_def)
    from registry_list_length [OF this r] show "case registry_list api d of None \<Rightarrow> False | Some x \<Rightarrow> after x (\<lambda>fns d. length fns = 2)"
      by (auto simp: after_def test_spec_stored c)
  qed
qed

text \<open>
  What reopening a file gives: the rows it had, which \<^verbatim>\<open>CREATE TABLE IF NOT EXISTS\<close> leaves as they are.
\<close>

definition reopen_law :: "('d, 'st) sqlite3 \<Rightarrow> ('d \<Rightarrow> bool) \<Rightarrow> ('d \<Rightarrow> string \<Rightarrow> sql_row option) \<Rightarrow> ('d \<Rightarrow> 'd) \<Rightarrow> bool" where
  "reopen_law api ok tbl reopen \<longleftrightarrow> (\<forall>d. ok d \<longrightarrow>
     (\<exists>d'. sq_exec api (reopen d) kCreateFunctionsSql = (Inr (), d') \<and> ok d' \<and> tbl d' = tbl d))"

lemma reopened_registry:
  assumes "reopen_law api ok tbl reopen" "represents ok tbl d m" "\<And>d'. represents ok tbl d' m \<Longrightarrow> k d'"
  shows "with_registry (opens (reopen d) api) path k"
proof -
  obtain d' where d: "sq_exec api (reopen d) kCreateFunctionsSql = (Inr (), d')" "ok d'" "tbl d' = tbl d"
    using assms(1,2) unfolding reopen_law_def represents_def by blast
  then have "represents ok tbl d' m" using assms(2) by (simp add: represents_def)
  with assms(3) d show ?thesis
    by (simp add: with_registry_def db_open_def opens_def after_def registry_new_def db_exec_def create_no_nul)
qed

lemma reopening_test_passes:
  assumes "sqlite_laws api ok tbl" "fresh_law api ok tbl iok room itbl db_test_path" "reopen_law api ok tbl reopen"
  shows "function_metadata_survives_reopening_the_database_file api reopen"
proof -
  have c: "c_str db_test_path = db_test_path" "c_str ''hello'' = ''hello''" "c_str ''hello:v1'' = ''hello:v1''" by code_simp+
  show ?thesis unfolding function_metadata_survives_reopening_the_database_file_def
    by (rule fresh_registry [OF assms(2) c(1)], erule after_register [OF assms(1) _ test_spec_stored(1)],
        erule reopened_registry [OF assms(3)], erule after_get [OF assms(1)])
      (auto simp: test_spec_stored c check_some_def split: option.splits)
qed

lemma record_steps:
  assumes "store_record api nm inp st out dur cold d = (Inr x, d')"
  shows "\<exists>rc s s'. sq_step api d s = (rc, d', s')"
  using assms by (auto simp: store_record_def stmt_step_def Let_def split: sum.splits prod.splits step_rc.splits)

lemma after_record:
  assumes "insert_invocation_law api iok room itbl" "iok d" "room d"
    and "\<And>i now rc s s' d'. iok d' \<Longrightarrow> itbl d i = None \<Longrightarrow> itbl d' = (itbl d)(i \<mapsto> record_row nm inp st out dur cold i now) \<Longrightarrow>
      sq_step api d s = (rc, d', s') \<Longrightarrow> k (show_int (sint i)) d'"
  shows "after (store_record api nm inp st out dur cold d) k"
proof -
  obtain d' i now where r: "store_record api nm inp st out dur cold d = (Inr (show_int (sint i)), d')" "iok d'" "itbl d i = None"
    "itbl d' = (itbl d)(i \<mapsto> record_row nm inp st out dur cold i now)"
    using store_record_ok [OF assms(1-3)] by blast
  moreover obtain rc s s' where "sq_step api d s = (rc, d', s')" using record_steps [OF r(1)] by blast
  ultimately show ?thesis by (auto simp: after_def intro: assms(4))
qed

lemma after_lookup:
  assumes "select_invocation_law api iok itbl" "iok d" "itbl d i = Some (record_row nm inp st out dur cold i now)"
    and "\<And>d'. iok d' \<Longrightarrow> itbl d' = itbl d \<Longrightarrow> k (Some (stored_record nm inp st out dur cold i now)) d'"
  shows "after (store_get api (show_int (sint i)) d) k"
  using store_get_ok [OF assms(1,2), of i] assms(3,4) by (auto simp: after_def row_to_record_ok)

lemma store_tests_pass:
  assumes "insert_invocation_law api iok room itbl" "select_invocation_law api iok itbl"
    and "fresh_law api ok tbl iok room itbl '':memory:''"
  shows "record_and_get_invocation api" "get_missing_invocation_returns_nullopt api" "get_non_numeric_id_returns_nullopt api"
    "successive_records_get_distinct_ids api" "cold_start_flag_round_trips api"
proof -
  note fresh = fresh_store [OF assms(3)] and recd = after_record [OF assms(1)] and look = after_lookup [OF assms(2)]
  have c: "c_str ''hello'' = ''hello''" "c_str ''success'' = ''success''" "c_str hello_adi = hello_adi" by code_simp+
  show "record_and_get_invocation api" unfolding record_and_get_invocation_def
    by (rule fresh, rule recd, assumption+, rule look, assumption, simp)
      (simp add: check_some_def stored_record_def c)
  show "cold_start_flag_round_trips api" unfolding cold_start_flag_round_trips_def
    by (rule fresh, rule recd, assumption+, rule look, assumption, simp)
      (simp add: check_some_def stored_record_def)
  have "show_int (sint (999 :: c_long)) = ''999''" by code_simp
  then show "get_missing_invocation_returns_nullopt api" unfolding get_missing_invocation_returns_nullopt_def
    using store_get_ok [OF assms(2), of _ 999] by (intro fresh) (fastforce simp: after_def)
  have "stol ''not-an-id'' = Inl InvalidArgument" by code_simp
  then show "get_non_numeric_id_returns_nullopt api" unfolding get_non_numeric_id_returns_nullopt_def
    by (intro fresh) (simp add: after_def store_get_def)
  show "successive_records_get_distinct_ids api" unfolding successive_records_get_distinct_ids_def
  proof (rule fresh, rule recd, assumption+, rule recd)
    fix d i now rc s s' d'
    assume "\<And>rc st d2 st2. sq_step api d st = (rc, d2, st2) \<Longrightarrow> room d2" "sq_step api d s = (rc, d', s')"
    then show "room d'" .
  next
    fix d d' d2 i j now now2
    assume a: "itbl d = Map.empty" "itbl d' = (itbl d)(i \<mapsto> record_row ''hello'' ''{}'' ''success'' (DQ @ ''a'' @ DQ) 5 True i now)"
      "itbl d' j = None" "iok d2" "itbl d2 = (itbl d')(j \<mapsto> record_row ''hello'' ''{}'' ''success'' (DQ @ ''b'' @ DQ) 5 False j now2)"
    then have "i \<noteq> j" by auto
    then show "show_int (sint i) \<noteq> show_int (sint j) \<and> after (store_get api (show_int (sint i)) d2) (\<lambda>r d. r \<noteq> None
        \<and> after (store_get api (show_int (sint j)) d) (\<lambda>r d. r \<noteq> None))"
      using a by (auto simp: show_int_inj signed_word_eqI intro!: look)
  qed assumption
qed

section \<open>The suite\<close>

text \<open>The registered tests: an order within each file, the files in any order.\<close>

definition registry_tests :: "('d, 'st) sqlite3 \<Rightarrow> ('d \<Rightarrow> 'd) \<Rightarrow> bool list" where
  "registry_tests api reopen = [register_and_get_function api, get_missing_function_returns_nullopt api, remove_function api,
     list_returns_all_registered_functions api, re_registering_overwrites_existing_function api, default_spec_values_are_applied api,
     function_metadata_survives_reopening_the_database_file api reopen]"

definition store_tests :: "('d, 'st) sqlite3 \<Rightarrow> bool list" where
  "store_tests api = [record_and_get_invocation api, get_missing_invocation_returns_nullopt api, get_non_numeric_id_returns_nullopt api,
     successive_records_get_distinct_ids api, cold_start_flag_round_trips api]"

definition metrics_tests :: "bool list" where
  "metrics_tests = [render_includes_recorded_invocation_counts, histogram_buckets_are_cumulative,
     runtime_creation_and_termination_are_counted, render_with_no_data_still_produces_valid_output]"

lemma run_tests_count: "run_tests ts p f = (p + length (filter id ts), f + length (filter Not ts))"
  by (induction ts p f rule: run_tests.induct) auto

lemma run_all_pass: "list_all id ts \<Longrightarrow> run_all ts = (length ts, 0)"
proof -
  assume "list_all id ts"
  then have "filter id ts = ts" "filter Not ts = []" by (induction ts) auto
  then show ?thesis by (simp add: run_all_def run_tests_count)
qed

lemma mem_step_room:
  assumes "mem_step mem_empty st = (rc, d, st')"
  shows "mem_room d"
  using assms by (auto simp: mem_step_def mem_room_def mem_empty_def Let_def split: if_splits option.splits list.splits)

lemma mem_fresh: "fresh_law mem_api mem_ok mem_tbl mem_iok mem_room mem_itbl path"
proof -
  have "mem_tbl mem_empty = Map.empty" "mem_itbl mem_empty = Map.empty" by (rule ext, simp add: mem_tbl_def mem_itbl_def mem_empty_def)+
  moreover have "mem_ok mem_empty" "mem_iok mem_empty" "mem_room mem_empty" by code_simp+
  ultimately show ?thesis using mem_step_room by (auto simp: fresh_law_def mem_api_def)
qed

lemma mem_reopen: "reopen_law mem_api mem_ok mem_tbl id"
  by (simp add: reopen_law_def mem_api_def)

text \<open>
  C32: The project's own test suite passes: whatever order the three test files register their
  tests in, all sixteen of them return without an exception and the test program exits with
  0, over every SQLite that obeys the laws, gives an empty database for a new path, and
  keeps the rows of a closed file.
\<close>
theorem test_suite_passes:
  assumes "sqlite_laws api ok tbl" "insert_invocation_law api iok room itbl" "select_invocation_law api iok itbl"
    and "fresh_law api ok tbl iok room itbl '':memory:''" "fresh_law api ok tbl iok room itbl db_test_path"
    and "reopen_law api ok tbl reopen" "mset tests = mset (registry_tests api reopen @ store_tests api @ metrics_tests)"
  shows "run_all tests = (16, 0)"
proof -
  have all: "list_all id (registry_tests api reopen @ store_tests api @ metrics_tests)"
    using registry_tests_pass [OF assms(1,4)] reopening_test_passes [OF assms(1,5,6)] store_tests_pass [OF assms(2,3,4)] metrics_tests_pass
    by (simp add: registry_tests_def store_tests_def metrics_tests_def)
  have "list_all id tests" using all mset_eq_setD [OF assms(7)] unfolding list_all_iff by simp
  moreover have "length tests = length (registry_tests api reopen @ store_tests api @ metrics_tests)"
    using assms(7) by (rule mset_eq_length)
  then have "length tests = 16" by (simp add: registry_tests_def store_tests_def metrics_tests_def)
  ultimately show ?thesis using run_all_pass by metis
qed

theorem test_suite_passes_witness:
  "run_all (metrics_tests @ store_tests mem_api @ registry_tests mem_api id) = (16, 0)"
  by (rule test_suite_passes [OF mem_laws mem_insert_invocation mem_select_invocation mem_fresh mem_fresh mem_reopen]) simp

end
