(* ===== verification/Crash_Properties.thy ===== *)
theory Crash_Properties
  imports Plane_Properties
begin

text \<open>
  What can end the control plane. An exception that leaves a handler leaves the thread of its
  connection, and ends the process: these are the inputs for which that happens.
\<close>

section \<open>Which handlers throw\<close>

lemma dispatch_throws:
  "fst (dispatch routes req segs b s) = Throws \<Longrightarrow>
    \<exists>route \<in> set routes. \<exists>params. match_route route segs = Some params \<and> ro_method route = rq_method req
      \<and> fst (ro_handler route req params s) = Throws"
  by (induction routes arbitrary: b) (auto split: option.splits if_splits)

lemma match_functions: "match_route (make_route m ''/functions'' h) segs = Some params \<Longrightarrow> segs = [''functions'']"
  by (cases segs) (auto simp: match_route_def make_route_def split_path_def is_param_def split: if_splits)

text \<open>
  The strings that an answer to a request can contain are UTF-8: the segments of its path, the
  texts in the database, the tracked runtimes, and what the function answers.
\<close>

definition texts_utf8 :: "('d, 'st) sqlite3 \<Rightarrow> env \<Rightarrow> backend \<Rightarrow> 'd plane \<Rightarrow> http_request \<Rightarrow> bool" where
  "texts_utf8 api env be s req \<longleftrightarrow>
     list_all utf8 (split_path (rq_path req))
   \<and> (\<forall>nm fn d. registry_get api nm (pl_db s) = (Inr (Some fn), d) \<longrightarrow> utf8 (fs_name (fn_spec fn)) \<and> utf8 (fs_image (fn_spec fn)))
   \<and> (\<forall>i rec d. store_get api i (pl_db s) = (Inr (Some rec), d) \<longrightarrow>
        utf8 (iv_id rec) \<and> utf8 (iv_function_name rec) \<and> utf8 (iv_status rec) \<and> utf8 (iv_output rec))
   \<and> (\<forall>k rt. (k, rt) \<in> set (runtimes (pl_mgr s)) \<longrightarrow> utf8 k \<and> utf8 (container_id rt))
   \<and> (\<forall>nm fn d r mg'. registry_get api nm (pl_db s) = (Inr (Some fn), d)
        \<and> invoke env be (fn_spec fn) (if rq_body req = [] then ''{}'' else rq_body req) (pl_mgr s) = Some (r, mg') \<longrightarrow> utf8 (ir_output r))"

lemma texts_utf8D:
  assumes "texts_utf8 api env be s req"
  shows "list_all utf8 (split_path (rq_path req))"
    and "registry_get api nm (pl_db s) = (Inr (Some fn), d) \<Longrightarrow> utf8 (fs_name (fn_spec fn)) \<and> utf8 (fs_image (fn_spec fn))"
    and "store_get api i (pl_db s) = (Inr (Some rec), d') \<Longrightarrow>
      utf8 (iv_id rec) \<and> utf8 (iv_function_name rec) \<and> utf8 (iv_status rec) \<and> utf8 (iv_output rec)"
    and "(k, rt) \<in> set (runtimes (pl_mgr s)) \<Longrightarrow> utf8 k \<and> utf8 (container_id rt)"
    and "registry_get api nm (pl_db s) = (Inr (Some fn), d) \<Longrightarrow>
      invoke env be (fn_spec fn) (if rq_body req = [] then ''{}'' else rq_body req) (pl_mgr s) = Some (r, mg') \<Longrightarrow> utf8 (ir_output r)"
  using assms unfolding texts_utf8_def by blast+

lemma answered: "utf8_laws lib \<Longrightarrow> text_doc lib j \<Longrightarrow> json_response lib st j \<noteq> Throws" "utf8_laws lib \<Longrightarrow> utf8 m \<Longrightarrow> error_response lib st m \<noteq> Throws"
  using text_answer [of lib j st] text_error [of lib m st] by auto

lemma lists_never_throw:
  assumes "utf8_laws lib" "texts_utf8 api env be s req"
  shows "fst (metrics_handler env req ps s) \<noteq> Throws" "fst (runtimes_handler lib env req ps s) \<noteq> Throws"
    "fst (health_handler lib req ps s) \<noteq> Throws"
proof -
  show "fst (metrics_handler env req ps s) \<noteq> Throws" by (simp add: metrics_handler_def case_prod_beta Let_def)
  show "fst (health_handler lib req ps s) \<noteq> Throws"
    unfolding health_handler_def fst_conv by (rule answered [OF assms(1)]) (auto intro!: text_built)
  show "fst (runtimes_handler lib env req ps s) \<noteq> Throws"
    unfolding runtimes_handler_def case_prod_beta fst_conv
    by (rule answered [OF assms(1)]) (use texts_utf8D(4) [OF assms(2)] in \<open>auto intro!: text_built simp: list_runtimes_def list_entry_def Let_def case_prod_beta\<close>)
qed

lemma lookups_never_throw:
  assumes "select_law api ok tbl" "ok (pl_db s)" "utf8_laws lib" "texts_utf8 api env be s req" "utf8 (hd ps)"
  shows "fst (describe_handler lib api req ps s) \<noteq> Throws" "fst (runtime_handler lib api env req ps s) \<noteq> Throws"
proof -
  obtain x d' where get: "registry_get api (hd ps) (pl_db s) = (Inr x, d')"
    using registry_get_ok [OF assms(1,2), of "hd ps"] by (auto split: option.splits)
  show "fst (describe_handler lib api req ps s) \<noteq> Throws"
    using get texts_utf8D(2) [OF assms(4)]
    by (auto simp: describe_handler_def assms(5) answered(2) [OF assms(3)] intro!: answered(1) [OF assms(3)] text_function split: option.splits)
  have "json_response lib st (j_object lib [(''state'', j_string lib (runtime_state_to_string (rs_state rt))), (''container_id'', j_string lib (rs_container_id rt)),
      (''host_port'', j_int lib (rs_host_port rt)), (''idle_ms'', j_int lib (rs_idle_ms rt))]) \<noteq> Throws"
    if "runtime_status_of env (hd ps) (pl_mgr s) = (Some rt, mg')" for st rt mg'
    using that texts_utf8D(4) [OF assms(4)] om_find_in
    by (intro answered [OF assms(3)]) (fastforce intro!: text_built simp: runtime_status_of_def case_prod_beta Let_def split: option.splits)
  then show "fst (runtime_handler lib api env req ps s) \<noteq> Throws"
    using get by (auto simp: runtime_handler_def assms(5) answered(2) [OF assms(3)] split: option.split prod.split)
qed

lemma delete_never_throws:
  assumes "delete_law api ok tbl" "ok (pl_db s)" "utf8_laws lib" "utf8 (hd ps)"
  shows "fst (delete_handler lib api be req ps s) \<noteq> Throws"
  using registry_remove_ok [OF assms(1,2), of "hd ps"]
  by (auto simp: delete_handler_def assms(4) answered(2) [OF assms(3)] split: if_splits)

lemma invocation_never_throws:
  assumes "select_invocation_law api iok itbl" "iok (pl_db s)" "utf8_laws lib" "texts_utf8 api env be s req" "utf8 (hd ps)"
  shows "fst (invocation_handler lib api req ps s) \<noteq> Throws"
proof -
  obtain x d' where get: "store_get api (hd ps) (pl_db s) = (Inr x, d')"
    using store_get_any [OF assms(1,2), of "hd ps"] by blast
  have "json_response lib st (j_object lib [(''id'', j_string lib (iv_id rec)), (''function'', j_string lib (iv_function_name rec)),
      (''status'', j_string lib (iv_status rec)), (''result'', parse_or_string lib (iv_output rec)),
      (''duration_ms'', j_int lib (sint (iv_duration_ms rec))), (''cold_start'', j_bool lib (iv_cold_start rec))]) \<noteq> Throws" if "x = Some rec" for st rec
    using texts_utf8D(3) [OF assms(4)] get that by (intro answered [OF assms(3)]) (auto intro!: text_built text_parse_or_string)
  then show ?thesis using get by (auto simp: invocation_handler_def assms(5) answered(2) [OF assms(3)] split: option.split)
qed

lemma invoke_never_throws:
  assumes "select_law api ok tbl" "ok (pl_db s)" "insert_invocation_law api iok room itbl"
    and "keeps api kSelectOneSql (\<lambda>d. (iok d, room d))" "iok (pl_db s)" "room (pl_db s)"
    and "utf8_laws lib" "texts_utf8 api env be s req" "utf8 (hd ps)"
  shows "fst (invoke_handler lib api env be req ps s) \<noteq> Throws"
proof -
  obtain x d1 where get: "registry_get api (hd ps) (pl_db s) = (Inr x, d1)"
    using registry_get_ok [OF assms(1,2), of "hd ps"] by (auto split: option.splits)
  have d1: "iok d1" "room d1" using registry_get_keeps [OF assms(4) get] assms(5,6) by auto
  have rec: "\<exists>i d2. store_record api fname inp st out dur cold d1 = (Inr (show_int i), d2)" for fname inp st out dur cold
    using store_record_ok [OF assms(3) d1, of fname inp st out dur cold] by blast
  have body: "json_response lib st (snd (invoke_body lib (show_int i) r)) \<noteq> Throws"
    if "x = Some fn" "invoke env be (fn_spec fn) (if rq_body req = [] then ''{}'' else rq_body req) (pl_mgr s) = Some (r, mg')" for st i r fn mg'
  proof (rule answered [OF assms(7)], rule text_invoke_body)
    show "utf8 (ir_output r)" using texts_utf8D(5) [OF assms(8)] get that by blast
    show "utf8 (ir_status r)" using invoke_post [OF that(2)] by (auto simp: invocation_post_def)
  qed (rule utf8_show_int)
  show ?thesis
  proof (cases x)
    case None
    with get show ?thesis by (simp add: invoke_handler_def assms(9) answered(2) [OF assms(7)])
  next
    case (Some fn)
    let ?inp = "if rq_body req = [] then ''{}'' else rq_body req"
    show ?thesis
    proof (cases "invoke env be (fn_spec fn) ?inp (pl_mgr s)")
      case (Some p)
      obtain i d2 where "store_record api (hd ps) ?inp (ir_status (fst p)) (ir_output (fst p)) (word_of_int (ir_duration_ms (fst p))) (ir_cold_start (fst p)) d1
          = (Inr (show_int i), d2)" using rec by blast
      with get \<open>x = Some fn\<close> Some body [of fn "fst p" "snd p"] show ?thesis
        by (simp add: invoke_handler_def Let_def case_prod_beta)
    qed (use get Some in \<open>simp add: invoke_handler_def Let_def\<close>)
  qed
qed

lemma deploy_throws_iff:
  assumes "upsert_law api ok tbl" "select_law api ok tbl" "ok (pl_db s)" "utf8_laws lib"
    and "\<And>body spec. j_parse lib (rq_body req) = Some body \<Longrightarrow> read_spec lib idle body = Some spec \<Longrightarrow> storable_real (fs_cpu spec)"
  shows "fst (deploy_handler lib api idle req ps s) = Throws \<longleftrightarrow>
    (\<exists>body. j_parse lib (rq_body req) = Some body \<and> j_contains lib body ''name'' \<and> j_contains lib body ''image''
      \<and> read_spec lib idle body = None)"
proof -
  have msgs: "utf8 ''invalid JSON body''"
    "utf8 ([CHR 0x27] @ ''name'' @ [CHR 0x27] @ '' and '' @ [CHR 0x27] @ ''image'' @ [CHR 0x27] @ '' are required'')"
    by (simp_all add: utf8_ascii ascii_def)
  have reg: "\<exists>fn d'. register_function api spec (pl_db s) = (Inr fn, d') \<and> json_response lib 201 (function_to_json lib fn) \<noteq> Throws"
    if "j_parse lib (rq_body req) = Some body" "read_spec lib idle body = Some spec" for body spec
  proof -
    have "j_at_string lib body ''name'' = Some (fs_name spec)" "j_at_string lib body ''image'' = Some (fs_image spec)"
      using that(2) by (auto simp: read_spec_def bind_eq_Some_conv)
    then have "utf8 (fs_name spec)" "utf8 (fs_image spec)" using assms(4) that(1) unfolding utf8_laws_def by blast+
    then have "text_doc lib (function_to_json lib \<lparr>fn_spec = stored spec, fn_status = FN_READY, fn_created_at = now\<rparr>)" for now
      by (intro text_function) (simp_all add: stored_def utf8_c_str)
    then show ?thesis using register_function_ok [OF assms(1-3) assms(5) [OF that]] answered [OF assms(4)] by blast
  qed
  show ?thesis
  proof (cases "j_parse lib (rq_body req)")
    case (Some body)
    show ?thesis
    proof (cases "read_spec lib idle body")
      case (Some spec)
      from reg [OF \<open>j_parse lib (rq_body req) = Some body\<close> Some] \<open>j_parse lib (rq_body req) = Some body\<close> Some show ?thesis
        using answered(2) [OF assms(4) msgs(2)] by (auto simp: deploy_handler_def)
    qed (use Some answered(2) [OF assms(4) msgs(2)] in \<open>auto simp: deploy_handler_def\<close>)
  qed (use answered(2) [OF assms(4) msgs(1)] in \<open>simp add: deploy_handler_def\<close>)
qed

section \<open>What can end the process\<close>

lemma match_one_param:
  assumes "match_route (make_route m pat h) segs = Some ps"
    and "pat \<in> {''/functions/{name}'', ''/functions/{name}/invoke'', ''/functions/{name}/runtime'', ''/invocations/{id}''}"
  shows "hd ps \<in> set segs"
proof -
  have "match_loop (split_path pat) segs [] = Some ps" "length segs = length (split_path pat)"
    using assms(1) by (auto simp: match_route_def make_route_def split: if_splits)
  moreover have "split_path ''/functions/{name}'' = [''functions'', ''{name}'']" "split_path ''/functions/{name}/invoke'' = [''functions'', ''{name}'', ''invoke'']"
    "split_path ''/functions/{name}/runtime'' = [''functions'', ''{name}'', ''runtime'']" "split_path ''/invocations/{id}'' = [''invocations'', ''{id}'']"
    by (simp_all add: split_path_def)
  ultimately show ?thesis
    using assms(2) by (auto simp: is_param_def length_Suc_conv split: if_splits)
qed

lemma handle_connection_fst:
  "receive_request r = Received req \<Longrightarrow> fst (handle_connection routes r s) = Crashed \<longleftrightarrow>
    fst (dispatch routes req (split_path (rq_path req)) False s) = Throws"
  "receive_request r = BadLength \<Longrightarrow> fst (handle_connection routes r s) = Crashed"
  "receive_request r = NoRequest \<Longrightarrow> fst (handle_connection routes r s) = Closed"
  "receive_request r = WaitsForever \<Longrightarrow> fst (handle_connection routes r s) = Stuck"
  by (auto simp: handle_connection_def split: prod.split outcome.split)

text \<open>
  C24: The only requests that end the control plane by an exception, when the database works and
  the texts that the answer can contain are UTF-8, are those with a \<^verbatim>\<open>Content-Length\<close> that is no number
  and the deploy requests with a field of the wrong type; every other connection is answered,
  closed or waits. Of the JSON library it is assumed that it writes documents whose strings are
  UTF-8, and that what it reads is UTF-8.
\<close>
theorem api_crashes_iff:
  assumes "upsert_law api ok tbl" "select_law api ok tbl" "delete_law api ok tbl"
    and "insert_invocation_law api iok room itbl" "select_invocation_law api iok itbl"
    and "keeps api kSelectOneSql (\<lambda>d. (iok d, room d))" "ok (pl_db s)" "iok (pl_db s)" "room (pl_db s)" "utf8_laws lib"
    and "\<And>req. receive_request r = Received req \<Longrightarrow> texts_utf8 api env be s req"
    and "\<And>req body spec. receive_request r = Received req \<Longrightarrow> j_parse lib (rq_body req) = Some body \<Longrightarrow>
        read_spec lib idle body = Some spec \<Longrightarrow> storable_real (fs_cpu spec)"
  shows "fst (handle_connection (api_routes lib api env be idle) r s) = Crashed \<longleftrightarrow>
    receive_request r = BadLength
    \<or> (\<exists>req body. receive_request r = Received req \<and> rq_method req = ''POST'' \<and> split_path (rq_path req) = [''functions'']
        \<and> j_parse lib (rq_body req) = Some body \<and> j_contains lib body ''name'' \<and> j_contains lib body ''image''
        \<and> read_spec lib idle body = None)"
proof -
  have "fst (dispatch (api_routes lib api env be idle) req (split_path (rq_path req)) False s) = Throws \<longleftrightarrow>
      rq_method req = ''POST'' \<and> split_path (rq_path req) = [''functions''] \<and> fst (deploy_handler lib api idle req [] s) = Throws"
    (is "?l req \<longleftrightarrow> ?r req") if rcv: "receive_request r = Received req" for req
  proof
    assume "?l req"
    from dispatch_throws [OF this] obtain route params where route: "route \<in> set (api_routes lib api env be idle)"
      "match_route route (split_path (rq_path req)) = Some params" "ro_method route = rq_method req"
      "fst (ro_handler route req params s) = Throws" by blast
    note texts = assms(11) [OF rcv]
    have seg: "utf8 (hd params)" if "route = make_route m pat h"
      "pat \<in> {''/functions/{name}'', ''/functions/{name}/invoke'', ''/functions/{name}/runtime'', ''/invocations/{id}''}" for m pat h
      using match_one_param [OF route(2) [unfolded that(1)] that(2)] texts_utf8D(1) [OF texts] by (simp add: list_all_iff)
    note never = lists_never_throw [OF assms(10) texts] lookups_never_throw [OF assms(2,7,10) texts]
      delete_never_throws [OF assms(3,7,10)] invocation_never_throws [OF assms(5,8,10) texts]
      invoke_never_throws [OF assms(2,7,4,6,8,9,10) texts]
    from route(1) consider "\<exists>m pat. route = make_route m pat (health_handler lib) \<or> route = make_route m pat (runtimes_handler lib env)
          \<or> route = make_route m pat (metrics_handler env)"
      | "route = make_route ''POST'' ''/functions'' (deploy_handler lib api idle)"
      | m pat h where "route = make_route m pat h"
        "pat \<in> {''/functions/{name}'', ''/functions/{name}/invoke'', ''/functions/{name}/runtime'', ''/invocations/{id}''}"
        "h \<in> {describe_handler lib api, delete_handler lib api be, invoke_handler lib api env be, runtime_handler lib api env, invocation_handler lib api}"
      unfolding api_routes_def by fastforce
    then have "route = make_route ''POST'' ''/functions'' (deploy_handler lib api idle)"
    proof cases
      case 1
      with route(4) never(1-3) show ?thesis by (auto simp: make_route_def)
    next
      case (3 m pat h)
      with route(4) have "fst (h req params s) = Throws" by (simp add: make_route_def)
      with 3(3) never(4-) seg [OF 3(1,2)] show ?thesis by auto
    qed
    with route(2,3) have "split_path (rq_path req) = [''functions'']" "rq_method req = ''POST''"
      by (simp_all add: match_functions) (simp add: make_route_def)
    with \<open>?l req\<close> show "?r req" by (simp add: dispatch_deploy)
  next
    assume "?r req"
    then show "?l req" by (simp add: dispatch_deploy)
  qed
  moreover have "fst (deploy_handler lib api idle req [] s) = Throws \<longleftrightarrow>
      (\<exists>body. j_parse lib (rq_body req) = Some body \<and> j_contains lib body ''name'' \<and> j_contains lib body ''image''
        \<and> read_spec lib idle body = None)" if "receive_request r = Received req" for req
    by (rule deploy_throws_iff [OF assms(1,2,7,10)]) (rule assms(12) [OF that])
  ultimately show ?thesis
    by (cases "receive_request r") (auto simp: handle_connection_fst)
qed

section \<open>An example\<close>

lemma strict_storable: "j_parse strict_lib b = Some body \<Longrightarrow> read_spec strict_lib 60000 body = Some spec \<Longrightarrow> storable_real (fs_cpu spec)"
  using demo_read_spec deployed_cpu by (auto simp: strict_lib_def mj_lib_def read_spec_def split: if_splits)

definition health_bytes :: "nat \<Rightarrow> recv_result" where
  "health_bytes i = (if i = 0 then Bytes (''GET /health HTTP/1.1'' @ CRLF2) else Bytes [])"

lemma health_received: "receive_request health_bytes
    = Received \<lparr>rq_method = ''GET'', rq_path = ''/health'', rq_headers = [], rq_body = []\<rparr>"
  by code_simp

lemma demo_plane_empty:
  "registry_get mem_api nm mem_empty \<noteq> (Inr (Some fn), d)" "store_get mem_api i mem_empty \<noteq> (Inr (Some rec), d)"
proof -
  show "registry_get mem_api nm mem_empty \<noteq> (Inr (Some fn), d)"
    using registry_get_ok [OF mem_select mem_empty_ok(1), of nm] by (auto simp: mem_empty_ok)
  show "store_get mem_api i mem_empty \<noteq> (Inr (Some rec), d)"
    using store_get_none [OF mem_select_invocation mem_empty_ok(2), of i] by (auto simp: mem_itbl_def mem_empty_def)
qed

lemma health_texts: "texts_utf8 mem_api demo_env be demo_plane \<lparr>rq_method = ''GET'', rq_path = ''/health'', rq_headers = [], rq_body = []\<rparr>"
proof -
  have "split_path ''/health'' = [''health'']" by code_simp
  then show ?thesis by (simp add: texts_utf8_def demo_plane_empty demo_warm_def demo_runtime_def)
qed

theorem api_crashes_iff_witness:
  "fst (handle_connection (api_routes strict_lib mem_api demo_env (make_runtime_backend None demo_env) 60000) health_bytes demo_plane) \<noteq> Crashed"
proof -
  have keep: "keeps mem_api kSelectOneSql (\<lambda>d. (mem_iok d, mem_room d))"
    using mem_functions_keep [of kSelectOneSql] by (simp add: keeps_def)
  have "mem_ok (pl_db demo_plane)" "mem_iok (pl_db demo_plane)" "mem_room (pl_db demo_plane)"
    using mem_empty_ok by (simp, simp_all add: mem_iok_def mem_room_def mem_empty_def)
  from api_crashes_iff [OF mem_upsert mem_select mem_delete mem_insert_invocation mem_select_invocation keep this
      strict_lib_laws _ strict_storable, where r = health_bytes and env = demo_env and be = "make_runtime_backend None demo_env"]
  show ?thesis using health_texts unfolding health_received by simp
qed

section \<open>A function can end the control plane\<close>

lemma bad_invoke_body:
  assumes "utf8_laws lib" "\<not> utf8 (ir_output r)" "NUL \<notin> set (ir_output r)"
  shows "parse_or_string lib (ir_output r) = j_string lib (ir_output r)" "json_response lib st (snd (invoke_body lib k r)) = Throws"
proof -
  have "c_str (ir_output r) = ir_output r" using assms(3) by (auto simp: c_str_def)
  then have "j_parse lib (ir_output r) = None"
    using assms(1,2) unfolding utf8_laws_def by (metis not_None_eq)
  then show p: "parse_or_string lib (ir_output r) = j_string lib (ir_output r)" by (simp add: parse_or_string_def)
  then show "json_response lib st (snd (invoke_body lib k r)) = Throws"
    by (auto simp: invoke_body_def intro!: bad_member [OF assms(1) _ _ assms(2)])
qed

text \<open>
  C37: A function whose answer is not UTF-8 ends the control plane that invokes it: the
  invocation runs and is recorded, but the answer cannot be serialised and the exception ends
  the process. The record stays: on the database that is left, every request for the
  invocation under the id it was recorded with ends the process again.
\<close>
theorem non_utf8_output_crashes:
  assumes "insert_invocation_law api iok room itbl" "select_invocation_law api iok itbl" "utf8_laws lib"
    and "receive_request rcv = Received req" "rq_method req = ''POST''" "split_path (rq_path req) = [''functions'', nm, ''invoke'']"
    and "registry_get api nm (pl_db s) = (Inr (Some fn), d1)" "iok d1" "room d1"
    and "input = (if rq_body req = [] then ''{}'' else rq_body req)"
    and "invoke env be (fn_spec fn) input (pl_mgr s) = Some (r, mg')" "\<not> utf8 (ir_output r)" "NUL \<notin> set (ir_output r)"
    and "store_record api nm input (ir_status r) (ir_output r) (word_of_int (ir_duration_ms r)) (ir_cold_start r) d1 = (Inr iid, d2)"
    and "receive_request rcv2 = Received req2" "rq_method req2 = ''GET''" "split_path (rq_path req2) = [''invocations'', iid]"
  shows "handle_connection (api_routes lib api env be idle) rcv s = (Crashed, s\<lparr>pl_db := d2, pl_mgr := mg'\<rparr>)
    \<and> fst (handle_connection (api_routes lib api env be idle) rcv2 \<lparr>pl_db = d2, pl_mgr = mg2\<rparr>) = Crashed"
proof
  have "invoke_handler lib api env be req [nm] s = (Throws, s\<lparr>pl_db := d2, pl_mgr := mg'\<rparr>)"
    using assms(7,10,11,14) bad_invoke_body(2) [OF assms(3,12,13)]
    by (cases "rq_body req = []") (simp_all add: invoke_handler_def Let_def case_prod_beta)
  then show "handle_connection (api_routes lib api env be idle) rcv s = (Crashed, s\<lparr>pl_db := d2, pl_mgr := mg'\<rparr>)"
    using assms(4-6) by (simp add: handle_connection_def dispatch_invoke)
  obtain i now where 1: "iid = show_int (sint i)" "iok d2"
    "itbl d2 = (itbl d1)(i \<mapsto> record_row nm input (ir_status r) (ir_output r) (word_of_int (ir_duration_ms r)) (ir_cold_start r) i now)"
    using store_record_ok [OF assms(1,8,9), of nm input "ir_status r" "ir_output r" "word_of_int (ir_duration_ms r)" "ir_cold_start r"] assms(14) by auto
  from store_get_ok [OF assms(2) 1(2), of i] 1(3) obtain d3 st where get:
    "store_get api (show_int (sint i)) d2 = (Inr (Some (row_to_record api st)), d3)"
    "on_row api st invocation_columns (record_row nm input (ir_status r) (ir_output r) (word_of_int (ir_duration_ms r)) (ir_cold_start r) i now)"
    by auto
  have "c_str (ir_output r) = ir_output r" using assms(13) by (auto simp: c_str_def)
  then have "parse_or_string lib (iv_output (row_to_record api st)) = j_string lib (ir_output r)"
    using bad_invoke_body(1) [OF assms(3,12,13)] row_to_record_ok [OF get(2)] by (simp add: stored_record_def)
  then have "fst (invocation_handler lib api req2 [iid] \<lparr>pl_db = d2, pl_mgr = mg2\<rparr>) = Throws"
    using get(1) 1(1) by (auto simp: invocation_handler_def intro!: bad_member [OF assms(3) _ _ assms(12)])
  then show "fst (handle_connection (api_routes lib api env be idle) rcv2 \<lparr>pl_db = d2, pl_mgr = mg2\<rparr>) = Crashed"
    using assms(15-17) by (simp add: handle_connection_fst dispatch_invocation)
qed

text \<open>An example: a function that answers with the byte 255.\<close>

definition binary_env :: env where
  "binary_env = demo_env\<lparr>e_peer := (\<lambda>_ _ _. demo_peer (''HTTP/1.1 200 OK'' @ CRLF2 @ [CHR 0xFF]))\<rparr>"

abbreviation (input) binary_be :: backend where
  "binary_be \<equiv> make_runtime_backend None binary_env"

definition one_line :: "string \<Rightarrow> nat \<Rightarrow> recv_result" where
  "one_line line i = (if i = 0 then Bytes (line @ '' HTTP/1.1'' @ CRLF2) else Bytes [])"

lemma binary_received:
  "receive_request (one_line ''POST /functions/hello/invoke'')
    = Received \<lparr>rq_method = ''POST'', rq_path = ''/functions/hello/invoke'', rq_headers = [], rq_body = []\<rparr>"
  "receive_request (one_line ''GET /invocations/1'')
    = Received \<lparr>rq_method = ''GET'', rq_path = ''/invocations/1'', rq_headers = [], rq_body = []\<rparr>"
  "split_path ''/functions/hello/invoke'' = [''functions'', ''hello'', ''invoke'']" "split_path ''/invocations/1'' = [''invocations'', ''1'']"
  by code_simp+

definition binary_outcome :: "(invocation_result \<times> (string + string)) option" where
  "binary_outcome = map_option (\<lambda>p. (fst p, fst (store_record mem_api ''hello'' ''{}'' (ir_status (fst p)) (ir_output (fst p))
      (word_of_int (ir_duration_ms (fst p))) (ir_cold_start (fst p)) disk_db)))
    (invoke binary_env binary_be (stored deployed_spec) ''{}'' demo_warm)"

lemma binary_result: "map_option (map_prod ir_output id) binary_outcome = Some ([CHR 0xFF], Inr ''1'')"
  by code_simp

theorem non_utf8_output_crashes_witness:
  "\<exists>d2 mg'. handle_connection (api_routes strict_lib mem_api binary_env binary_be 60000) (one_line ''POST /functions/hello/invoke'')
      \<lparr>pl_db = disk_db, pl_mgr = demo_warm\<rparr> = (Crashed, \<lparr>pl_db = d2, pl_mgr = mg'\<rparr>)
    \<and> fst (handle_connection (api_routes strict_lib mem_api binary_env binary_be 60000) (one_line ''GET /invocations/1'')
        \<lparr>pl_db = d2, pl_mgr = init_manager init_world\<rparr>) = Crashed"
proof -
  let ?s = "\<lparr>pl_db = disk_db, pl_mgr = demo_warm\<rparr>"
  let ?req = "\<lparr>rq_method = ''POST'', rq_path = ''/functions/hello/invoke'', rq_headers = [], rq_body = []\<rparr>"
  let ?req2 = "\<lparr>rq_method = ''GET'', rq_path = ''/invocations/1'', rq_headers = [], rq_body = []\<rparr>"
  obtain fn where fn: "registry_get mem_api ''hello'' (pl_db ?s) = (Inr (Some fn), disk_db)" "fn_spec fn = stored deployed_spec"
    using disk_found by auto
  obtain r mg' where inv: "invoke binary_env binary_be (fn_spec fn) ''{}'' (pl_mgr ?s) = Some (r, mg')" "ir_output r = [CHR 0xFF]"
    and rec: "fst (store_record mem_api ''hello'' ''{}'' (ir_status r) (ir_output r) (word_of_int (ir_duration_ms r)) (ir_cold_start r) disk_db) = Inr ''1''"
    using binary_result fn(2) by (auto simp: binary_outcome_def)
  obtain d2 where d2: "store_record mem_api ''hello'' ''{}'' (ir_status r) (ir_output r) (word_of_int (ir_duration_ms r)) (ir_cold_start r) disk_db
      = (Inr ''1'', d2)" using rec by (metis prod.collapse)
  have bad: "\<not> utf8 (ir_output r)" "NUL \<notin> set (ir_output r)" using inv(2) by (simp_all add: utf8_def utf8_lead_def)
  have input: "''{}'' = (if rq_body ?req = [] then ''{}'' else rq_body ?req)" by simp
  have paths: "rq_method ?req = ''POST''" "split_path (rq_path ?req) = [''functions'', ''hello'', ''invoke'']"
    "rq_method ?req2 = ''GET''" "split_path (rq_path ?req2) = [''invocations'', ''1'']" by (simp_all add: binary_received)
  from non_utf8_output_crashes [OF mem_insert_invocation mem_select_invocation strict_lib_laws binary_received(1) paths(1,2) fn(1) disk_room(2,3) input
      inv(1) bad d2 binary_received(2) paths(3,4)]
  show ?thesis by auto
qed

end
