(* ===== verification/Client_Server.thy ===== *)
theory Client_Server
  imports Cli Http_Properties Plane_Properties
begin

text \<open>
  The command-line client and the control plane at the two ends of a connection: what it
  means that the bytes of one reach the other, and the documented behaviour of the JSON
  library that the two rely on when one reads what the other wrote.
\<close>

text \<open>
  Bytes that reach the other side, in pieces of at most 4096 bytes; a stream that carries
  exactly these bytes and ends.
\<close>

definition arrives :: "(nat \<Rightarrow> recv_result) \<Rightarrow> string \<Rightarrow> bool" where
  "arrives r msg \<longleftrightarrow> (\<exists>bss. concat bss = msg \<and> list_all (\<lambda>b. b \<noteq> [] \<and> length b \<le> 4096) bss
     \<and> (\<forall>j < length bss. r j = Bytes (bss ! j)))"

definition delivers :: "(nat \<Rightarrow> recv_result) \<Rightarrow> string \<Rightarrow> bool" where
  "delivers r msg \<longleftrightarrow> (\<exists>bss. concat bss = msg \<and> list_all (\<lambda>b. b \<noteq> [] \<and> length b \<le> 4096) bss
     \<and> (\<forall>j < length bss. r j = Bytes (bss ! j)) \<and> r (length bss) = Bytes [])"

definition reachable_peer :: "peer \<Rightarrow> string \<Rightarrow> bool" where
  "reachable_peer p msg \<longleftrightarrow> p_socket p \<and> (p_pton p \<or> p_resolve p) \<and> p_connect p \<and> p_send p msg"

text \<open>
  Documented behaviour of the JSON library on the objects it builds, and a document it can
  write and read back.
\<close>

definition object_laws :: "'j json_lib \<Rightarrow> bool" where
  "object_laws lib \<longleftrightarrow>
     (\<forall>fs k v d. distinct (map fst fs) \<and> map_of fs k = Some (j_string lib v) \<longrightarrow> j_value_string lib (j_object lib fs) k d = Some v)
   \<and> (\<forall>fs k n d. distinct (map fst fs) \<and> map_of fs k = Some (j_int lib n) \<longrightarrow> j_value_int lib (j_object lib fs) k d = Some (word_of_int n))
   \<and> (\<forall>fs k b d. distinct (map fst fs) \<and> map_of fs k = Some (j_bool lib b) \<longrightarrow> j_value_bool lib (j_object lib fs) k d = Some b)
   \<and> (\<forall>fs k v. distinct (map fst fs) \<and> map_of fs k = Some v \<longrightarrow> j_index lib (j_object lib fs) k = v)
   \<and> (\<forall>fs k. j_contains lib (j_object lib fs) k \<longleftrightarrow> k \<in> set (map fst fs))"

definition readable :: "'j json_lib \<Rightarrow> 'j \<Rightarrow> bool" where
  "readable lib j = (case j_dump lib j of None \<Rightarrow> False | Some b \<Rightarrow> j_parse lib b = Some j)"

lemma object_law:
  assumes "object_laws lib" "distinct (map fst fs)"
  shows "map_of fs k = Some (j_string lib v) \<Longrightarrow> j_value_string lib (j_object lib fs) k d = Some v"
    and "map_of fs k = Some (j_int lib n) \<Longrightarrow> j_value_int lib (j_object lib fs) k i = Some (word_of_int n)"
    and "map_of fs k = Some (j_bool lib b) \<Longrightarrow> j_value_bool lib (j_object lib fs) k e = Some b"
    and "map_of fs k = Some x \<Longrightarrow> j_index lib (j_object lib fs) k = x"
    and "j_contains lib (j_object lib fs) k \<longleftrightarrow> k \<in> set (map fst fs)"
  using assms unfolding object_laws_def by blast+

lemma request_delivered:
  assumes "p = e_peer env (hist w) host (port mod 65536)" "reachable_peer p (request_bytes host m path body ct)"
    and "delivers (p_recv p (request_bytes host m path body ct)) out"
  shows "\<exists>w'. request env host port m path body ct t w = Some (parse_response out, w')"
proof -
  obtain bss where bss: "concat bss = out" "list_all (\<lambda>b. b \<noteq> [] \<and> length b \<le> 4096) bss"
    "\<forall>j < length bss. p_recv p (request_bytes host m path body ct) j = Bytes (bss ! j)"
    "p_recv p (request_bytes host m path body ct) (length bss) = Bytes []"
    using assms(3) unfolding delivers_def by blast
  have "recv_all (p_recv p (request_bytes host m path body ct)) b 0 [] = Some (out, False)" for b
    using recv_all_stream [of bss "p_recv p (request_bytes host m path body ct)" b] bss by (simp add: stops_def list_all_iff)
  then show ?thesis using assms(1,2) by (auto simp: request_def Let_def reachable_peer_def)
qed

lemma request_arrives:
  assumes "plain_word method" "plain_word path" "plain_value host" "plain_value ct"
    and "arrives r (request_bytes host method path body ct)"
    and "head_length host method path body ct + 4100 \<le> 2 ^ 20" "length body < 2 ^ 64"
  shows "receive_request r = Received \<lparr>rq_method = method, rq_path = path, rq_headers = request_map host body ct, rq_body = body\<rparr>"
proof -
  obtain bss where "concat bss = request_bytes host method path body ct"
    "list_all (\<lambda>b. b \<noteq> [] \<and> length b \<le> 4096) bss" "\<And>j. j < length bss \<Longrightarrow> r j = Bytes (bss ! j)"
    using assms(5) unfolding arrives_def by blast
  from request_received [OF assms(1-4) this assms(6,7)] show ?thesis .
qed

lemma whole_arrives: "msg \<noteq> [] \<Longrightarrow> length msg \<le> 4096 \<Longrightarrow> arrives (whole msg) msg"
  unfolding arrives_def by (rule exI [of _ "[msg]"]) (simp add: whole_def)

section \<open>A call of the API\<close>

text \<open>
  The peer of the client's connection is the control plane: the client's bytes arrive there,
  and what it answers arrives back.
\<close>

definition wired :: "peer \<Rightarrow> (nat \<Rightarrow> recv_result) \<Rightarrow> string \<Rightarrow> conn_result \<Rightarrow> bool" where
  "wired p r msg res \<longleftrightarrow> reachable_peer p msg \<and> arrives r msg
     \<and> (case res of Answered out \<Rightarrow> delivers (p_recv p msg) out | _ \<Rightarrow> True)"

lemma api_call:
  assumes "wired (e_peer cenv (hist w) host (port mod 65536)) r (request_bytes host m path body ct) (fst (handle_connection routes r s))"
    and "plain_word m" "plain_word path" "plain_value host" "plain_value ct" "length body < 2 ^ 64"
    and "head_length host m path body ct + 4100 \<le> 2 ^ 20"
    and "dispatch routes \<lparr>rq_method = m, rq_path = path, rq_headers = request_map host body ct, rq_body = body\<rparr> (split_path path) False s
          = (Returns resp, s')"
    and "0 \<le> rp_status resp" "rp_status resp < 2 ^ 31" "om_ok (rp_headers resp)" "list_all plain_header (rp_headers resp)"
  shows "\<exists>w'. request cenv host port m path body ct t w
      = Some (default_response\<lparr>cr_status := rp_status resp, cr_headers := rp_headers (finish_headers resp), cr_body := rp_body resp, cr_ok := True\<rparr>, w')"
    and "snd (handle_connection routes r s) = s'"
proof -
  have "receive_request r = Received \<lparr>rq_method = m, rq_path = path, rq_headers = request_map host body ct, rq_body = body\<rparr>"
    using assms(1-7) by (intro request_arrives) (simp_all add: wired_def)
  then have conn: "handle_connection routes r s = (Answered (response_bytes (finish_headers resp)), s')"
    using assms(8) by (simp add: handle_connection_def)
  then show "snd (handle_connection routes r s) = s'" by simp
  have "parse_response (response_bytes (finish_headers resp)) = default_response\<lparr>cr_status := rp_status resp,
      cr_headers := rp_headers (finish_headers resp), cr_body := rp_body resp, cr_ok := True\<rparr>"
    using response_parsed [of "finish_headers resp"] finish_headers_plain [OF assms(11,12)] assms(9,10) by (simp add: finish_headers_def)
  with request_delivered [OF refl, of cenv w host port m path body ct "response_bytes (finish_headers resp)" t] assms(1) conn
  show "\<exists>w'. request cenv host port m path body ct t w
      = Some (default_response\<lparr>cr_status := rp_status resp, cr_headers := rp_headers (finish_headers resp), cr_body := rp_body resp, cr_ok := True\<rparr>, w')"
    by (auto simp: wired_def)
qed

text \<open>
  C22: A request and its answer survive the trip, whatever pieces the network cuts either of them
  into: the client reads back the status, the headers and the body of the response that the
  server's handler returned for exactly the method, path, headers and body the client sent.
\<close>
theorem exchange_roundtrip:
  assumes "conn = handle_connection routes r s"
    and "wired (e_peer cenv (hist w) host (port mod 65536)) r (request_bytes host m path body ct) (fst conn)"
    and "plain_word m" "plain_word path" "plain_value host" "plain_value ct" "length body < 2 ^ 64"
    and "head_length host m path body ct + 4100 \<le> 2 ^ 20"
    and "dispatch routes \<lparr>rq_method = m, rq_path = path, rq_headers = request_map host body ct, rq_body = body\<rparr> (split_path path) False s
          = (Returns resp, s')"
    and "0 \<le> rp_status resp" "rp_status resp < 2 ^ 31" "om_ok (rp_headers resp)" "list_all plain_header (rp_headers resp)"
  shows "\<exists>w'. request cenv host port m path body ct t w
      = Some (default_response\<lparr>cr_status := rp_status resp, cr_headers := rp_headers (finish_headers resp), cr_body := rp_body resp, cr_ok := True\<rparr>, w')
    \<and> snd conn = s'"
proof -
  note call = api_call [OF assms(2) [unfolded assms(1)] assms(3-13)]
  from call(1) [of t] obtain w' where "request cenv host port m path body ct t w
      = Some (default_response\<lparr>cr_status := rp_status resp, cr_headers := rp_headers (finish_headers resp), cr_body := rp_body resp, cr_ok := True\<rparr>, w')" by blast
  with call(2) assms(1) show ?thesis by simp
qed

text \<open>The call of both commands that send a body: a POST with a JSON document, answered by one.\<close>

lemma json_call:
  assumes "wired (e_peer cenv (hist w) host (port mod 65536)) r (request_bytes host ''POST'' path body ''application/json'')
      (fst (handle_connection routes r s))"
    and "plain_word path" "plain_value host" "length body < 2 ^ 64"
    and "head_length host ''POST'' path body ''application/json'' + 4100 \<le> 2 ^ 20"
    and "dispatch routes \<lparr>rq_method = ''POST'', rq_path = path, rq_headers = request_map host body ''application/json'', rq_body = body\<rparr>
          (split_path path) False s = (Returns (response_json st doc), s')"
    and "0 \<le> st" "st < 2 ^ 31"
  shows "\<exists>w' hs. request cenv host port ''POST'' path body ''application/json'' t w
      = Some (default_response\<lparr>cr_status := st, cr_headers := hs, cr_body := doc, cr_ok := True\<rparr>, w')"
    and "snd (handle_connection routes r s) = s'"
proof -
  have plain: "plain_word ''POST''" "plain_value ''application/json''" by (simp_all add: plain_word_def plain_value_def is_space_def)
  have st: "rp_status (response_json st doc) = st" "rp_body (response_json st doc) = doc" by (simp_all add: response_json_def)
  note call = api_call [OF assms(1) plain(1) assms(2,3) plain(2) assms(4-6) _ _ response_json_plain [THEN conjunct1] response_json_plain [THEN conjunct2],
      unfolded st, OF assms(7,8)]
  show "\<exists>w' hs. request cenv host port ''POST'' path body ''application/json'' t w
      = Some (default_response\<lparr>cr_status := st, cr_headers := hs, cr_body := doc, cr_ok := True\<rparr>, w')" using call(1) by blast
  show "snd (handle_connection routes r s) = s'" by (rule call(2))
qed

section \<open>An example of such a connection\<close>

text \<open>The answer comes back byte by byte.\<close>

definition byte_peer :: "string \<Rightarrow> peer" where
  "byte_peer out = (demo_peer out)\<lparr>p_recv := (\<lambda>_ n. if n < length out then Bytes [out ! n] else Bytes [])\<rparr>"

lemma byte_peer_delivers: "delivers (p_recv (byte_peer out) msg) out"
  unfolding delivers_def byte_peer_def by (rule exI [of _ "map (\<lambda>c. [c]) out"]) (simp add: list_all_iff)

definition wire_to :: "conn_result \<Rightarrow> env" where
  "wire_to res = demo_env\<lparr>e_peer := (\<lambda>_ _ _. byte_peer (case res of Answered out \<Rightarrow> out | _ \<Rightarrow> []))\<rparr>"

lemma wire_to_wired: "msg \<noteq> [] \<Longrightarrow> length msg \<le> 4096 \<Longrightarrow> wired (e_peer (wire_to res) h host port) (whole msg) msg res"
  using byte_peer_delivers
  by (simp add: wired_def wire_to_def whole_arrives split: conn_result.splits) (simp add: reachable_peer_def byte_peer_def demo_peer_def)

lemma local_client: "make_client None = Inr (''127.0.0.1'', 8080)"
  by code_simp

lemma hello_names: "plain_value ''127.0.0.1''" "plain_segment ''hello''" "plain_word ''hello''" "\<not> prefix ''--'' ''hello''"
  by (simp_all add: plain_value_def plain_segment_def plain_word_def is_space_def)

lemma mj_object_laws: "object_laws (mj_lib\<lparr>j_parse := p\<rparr>)"
  unfolding object_laws_def mj_lib_def
  by (auto simp: mj_field_def dest: weak_map_of_SomeI) (force dest: map_of_SomeD)

text \<open>An exchange, with the answer read byte by byte.\<close>

definition exchange_msg :: string where
  "exchange_msg = request_bytes ''127.0.0.1'' ''POST'' ''/functions/f/invoke'' ''data'' ''application/json''"

definition exchange_conn :: "conn_result \<times> unit" where
  "exchange_conn = handle_connection demo_routes (whole exchange_msg) ()"

theorem exchange_roundtrip_witness:
  "\<exists>resp w'. request (wire_to (fst exchange_conn)) ''127.0.0.1'' 8080 ''POST'' ''/functions/f/invoke'' ''data'' ''application/json'' 0 init_world = Some (resp, w')
    \<and> cr_ok resp \<and> cr_status resp = 201 \<and> cr_body resp = ''data''"
proof -
  have d: "dispatch demo_routes \<lparr>rq_method = ''POST'', rq_path = ''/functions/f/invoke'',
      rq_headers = request_map ''127.0.0.1'' ''data'' ''application/json'', rq_body = ''data''\<rparr>
      (split_path ''/functions/f/invoke'') False () = (Returns (response_json 201 ''data''), ())"
    by (simp add: demo_routes_def make_route_def split_path_def match_route_def is_param_def)
  have st: "rp_status (response_json 201 ''data'') = 201" "rp_body (response_json 201 ''data'') = ''data''"
    by (simp_all add: response_json_def)
  have "length exchange_msg \<le> 4096" "exchange_msg \<noteq> []"
    using demo_request_short by (auto simp: exchange_msg_def request_bytes_def Let_def)
  then have wired: "wired (e_peer (wire_to res) h host port) (whole exchange_msg)
      (request_bytes ''127.0.0.1'' ''POST'' ''/functions/f/invoke'' ''data'' ''application/json'') res" for res h host port
    using wire_to_wired by (simp add: exchange_msg_def)
  have hl: "head_length ''127.0.0.1'' ''POST'' ''/functions/f/invoke'' ''data'' ''application/json'' + 4100 \<le> 2 ^ 20"
    using demo_request_short by simp
  from exchange_roundtrip [OF exchange_conn_def wired demo_words _ hl d _ _
      response_json_plain [THEN conjunct1] response_json_plain [THEN conjunct2], where w = init_world and t = 0 and port = 8080] st
  show ?thesis by auto
qed

end
