(* ===== verification/Connection_Properties.thy ===== *)
theory Connection_Properties
  imports Client_Server Crash_Properties
begin

text \<open>
  What the network can do to the control plane: which functions no request can reach, what a
  connection that breaks in the middle of a request brings about, how long a slow answer may
  take, and on which port the control plane listens.
\<close>

section \<open>Names that no request can mention\<close>

definition unaddressable :: "string \<Rightarrow> bool" where
  "unaddressable nm \<longleftrightarrow> (\<exists>c \<in> set nm. c = CHR ''/'' \<or> c = CHR ''?'' \<or> is_space c)"

lemma split_loop_chars:
  assumes "\<forall>p \<in> set segments. set p \<subseteq> A - {CHR ''/'', CHR ''?''}" "set current \<subseteq> A - {CHR ''/'', CHR ''?''}" "set path \<subseteq> A"
    and "p \<in> set (split_loop path current segments)"
  shows "set p \<subseteq> A - {CHR ''/'', CHR ''?''}"
  using assms
proof (induction path current segments rule: split_loop.induct)
  case (1 current segments)
  then show ?case by (auto split: if_splits)
next
  case (2 c path current segments)
  then show ?case by (auto split: if_splits)
qed

lemma split_path_chars: "p \<in> set (split_path path) \<Longrightarrow> set p \<subseteq> set path - {CHR ''/'', CHR ''?''}"
  unfolding split_path_def by (rule split_loop_chars [where current = "[]" and segments = "[]" and path = path]) simp_all

lemma parse_head_path: "c \<in> set (rq_path (parse_head block)) \<Longrightarrow> \<not> is_space c"
  by (auto simp: parse_head_def read_word_def Let_def dest: set_takeWhileD)

lemma received_path: "receive_request r = Received req \<Longrightarrow> c \<in> set (rq_path req) \<Longrightarrow> \<not> is_space c"
  by (auto simp: receive_request_def Let_def parse_head_path split: option.splits sum.splits prod.splits)

lemma received_segment:
  assumes "receive_request r = Received req" "p \<in> set (split_path (rq_path req))" "unaddressable k"
  shows "c_str p \<noteq> k"
proof
  assume "c_str p = k"
  then obtain c where c: "c \<in> set p" "c = CHR ''/'' \<or> c = CHR ''?'' \<or> is_space c"
    using assms(3) by (auto simp: unaddressable_def c_str_def dest: set_takeWhileD)
  then show False using split_path_chars [OF assms(2)] received_path [OF assms(1)] by auto
qed

text \<open>An upsert removes no row, whatever is bound.\<close>

definition upsert_keeps_rows :: "('d, 'st) sqlite3 \<Rightarrow> ('d \<Rightarrow> bool) \<Rightarrow> ('d \<Rightarrow> string \<Rightarrow> sql_row option) \<Rightarrow> bool" where
  "upsert_keeps_rows api ok tbl \<longleftrightarrow>
     (\<forall>d st0 bs d'. ok d \<and> sq_prepare api d kUpsertSql = Inr st0 \<and> fst (snd (sq_step api d (bind_all api bs st0))) = d' \<longrightarrow>
        ok d' \<and> (\<forall>k. tbl d k \<noteq> None \<longrightarrow> tbl d' k \<noteq> None))"

definition row_laws :: "('d, 'st) sqlite3 \<Rightarrow> ('d \<Rightarrow> bool) \<Rightarrow> ('d \<Rightarrow> string \<Rightarrow> sql_row option) \<Rightarrow> bool" where
  "row_laws api ok tbl \<longleftrightarrow> upsert_keeps_rows api ok tbl \<and> select_law api ok tbl \<and> delete_law api ok tbl
     \<and> (\<forall>sql \<in> {kInsertInvocationSql, kSelectInvocationSql}. keeps api sql (\<lambda>d. (ok d, tbl d)))"

text \<open>The row of \<open>k\<close> is there, in a database that works.\<close>

definition has_row :: "('d \<Rightarrow> bool) \<Rightarrow> ('d \<Rightarrow> string \<Rightarrow> sql_row option) \<Rightarrow> string \<Rightarrow> 'd \<Rightarrow> bool" where
  "has_row ok tbl k d \<longleftrightarrow> ok d \<and> tbl d k \<noteq> None"

lemma row_get: "row_laws api ok tbl \<Longrightarrow> has_row ok tbl k d \<Longrightarrow> registry_get api nm d = (x, d') \<Longrightarrow> has_row ok tbl k d'"
  using registry_get_ok [of api ok tbl d nm] by (auto simp: row_laws_def has_row_def split: option.splits)

lemma row_remove:
  "row_laws api ok tbl \<Longrightarrow> has_row ok tbl k d \<Longrightarrow> c_str nm \<noteq> k \<Longrightarrow> registry_remove api nm d = (x, d') \<Longrightarrow> has_row ok tbl k d'"
  using registry_remove_ok [of api ok tbl d nm] by (auto simp: row_laws_def has_row_def)

lemma row_record: "row_laws api ok tbl \<Longrightarrow> has_row ok tbl k d \<Longrightarrow>
    store_record api nm inp st out dur cold d = (x, d') \<Longrightarrow> has_row ok tbl k d'"
  using store_record_keeps [of api "\<lambda>d. (ok d, tbl d)"] by (fastforce simp: row_laws_def has_row_def)

lemma row_fetch: "row_laws api ok tbl \<Longrightarrow> has_row ok tbl k d \<Longrightarrow> store_get api i d = (x, d') \<Longrightarrow> has_row ok tbl k d'"
  using store_get_keeps [of api "\<lambda>d. (ok d, tbl d)"] by (fastforce simp: row_laws_def has_row_def)

lemma row_insert:
  assumes "row_laws api ok tbl" "has_row ok tbl k d" "register_insert api spec d = (x, d')"
  shows "has_row ok tbl k d'"
proof (cases "stmt_new api kUpsertSql d")
  case (Inl e)
  with assms(2,3) show ?thesis by (simp add: register_insert_def)
next
  case (Inr st0)
  then have p: "sq_prepare api d kUpsertSql = Inr st0" by (auto simp: stmt_new_def sql_no_nul split: sum.splits)
  obtain rc bs st' where "sq_step api d (bind_all api bs st0) = (rc, d', st')"
    using assms(3) Inr unfolding register_insert_def binds_all Let_def
    by (auto simp: stmt_step_def split: sum.splits prod.splits step_rc.splits)
  then have "fst (snd (sq_step api d (bind_all api bs st0))) = d'" by simp
  with p assms(1,2) show ?thesis unfolding row_laws_def upsert_keeps_rows_def has_row_def by blast
qed

lemma row_register:
  "row_laws api ok tbl \<Longrightarrow> has_row ok tbl k d \<Longrightarrow> register_function api spec d = (x, d') \<Longrightarrow> has_row ok tbl k d'"
  by (auto simp: register_function_def register_return_def split: prod.splits sum.splits option.splits
      dest: row_insert row_get)

text \<open>What the handlers do to the row of a name that none of their parameters stands for.\<close>

lemma row_handlers:
  assumes "row_laws api ok tbl" "has_row ok tbl k (pl_db s)"
  shows "deploy_handler lib api idle req ps s = (x, s') \<Longrightarrow> has_row ok tbl k (pl_db s')"
    and "describe_handler lib api req ps s = (x, s') \<Longrightarrow> has_row ok tbl k (pl_db s')"
    and "c_str (hd ps) \<noteq> k \<Longrightarrow> delete_handler lib api be req ps s = (x, s') \<Longrightarrow> has_row ok tbl k (pl_db s')"
    and "invoke_handler lib api env be req ps s = (x, s') \<Longrightarrow> has_row ok tbl k (pl_db s')"
    and "runtime_handler lib api env req ps s = (x, s') \<Longrightarrow> has_row ok tbl k (pl_db s')"
    and "invocation_handler lib api req ps s = (x, s') \<Longrightarrow> has_row ok tbl k (pl_db s')"
    and "health_handler lib req ps s = (x, s') \<Longrightarrow> has_row ok tbl k (pl_db s')"
    and "runtimes_handler lib env req ps s = (x, s') \<Longrightarrow> has_row ok tbl k (pl_db s')"
    and "metrics_handler env req ps s = (x, s') \<Longrightarrow> has_row ok tbl k (pl_db s')"
proof -
  note get = row_get [OF assms] and fetch = row_fetch [OF assms] and register = row_register [OF assms] and remove = row_remove [OF assms]
  show "deploy_handler lib api idle req ps s = (x, s') \<Longrightarrow> has_row ok tbl k (pl_db s')"
    using assms(2) by (auto simp: deploy_handler_def split: option.splits if_splits prod.splits sum.splits dest: register)
  show "describe_handler lib api req ps s = (x, s') \<Longrightarrow> has_row ok tbl k (pl_db s')"
    by (auto simp: describe_handler_def split: option.splits prod.splits sum.splits dest: get)
  show "c_str (hd ps) \<noteq> k \<Longrightarrow> delete_handler lib api be req ps s = (x, s') \<Longrightarrow> has_row ok tbl k (pl_db s')"
    by (auto simp: delete_handler_def split: if_splits prod.splits sum.splits dest: remove)
  show "runtime_handler lib api env req ps s = (x, s') \<Longrightarrow> has_row ok tbl k (pl_db s')"
    by (auto simp: runtime_handler_def split: option.splits prod.splits sum.splits dest: get)
  show "invocation_handler lib api req ps s = (x, s') \<Longrightarrow> has_row ok tbl k (pl_db s')"
    by (auto simp: invocation_handler_def split: option.splits prod.splits sum.splits dest: fetch)
  assume h: "invoke_handler lib api env be req ps s = (x, s')"
  obtain y d1 where g: "registry_get api (hd ps) (pl_db s) = (y, d1)" by fastforce
  note d1 = get [OF g]
  show "has_row ok tbl k (pl_db s')"
    using h d1 g by (auto simp: invoke_handler_def Let_def split: option.splits prod.splits sum.splits dest: row_record [OF assms(1) d1])
qed (use assms(2) in \<open>auto simp: health_handler_def runtimes_handler_def metrics_handler_def Let_def split: prod.splits\<close>)

lemma dispatch_cases:
  "dispatch routes req segs b s = (x, s') \<Longrightarrow> s' = s \<or> (\<exists>route \<in> set routes. \<exists>ps. match_route route segs = Some ps
    \<and> ro_method route = rq_method req \<and> ro_handler route req ps s = (x, s'))"
  by (induction routes arbitrary: b) (auto split: option.splits if_splits)

lemma row_connection:
  assumes "row_laws api ok tbl" "has_row ok tbl k (pl_db s)" "unaddressable k"
  shows "has_row ok tbl k (pl_db (snd (handle_connection (api_routes lib api env be idle) r s)))"
proof (cases "receive_request r")
  case (Received req)
  obtain x s' where d: "dispatch (api_routes lib api env be idle) req (split_path (rq_path req)) False s = (x, s')" by fastforce
  have seg: "c_str p \<noteq> k" if "p \<in> set (split_path (rq_path req))" for p
    using received_segment [OF Received that assms(3)] .
  note h = row_handlers [OF assms(1,2)]
  have "has_row ok tbl k (pl_db s')"
    using dispatch_cases [OF d]
  proof
    assume "\<exists>route \<in> set (api_routes lib api env be idle). \<exists>ps. match_route route (split_path (rq_path req)) = Some ps
      \<and> ro_method route = rq_method req \<and> ro_handler route req ps s = (x, s')"
    then obtain route ps where route: "route \<in> set (api_routes lib api env be idle)"
      "match_route route (split_path (rq_path req)) = Some ps" "ro_handler route req ps s = (x, s')" by blast
    show ?thesis
    proof (cases "route = make_route ''DELETE'' ''/functions/{name}'' (delete_handler lib api be)")
      case True
      then have "c_str (hd ps) \<noteq> k" using match_one_param [OF route(2) [unfolded True]] seg by simp
      then show ?thesis using h(3) route(3) True by (simp add: make_route_def)
    next
      case False
      with route(1,3) show ?thesis unfolding api_routes_def by (auto simp: make_route_def intro: h)
    qed
  qed (use assms(2) in simp)
  moreover have "snd (handle_connection (api_routes lib api env be idle) r s) = s'"
    using Received d by (cases x) (simp_all add: handle_connection_def)
  ultimately show ?thesis by simp
qed (use assms(2) in \<open>simp_all add: handle_connection_def\<close>)

text \<open>
  C39: A function whose name has a slash, a question mark or white space in it can be deployed,
  but never described, invoked or deleted: no path that the server reads has such a name as
  one of its segments (there is no percent-decoding), and whatever connections are served,
  the function is still registered afterwards.
\<close>
theorem unaddressable_function_stays:
  assumes "row_laws api ok tbl" "ok (pl_db s)" "tbl (pl_db s) k \<noteq> None" "unaddressable k"
  shows "tbl (pl_db (fold (\<lambda>r s. snd (handle_connection (api_routes lib api env be idle) r s)) rs s)) k \<noteq> None
    \<and> (\<forall>r req p. receive_request r = Received req \<and> p \<in> set (split_path (rq_path req)) \<longrightarrow> c_str p \<noteq> k)"
proof -
  have "has_row ok tbl k (pl_db s) \<Longrightarrow>
    has_row ok tbl k (pl_db (fold (\<lambda>r s. snd (handle_connection (api_routes lib api env be idle) r s)) rs s))"
    by (induction rs arbitrary: s) (simp_all add: row_connection [OF assms(1) _ assms(4)])
  with assms(2-4) received_segment show ?thesis by (auto simp: has_row_def)
qed

lemma mem_upsert_keeps: "upsert_keeps_rows mem_api mem_ok mem_tbl"
  unfolding upsert_keeps_rows_def
  by (auto simp: mem_prepare mem_bind_all mem_api_step mem_step_def Let_def mem_ok_def mem_tbl_def map_of_filter_key
      list_all_iff distinct_map_filter function_columns_def)

lemma mem_row_laws: "row_laws mem_api mem_ok mem_tbl"
  using mem_upsert_keeps mem_select mem_delete mem_invocations_keep by (simp add: row_laws_def)

definition slash_db :: mem_db where
  "slash_db = snd (register_insert mem_api (deployed_spec\<lparr>fs_name := ''a/b''\<rparr>) mem_empty)"

definition slash_delete :: string where
  "slash_delete = ''DELETE /functions/a/b HTTP/1.1'' @ CRLF @ CRLF"

theorem unaddressable_function_stays_witness:
  "mem_tbl (pl_db (snd (handle_connection (api_routes mj_lib mem_api demo_env demo_be 60000) (whole slash_delete)
     \<lparr>pl_db = slash_db, pl_mgr = demo_warm\<rparr>))) ''a/b'' \<noteq> None"
proof -
  obtain d now where ins: "register_insert mem_api (deployed_spec\<lparr>fs_name := ''a/b''\<rparr>) mem_empty = (Inr (), d)" "mem_ok d"
    "mem_tbl d = (mem_tbl mem_empty)(c_str ''a/b'' \<mapsto> spec_row (deployed_spec\<lparr>fs_name := ''a/b''\<rparr>) now)"
    using register_insert_ok [OF mem_upsert mem_empty_ok(1), of "deployed_spec\<lparr>fs_name := ''a/b''\<rparr>"] deployed_cpu by auto
  have "mem_ok slash_db" "mem_tbl slash_db ''a/b'' \<noteq> None" using ins by (simp_all add: slash_db_def c_str_def)
  moreover have "unaddressable ''a/b''" by (simp add: unaddressable_def)
  ultimately show ?thesis
    using unaddressable_function_stays [OF mem_row_laws, of "\<lparr>pl_db = slash_db, pl_mgr = demo_warm\<rparr>" "''a/b''"
        mj_lib demo_env demo_be 60000 "[whole slash_delete]"] by simp
qed

section \<open>A connection that breaks\<close>

text \<open>The bytes that arrive before the connection is reset.\<close>

definition resets :: "(nat \<Rightarrow> recv_result) \<Rightarrow> string \<Rightarrow> bool" where
  "resets r msg \<longleftrightarrow> (\<exists>bss. concat bss = msg \<and> list_all (\<lambda>b. b \<noteq> [] \<and> length b \<le> 4096) bss
     \<and> (\<forall>j < length bss. r j = Bytes (bss ! j)) \<and> r (length bss) = RecvError)"

lemma read_body_cut:
  assumes "\<And>j. j < length bss \<Longrightarrow> r (i + j) = Bytes (bss ! j)" "list_all (\<lambda>b. b \<noteq> []) bss" "r (i + length bss) = RecvError"
    and "length (body @ concat bss) < n"
  shows "read_body r i n body = Some (body @ concat bss)"
  using assms
proof (induction bss arbitrary: i body)
  case Nil
  then show ?case by (subst read_body.simps) simp
next
  case (Cons b bss)
  have "r i = Bytes b" "length body < n" using Cons.prems(1) [of 0] Cons.prems(4) by simp_all
  with Cons.prems(2) have "read_body r i n body = read_body r (Suc i) n (body @ b)" by (subst read_body.simps) simp
  moreover have "r (Suc i + j) = Bytes (bss ! j)" if "j < length bss" for j using Cons.prems(1) [of "Suc j"] that by simp
  ultimately show ?case using Cons.IH [of "Suc i" "body @ b"] Cons.prems(2-4) by simp
qed

lemma receive_request_cut:
  assumes "resets r msg" "find_sub CRLF2 msg = Some pos" "pos + 4100 \<le> 2 ^ 20"
    and "content_length_of (parse_head (take pos msg)) = Inr n" "length msg < pos + 4 + n"
  shows "receive_request r = Received ((parse_head (take pos msg))\<lparr>rq_body := drop (pos + 4) msg\<rparr>)"
proof -
  obtain bss where bss: "concat bss = msg" "list_all (\<lambda>b. b \<noteq> [] \<and> length b \<le> 4096) bss"
    "\<And>j. j < length bss \<Longrightarrow> r j = Bytes (bss ! j)" "r (length bss) = RecvError"
    using assms(1) unfolding resets_def by blast
  obtain k leftover where k: "k \<le> length bss" "read_headers r 0 [] = Some (Some (take pos msg, leftover, k))"
    "leftover @ concat (drop k bss) = drop (pos + 4) msg"
    using read_headers_chunks [of bss r 0 "[]" pos] bss assms(2,3) by auto
  have "read_body r k n leftover = Some (leftover @ concat (drop k bss))"
  proof (rule read_body_cut)
    show "r (k + j) = Bytes (drop k bss ! j)" if "j < length (drop k bss)" for j using bss(3) [of "k + j"] that by simp
    show "list_all (\<lambda>b. b \<noteq> []) (drop k bss)" using bss(2) by (auto simp: list_all_iff dest: in_set_dropD)
    have "pos + 4 \<le> length msg" using assms(2) prefix_length_le [of CRLF2 "drop pos msg"] by (auto simp: find_sub_iff)
    with assms(5) show "length (leftover @ concat (drop k bss)) < n" unfolding k(3) by simp
  qed (use k(1) bss(4) in simp)
  with k(2,3) assms(4,5) show ?thesis by (simp add: receive_request_def content_length_of_def Let_def)
qed

text \<open>
  What POSIX says of a connection that \<^verbatim>\<open>recv\<close> has reported as failed: it is no longer connected,
  so a \<^verbatim>\<open>send\<close> on it raises SIGPIPE.
\<close>

definition reset_breaks_pipe :: "(nat \<Rightarrow> recv_result) \<Rightarrow> (string \<Rightarrow> send_result) \<Rightarrow> bool" where
  "reset_breaks_pipe r snd_call \<longleftrightarrow> ((\<exists>i. r i = RecvError) \<longrightarrow> (\<forall>out. snd_call out = BrokenPipe))"

text \<open>
  C38: A client that announces a body and resets the connection before it is complete has its
  request served all the same, with the body cut short (the body loop ends at the error), so
  a truncated input is given to the function, or a function is deleted; and then the whole
  control plane dies, because the answer is sent without \<^verbatim>\<open>MSG_NOSIGNAL\<close> on a connection that is
  gone.
\<close>
theorem reset_during_body_kills:
  assumes "resets r msg" "find_sub CRLF2 msg = Some pos" "pos + 4100 \<le> 2 ^ 20"
    and "content_length_of (parse_head (take pos msg)) = Inr n" "length msg < pos + 4 + n"
    and "reset_breaks_pipe r snd_call" "req = (parse_head (take pos msg))\<lparr>rq_body := drop (pos + 4) msg\<rparr>"
    and "dispatch routes req (split_path (rq_path req)) False s = (Returns resp, s')"
  shows "serve_connection routes r snd_call s = (Died, s')"
proof -
  have "receive_request r = Received req" using receive_request_cut [OF assms(1-5)] assms(7) by simp
  moreover have "snd_call out = BrokenPipe" for out
    using assms(1,6) unfolding resets_def reset_breaks_pipe_def by blast
  ultimately show ?thesis using assms(8) by (simp add: serve_connection_def handle_connection_def)
qed

definition cut_delete :: string where
  "cut_delete = ''DELETE /functions/hello HTTP/1.1'' @ CRLF @ ''Content-Length: 5'' @ CRLF2 @ ''x''"

definition then_reset :: "string \<Rightarrow> nat \<Rightarrow> recv_result" where
  "then_reset msg j = (if j = 0 then Bytes msg else RecvError)"

lemma cut_delete_facts:
  "find_sub CRLF2 cut_delete = Some 51" "length cut_delete \<le> 4096" "cut_delete \<noteq> []" "length cut_delete < 51 + 4 + 5"
  "content_length_of (parse_head (take 51 cut_delete)) = Inr 5"
  "case dispatch (api_routes mj_lib mem_api demo_env demo_be 60000) ((parse_head (take 51 cut_delete))\<lparr>rq_body := drop (51 + 4) cut_delete\<rparr>)
      (split_path (rq_path ((parse_head (take 51 cut_delete))\<lparr>rq_body := drop (51 + 4) cut_delete\<rparr>))) False
      \<lparr>pl_db = disk_db, pl_mgr = demo_warm\<rparr> of (Returns _, s') \<Rightarrow> m_functions (pl_db s') = [] \<and> runtimes (pl_mgr s') = [] | _ \<Rightarrow> False"
  by code_simp+

theorem reset_during_body_kills_witness:
  "\<exists>s'. serve_connection (api_routes mj_lib mem_api demo_env demo_be 60000) (then_reset cut_delete) (\<lambda>_. BrokenPipe)
      \<lparr>pl_db = disk_db, pl_mgr = demo_warm\<rparr> = (Died, s') \<and> m_functions (pl_db s') = []"
proof -
  let ?s = "\<lparr>pl_db = disk_db, pl_mgr = demo_warm\<rparr>"
  let ?req = "(parse_head (take 51 cut_delete))\<lparr>rq_body := drop (51 + 4) cut_delete\<rparr>"
  have r: "resets (then_reset cut_delete) cut_delete"
    unfolding resets_def using cut_delete_facts(2,3) by (intro exI [of _ "[cut_delete]"]) (simp add: then_reset_def)
  obtain resp s' where d: "dispatch (api_routes mj_lib mem_api demo_env demo_be 60000) ?req (split_path (rq_path ?req)) False ?s = (Returns resp, s')"
    "m_functions (pl_db s') = []"
    using cut_delete_facts(6) by (auto split: prod.splits outcome.splits)
  have "serve_connection (api_routes mj_lib mem_api demo_env demo_be 60000) (then_reset cut_delete) (\<lambda>_. BrokenPipe) ?s = (Died, s')"
    by (rule reset_during_body_kills [OF r cut_delete_facts(1) _ cut_delete_facts(5,4) _ refl d(1)])
      (simp_all add: reset_breaks_pipe_def)
  with d(2) show ?thesis by blast
qed

section \<open>A slow answer\<close>

text \<open>
  An environment in which the runtime answers \<open>n\<close> bytes one by one, \<open>d\<close> milliseconds after each
  other.
\<close>

definition drip_peer :: "nat \<Rightarrow> peer" where
  "drip_peer n = (demo_peer [])\<lparr>p_recv := (\<lambda>_ i. if i = 0 then Bytes (''HTTP/1.1 200 OK'' @ CRLF2)
     else if i \<le> n then Bytes ''x'' else Bytes [])\<rparr>"

definition drip_env :: "nat \<Rightarrow> int \<Rightarrow> env" where
  "drip_env n d = demo_env\<lparr>e_peer := (\<lambda>_ _ _. drip_peer n),
     e_now := (\<lambda>h. if list_ex (\<lambda>e. case e of Send _ \<Rightarrow> True | _ \<Rightarrow> False) h then int n * d * 1000000 else 0)\<rparr>"

lemma drip_delivers: "delivers (p_recv (drip_peer n) req) (''HTTP/1.1 200 OK'' @ CRLF2 @ replicate n (CHR ''x''))"
proof -
  let ?bss = "(''HTTP/1.1 200 OK'' @ CRLF2) # replicate n ''x''"
  have c: "concat (replicate n ''x'') = replicate n (CHR ''x'')" by (induction n) auto
  have "p_recv (drip_peer n) req j = Bytes (?bss ! j)" if "j < length ?bss" for j
    using that by (cases j) (auto simp: drip_peer_def demo_peer_def)
  moreover have "length (''HTTP/1.1 200 OK'' @ CRLF2) \<le> 4096" by code_simp
  ultimately show ?thesis unfolding delivers_def
    by (intro exI [of _ ?bss]) (auto simp: c drip_peer_def demo_peer_def list_all_iff)
qed

lemma drip_parsed:
  "parse_response (''HTTP/1.1 200 OK'' @ CRLF2 @ b) = default_response\<lparr>cr_status := 200, cr_body := b, cr_ok := True\<rparr>"
proof -
  have "find_sub CRLF2 (''HTTP/1.1 200 OK'' @ CRLF2) = Some 15" by code_simp
  from find_sub_append [OF this, of b] have f: "find_sub CRLF2 (''HTTP/1.1 200 OK'' @ CRLF2 @ b) = Some 15" by simp
  have "get_lines ''HTTP/1.1 200 OK'' = [''HTTP/1.1 200 OK'']" "fst (read_word ''HTTP/1.1 200 OK'') \<noteq> []"
    "read_int (snd (read_word ''HTTP/1.1 200 OK'')) = 200" by code_simp+
  moreover have "length (''HTTP/1.1 200 OK'' @ CRLF2) = 19" by code_simp
  then have "take 15 (''HTTP/1.1 200 OK'' @ CRLF2 @ b) = ''HTTP/1.1 200 OK''" "drop 19 (''HTTP/1.1 200 OK'' @ CRLF2 @ b) = b"
    by simp_all
  ultimately show ?thesis unfolding parse_response_def f by (simp add: case_prod_beta default_response_def)
qed

text \<open>
  The timeout of a function bounds each wait for its next bytes, not the invocation: a runtime
  that sends something every \<open>d\<close> milliseconds, less than the timeout, is never cut off, and
  the invocation succeeds after as many milliseconds as the runtime likes.
\<close>
theorem slow_answer_not_cut_off:
  assumes "0 \<le> d" "d < sint (fs_timeout_ms demo_spec)"
  shows "\<exists>r mg'. invoke (drip_env n d) be demo_spec inp demo_warm = Some (r, mg')
    \<and> ir_status r = ''success'' \<and> ir_output r = replicate n (CHR ''x'') \<and> ir_duration_ms r = int n * d"
proof -
  let ?env = "drip_env n d" and ?resp = "default_response\<lparr>cr_status := 200, cr_body := replicate n (CHR ''x''), cr_ok := True\<rparr>"
  let ?w = "snd (steady_now ?env (snd (steady_now ?env (mworld demo_warm))))"
  have peer: "e_peer ?env h host port = drip_peer n" for h host port by (simp add: drip_env_def)
  have "\<exists>w2. call_runtime ?env demo_spec inp (host_port demo_runtime) ?w = Some (?resp, w2)"
    unfolding call_runtime_def client_post_def drip_parsed [symmetric]
    by (rule request_delivered [where p = "drip_peer n", OF _ _ drip_delivers])
      (simp_all add: peer reachable_peer_def, simp_all add: drip_peer_def demo_peer_def)
  then obtain w2 where call: "call_runtime ?env demo_spec inp (host_port demo_runtime) ?w = Some (?resp, w2)" by blast
  have "Send (request_bytes ''127.0.0.1'' ''POST'' ''/invoke'' inp ''application/json'') \<in> set (hist w2)"
    using request_ok_hist [of ?env] call by (fastforce simp: call_runtime_def client_post_def)
  then have "e_now ?env (hist w2) = int n * d * 1000000" by (auto simp: drip_env_def list_ex_iff split: effect.splits)
  moreover have "e_now ?env (hist (mworld demo_warm)) = 0" by (simp add: drip_env_def demo_warm_def init_manager_def init_world_def)
  moreover have "ms_of_ns (int n * d * 1000000) = int n * d"
    unfolding ms_of_ns_def using assms(1) by (subst if_not_P) (simp_all add: not_less)
  ultimately show ?thesis
    using invoke_warm [OF demo_warm_find call, of be] by (auto simp: default_response_def)
qed

theorem slow_answer_not_cut_off_witness:
  "\<exists>r mg'. invoke (drip_env 1000 4999) demo_be demo_spec ''x'' demo_warm = Some (r, mg')
    \<and> fs_timeout_ms demo_spec = 5000 \<and> ir_status r = ''success'' \<and> ir_duration_ms r = 4999000"
proof -
  have "fs_timeout_ms demo_spec = 5000" "(4999 :: int) < sint (fs_timeout_ms demo_spec)" by code_simp+
  with slow_answer_not_cut_off [of 4999 1000 demo_be "''x''"] show ?thesis by auto
qed

section \<open>The port\<close>

lemma c_str_show_int: "c_str (show_int n) = show_int n"
proof -
  have "c \<noteq> CHR 0x00" if "c \<in> set (show_nat k)" for c k
    using that show_nat_digits [of k] by (auto simp: list_all_iff is_digit_def)
  then have "\<forall>c \<in> set (show_int n). c \<noteq> CHR 0x00" by (auto simp: show_int_def)
  then show ?thesis by (simp add: c_str_def)
qed

lemma atoi_show_int: "- (2 ^ 31) \<le> n \<Longrightarrow> n < 2 ^ 31 \<Longrightarrow> atoi (show_int n) = Inr n"
  by (simp add: atoi_def c_str_show_int scan_number_show_int signed_of_show)

lemma word_of_int_mod16: "(word_of_int (n mod 65536) :: 16 word) = word_of_int n"
  by (rule word_of_int_eq_iff [THEN iffD2]) (simp add: take_bit_eq_mod)

text \<open>
  The port is cut to 16 bits without a check: with \<^verbatim>\<open>FAAS_PORT\<close> set to 65536 or more the control
  plane starts exactly when it would start with the remainder, and listens there, although
  it announces the number it was given.
\<close>
theorem port_wraps:
  assumes "0 \<le> n" "n < 2 ^ 31"
  shows "main_start api os (vars\<lparr>pv_port := Some (show_int n)\<rparr>) w = Listening p sv
    \<longleftrightarrow> main_start api os (vars\<lparr>pv_port := Some (show_int (n mod 65536))\<rparr>) w = Listening p sv"
proof -
  have "atoi (show_int n) = Inr n" "atoi (show_int (n mod 65536)) = Inr (n mod 65536)"
    using assms by (auto intro!: atoi_show_int simp: pos_mod_bound [THEN less_trans])
  then show ?thesis
    by (auto simp: main_start_def listen_address_def bind_address_def word_of_int_mod16 listen_setup_def Let_def
        split: sum.splits prod.splits if_splits)
qed

theorem port_wraps_witness:
  "main_start mem_api \<lparr>lc_socket = 3, lc_inet = (\<lambda>_. 0), lc_bind = (\<lambda>a. snd a = 8080), lc_listen = True\<rparr>
     \<lparr>pv_db_path = None, pv_idle = None, pv_backend = None, pv_host = None, pv_port = Some ''73616''\<rparr> init_world
   = Listening \<lparr>pl_db = mem_empty, pl_mgr = init_manager init_world\<rparr> \<lparr>sv_listen_fd = 3, sv_running = True\<rparr>"
proof -
  have "show_int 73616 = ''73616''" "show_int (73616 mod 65536) = ''8080''" "atoi ''8080'' = Inr 8080" by code_simp+
  then show ?thesis
    using port_wraps [of 73616 mem_api "\<lparr>lc_socket = 3, lc_inet = (\<lambda>_. 0), lc_bind = (\<lambda>a. snd a = 8080), lc_listen = True\<rparr>"
      "\<lparr>pv_db_path = None, pv_idle = None, pv_backend = None, pv_host = None, pv_port = None\<rparr>" init_world
      "\<lparr>pl_db = mem_empty, pl_mgr = init_manager init_world\<rparr>" "\<lparr>sv_listen_fd = 3, sv_running = True\<rparr>"]
    by (simp add: main_start_def startup_def db_open_def registry_new_def store_new_def db_exec_def mem_api_def
        listen_address_def bind_address_def listen_setup_def Let_def init_server_def)
qed

end
