(* ===== verification/Api_Types.thy ===== *)
theory Api_Types
  imports Connection_Properties
begin

text \<open>
  The API as \<^verbatim>\<open>docs/api.md\<close> documents it: its endpoints, the status codes each of them answers
  with, and the type of its body. Every answer of the control plane has the type that the
  document gives for its request.
\<close>

section \<open>The document\<close>

record endpoint =
  ep_method :: string
  ep_path :: "string list"
  ep_statuses :: "int list"
  ep_content :: string

definition json_type :: string where
  "json_type = ''application/json''"

definition api_doc :: "endpoint list" where
  "api_doc =
     [\<lparr>ep_method = ''GET'', ep_path = [''health''], ep_statuses = [200], ep_content = json_type\<rparr>,
      \<lparr>ep_method = ''POST'', ep_path = [''functions''], ep_statuses = [201, 400], ep_content = json_type\<rparr>,
      \<lparr>ep_method = ''GET'', ep_path = [''functions'', ''{name}''], ep_statuses = [200, 404], ep_content = json_type\<rparr>,
      \<lparr>ep_method = ''DELETE'', ep_path = [''functions'', ''{name}''], ep_statuses = [204, 404], ep_content = json_type\<rparr>,
      \<lparr>ep_method = ''POST'', ep_path = [''functions'', ''{name}'', ''invoke''], ep_statuses = [200, 404, 502], ep_content = json_type\<rparr>,
      \<lparr>ep_method = ''GET'', ep_path = [''functions'', ''{name}'', ''runtime''], ep_statuses = [200, 404], ep_content = json_type\<rparr>,
      \<lparr>ep_method = ''GET'', ep_path = [''runtimes''], ep_statuses = [200], ep_content = json_type\<rparr>,
      \<lparr>ep_method = ''GET'', ep_path = [''metrics''], ep_statuses = [200], ep_content = ''text/plain; version=0.0.4''\<rparr>,
      \<lparr>ep_method = ''GET'', ep_path = [''invocations'', ''{id}''], ep_statuses = [200, 404], ep_content = json_type\<rparr>]"

text \<open>
  The type of an answer, as the client reads it: a documented status; no body after 204, and
  otherwise a body of the documented content type, which if it is JSON is the text of some
  document.
\<close>

definition answer_type :: "'j json_lib \<Rightarrow> endpoint \<Rightarrow> int \<Rightarrow> string option \<Rightarrow> string \<Rightarrow> bool" where
  "answer_type lib e status content body \<longleftrightarrow> status \<in> set (ep_statuses e)
     \<and> (if status = 204 then content = None \<and> body = []
        else content = Some (ep_content e) \<and> (ep_content e = json_type \<longrightarrow> (\<exists>j. j_dump lib j = Some body)))"

definition documented :: "string \<Rightarrow> string list \<Rightarrow> endpoint option" where
  "documented method segs = find (\<lambda>e. ep_method e = method \<and> list_all2 seg_ok (ep_path e) segs) api_doc"

definition undocumented_status :: "string list \<Rightarrow> int" where
  "undocumented_status segs = (if \<exists>e \<in> set api_doc. list_all2 seg_ok (ep_path e) segs then 405 else 404)"

definition conforms :: "'j json_lib \<Rightarrow> string \<Rightarrow> string list \<Rightarrow> int \<Rightarrow> string option \<Rightarrow> string \<Rightarrow> bool" where
  "conforms lib method segs status content body =
     (case documented method segs of
        Some e \<Rightarrow> answer_type lib e status content body
      | None \<Rightarrow> status = undocumented_status segs \<and> content = Some json_type
          \<and> body = error_json (if status = 405 then ''method not allowed'' else ''not found''))"

section \<open>The handlers\<close>

definition typed_response :: "'j json_lib \<Rightarrow> endpoint \<Rightarrow> response \<Rightarrow> bool" where
  "typed_response lib e resp \<longleftrightarrow> rp_headers resp \<in> {[], [(''Content-Type'', ep_content e)]}
     \<and> answer_type lib e (rp_status resp) (om_find (rp_headers resp) ''Content-Type'') (rp_body resp)"

lemma typed_json:
  "json_response lib st j = Returns resp \<Longrightarrow> ep_content e = json_type \<Longrightarrow> st \<in> set (ep_statuses e) \<Longrightarrow> st \<noteq> 204 \<Longrightarrow>
    typed_response lib e resp"
  by (auto simp: json_response_def response_json_def default_reply_def typed_response_def answer_type_def json_type_def split: option.splits)

lemma typed_error:
  "error_response lib st msg = Returns resp \<Longrightarrow> ep_content e = json_type \<Longrightarrow> st \<in> set (ep_statuses e) \<Longrightarrow> st \<noteq> 204 \<Longrightarrow>
    typed_response lib e resp"
  by (simp add: error_response_def typed_json)

lemma typed_empty: "204 \<in> set (ep_statuses e) \<Longrightarrow> typed_response lib e (response_empty 204)"
  by (simp add: response_empty_def default_reply_def typed_response_def answer_type_def)

lemmas typed_rules = typed_json typed_error

lemma typed_handlers:
  "health_handler lib req ps s = (Returns resp, s') \<Longrightarrow> typed_response lib (api_doc ! 0) resp"
  "deploy_handler lib api idle req ps s = (Returns resp, s') \<Longrightarrow> typed_response lib (api_doc ! 1) resp"
  "describe_handler lib api req ps s = (Returns resp, s') \<Longrightarrow> typed_response lib (api_doc ! 2) resp"
  "delete_handler lib api be req ps s = (Returns resp, s') \<Longrightarrow> typed_response lib (api_doc ! 3) resp"
  "invoke_handler lib api env be req ps s = (Returns resp, s') \<Longrightarrow> typed_response lib (api_doc ! 4) resp"
  "runtime_handler lib api env req ps s = (Returns resp, s') \<Longrightarrow> typed_response lib (api_doc ! 5) resp"
  "runtimes_handler lib env req ps s = (Returns resp, s') \<Longrightarrow> typed_response lib (api_doc ! 6) resp"
  "metrics_handler env req ps s = (Returns resp, s') \<Longrightarrow> typed_response lib (api_doc ! 7) resp"
  "invocation_handler lib api req ps s = (Returns resp, s') \<Longrightarrow> typed_response lib (api_doc ! 8) resp"
proof -
  show "health_handler lib req ps s = (Returns resp, s') \<Longrightarrow> typed_response lib (api_doc ! 0) resp"
    unfolding health_handler_def by (auto elim!: typed_rules simp: api_doc_def)
  show "deploy_handler lib api idle req ps s = (Returns resp, s') \<Longrightarrow> typed_response lib (api_doc ! 1) resp"
    unfolding deploy_handler_def by (auto elim!: typed_rules simp: api_doc_def split: option.splits if_splits prod.splits sum.splits)
  show "describe_handler lib api req ps s = (Returns resp, s') \<Longrightarrow> typed_response lib (api_doc ! 2) resp"
    unfolding describe_handler_def by (auto elim!: typed_rules simp: api_doc_def split: option.splits prod.splits sum.splits)
  show "delete_handler lib api be req ps s = (Returns resp, s') \<Longrightarrow> typed_response lib (api_doc ! 3) resp"
    unfolding delete_handler_def by (auto elim!: typed_rules simp: typed_empty api_doc_def split: if_splits prod.splits sum.splits)
  show "invoke_handler lib api env be req ps s = (Returns resp, s') \<Longrightarrow> typed_response lib (api_doc ! 4) resp"
    unfolding invoke_handler_def invoke_body_def Let_def
    by (auto elim!: typed_rules simp: api_doc_def split: option.splits if_splits prod.splits sum.splits)
  show "runtime_handler lib api env req ps s = (Returns resp, s') \<Longrightarrow> typed_response lib (api_doc ! 5) resp"
    unfolding runtime_handler_def by (auto elim!: typed_rules simp: api_doc_def split: option.splits prod.splits sum.splits)
  show "runtimes_handler lib env req ps s = (Returns resp, s') \<Longrightarrow> typed_response lib (api_doc ! 6) resp"
    unfolding runtimes_handler_def by (auto elim!: typed_rules simp: api_doc_def split: prod.splits)
  show "metrics_handler env req ps s = (Returns resp, s') \<Longrightarrow> typed_response lib (api_doc ! 7) resp"
    unfolding metrics_handler_def
    by (auto simp: api_doc_def response_text_def default_reply_def typed_response_def answer_type_def json_type_def Let_def split: prod.splits)
  show "invocation_handler lib api req ps s = (Returns resp, s') \<Longrightarrow> typed_response lib (api_doc ! 8) resp"
    unfolding invocation_handler_def by (auto elim!: typed_rules simp: api_doc_def split: option.splits prod.splits sum.splits)
qed

section \<open>The routes\<close>

definition implements :: "'j json_lib \<Rightarrow> 's route \<Rightarrow> endpoint \<Rightarrow> bool" where
  "implements lib route e \<longleftrightarrow> ro_method route = ep_method e \<and> ro_segments route = ep_path e
     \<and> (\<forall>req ps s resp s'. ro_handler route req ps s = (Returns resp, s') \<longrightarrow> typed_response lib e resp)"

lemma routes_implement: "list_all2 (implements lib) (api_routes lib api env be idle) api_doc"
proof (rule list_all2_all_nthI)
  show "length (api_routes lib api env be idle) = length api_doc" by (simp add: api_routes_def api_doc_def)
  fix i assume "i < length (api_routes lib api env be idle)"
  then have "i = 0 \<or> i = 1 \<or> i = 2 \<or> i = 3 \<or> i = 4 \<or> i = 5 \<or> i = 6 \<or> i = 7 \<or> i = 8"
    by (auto simp: api_routes_def less_Suc_eq)
  then show "implements lib (api_routes lib api env be idle ! i) (api_doc ! i)"
    by (elim disjE; simp only:)
      (unfold implements_def, (intro conjI allI impI typed_handlers; simp add: api_routes_def make_route_def split_path_def api_doc_def)+)
qed

lemma find_implements:
  assumes "list_all2 P xs ys" "\<And>x y. P x y \<Longrightarrow> f x = g y"
  shows "rel_option P (find f xs) (find g ys)"
  using assms(1) by (induction rule: list_all2_induct) (auto simp: assms(2))

lemma paths_implement:
  "(\<exists>route \<in> set (api_routes lib api env be idle). list_all2 seg_ok (ro_segments route) segs)
    \<longleftrightarrow> (\<exists>e \<in> set api_doc. list_all2 seg_ok (ep_path e) segs)"
proof -
  have "map ro_segments (api_routes lib api env be idle) = map ep_path api_doc"
    by (simp add: api_routes_def api_doc_def make_route_def split_path_def)
  from arg_cong [OF this, of set] have "ro_segments ` set (api_routes lib api env be idle) = ep_path ` set api_doc" by simp
  then show ?thesis by (metis (no_types, lifting) image_iff)
qed

lemma dispatch_typed:
  assumes "dispatch (api_routes lib api env be idle) req segs False s = (Returns resp, s')"
  shows "(rp_headers resp = [] \<or> (\<exists>c \<in> {json_type, ''text/plain; version=0.0.4''}. rp_headers resp = [(''Content-Type'', c)]))
    \<and> rp_status resp \<in> {200, 201, 204, 400, 404, 405, 502}
    \<and> conforms lib (rq_method req) segs (rp_status resp) (om_find (rp_headers resp) ''Content-Type'') (rp_body resp)"
proof -
  have rel: "rel_option (implements lib) (find (route_fits req segs) (api_routes lib api env be idle)) (documented (rq_method req) segs)"
    unfolding documented_def by (rule find_implements [OF routes_implement]) (auto simp: implements_def route_fits_def)
  show ?thesis
  proof (cases "find (route_fits req segs) (api_routes lib api env be idle)")
    case None
    with rel have "documented (rq_method req) segs = None" by simp
    moreover have "rp_headers resp = [(''Content-Type'', json_type)] \<and> rp_status resp = undocumented_status segs
        \<and> rp_body resp = error_json (if rp_status resp = 405 then ''method not allowed'' else ''not found'')"
      using assms None unfolding dispatch_eq paths_implement
      by (cases "\<exists>e \<in> set api_doc. list_all2 seg_ok (ep_path e) segs")
        (auto simp: undocumented_status_def response_json_def default_reply_def json_type_def)
    ultimately show ?thesis by (auto simp: conforms_def undocumented_status_def)
  next
    case (Some route)
    with rel obtain e where e: "documented (rq_method req) segs = Some e" "implements lib route e"
      by (cases "documented (rq_method req) segs") auto
    have "ro_handler route req (captured (ro_segments route) segs) s = (Returns resp, s')" using assms Some by (simp add: dispatch_eq)
    then have "typed_response lib e resp" using e(2) unfolding implements_def by blast
    moreover have "e \<in> set api_doc" using e(1) unfolding documented_def find_Some_iff by auto
    then have "ep_content e \<in> {json_type, ''text/plain; version=0.0.4''}" "set (ep_statuses e) \<subseteq> {200, 201, 204, 400, 404, 405, 502}"
      unfolding api_doc_def by auto
    ultimately show ?thesis using e(1) by (auto simp: typed_response_def conforms_def answer_type_def split: if_splits)
  qed
qed

lemma typed_answer_parsed:
  assumes "rp_headers resp = [] \<or> (\<exists>c \<in> {json_type, ''text/plain; version=0.0.4''}. rp_headers resp = [(''Content-Type'', c)])"
    and "rp_status resp \<in> {200, 201, 204, 400, 404, 405, 502}"
  shows "parse_response (response_bytes (finish_headers resp)) = default_response\<lparr>cr_status := rp_status resp,
    cr_headers := rp_headers (finish_headers resp), cr_body := rp_body resp, cr_ok := True\<rparr>"
    and "om_find (rp_headers (finish_headers resp)) ''Content-Type'' = om_find (rp_headers resp) ''Content-Type''"
    and "om_find (rp_headers (finish_headers resp)) ''Content-Length'' = Some (show_nat (length (rp_body resp)))"
    and "om_find (rp_headers (finish_headers resp)) ''Connection'' = Some ''close''"
proof -
  have plain: "plain_header (''Content-Type'', json_type)" "plain_header (''Content-Type'', ''text/plain; version=0.0.4'')" by code_simp+
  then have h: "om_ok (rp_headers resp)" "list_all plain_header (rp_headers resp)" using assms(1) by (auto simp: om_ok_def)
  show "parse_response (response_bytes (finish_headers resp)) = default_response\<lparr>cr_status := rp_status resp,
    cr_headers := rp_headers (finish_headers resp), cr_body := rp_body resp, cr_ok := True\<rparr>"
    using response_parsed [of "finish_headers resp"] finish_headers_plain [OF h] assms(2) by (auto simp: finish_headers_def)
  show "om_find (rp_headers (finish_headers resp)) ''Content-Type'' = om_find (rp_headers resp) ''Content-Type''"
    "om_find (rp_headers (finish_headers resp)) ''Content-Length'' = Some (show_nat (length (rp_body resp)))"
    "om_find (rp_headers (finish_headers resp)) ''Connection'' = Some ''close''"
    by (simp_all add: finish_headers_def om_find_put)
qed

text \<open>
  C31: Every answer of the control plane is of the documented type: whatever bytes arrive, on
  whatever state and however SQLite, the containers and the JSON library behave, an answer
  that is sent at all is a complete HTTP response whose status is one that \<^verbatim>\<open>docs/api.md\<close> lists for
  the endpoint (405 for a wrong method on a known path and 404 for an unknown path),
  whose content type is the documented one, whose JSON body is the text of a document, and
  whose length header is the length of the body.
\<close>
theorem api_answers_typed:
  assumes "handle_connection (api_routes lib api env be idle) r s = (Answered out, s')"
  shows "\<exists>req. receive_request r = Received req \<and> cr_ok (parse_response out)
    \<and> conforms lib (rq_method req) (split_path (rq_path req)) (cr_status (parse_response out))
        (om_find (cr_headers (parse_response out)) ''Content-Type'') (cr_body (parse_response out))
    \<and> om_find (cr_headers (parse_response out)) ''Content-Length'' = Some (show_nat (length (cr_body (parse_response out))))
    \<and> om_find (cr_headers (parse_response out)) ''Connection'' = Some ''close''"
proof -
  obtain req resp where r: "receive_request r = Received req" "out = response_bytes (finish_headers resp)"
    "dispatch (api_routes lib api env be idle) req (split_path (rq_path req)) False s = (Returns resp, s')"
    using assms by (auto simp: handle_connection_def split: prod.splits outcome.splits received.splits)
  note typed = dispatch_typed [OF r(3)]
  with typed_answer_parsed [of resp] r(1,2) show ?thesis by simp
qed

lemma health_answered:
  "\<exists>out. handle_connection (api_routes mj_lib mem_api demo_env demo_be 60000) health_bytes demo_plane = (Answered out, demo_plane)"
proof -
  have "dispatch (api_routes mj_lib mem_api demo_env demo_be 60000) \<lparr>rq_method = ''GET'', rq_path = ''/health'', rq_headers = [], rq_body = []\<rparr>
      (split_path ''/health'') False demo_plane
    = health_handler mj_lib \<lparr>rq_method = ''GET'', rq_path = ''/health'', rq_headers = [], rq_body = []\<rparr> [] demo_plane"
    by (simp add: api_routes_def make_route_def split_path_def match_route_def is_param_def)
  then show ?thesis
    by (simp add: handle_connection_def health_received health_handler_def json_response_def mj_lib_def)
qed

theorem api_answers_typed_witness:
  "\<exists>out. handle_connection (api_routes mj_lib mem_api demo_env demo_be 60000) health_bytes demo_plane = (Answered out, demo_plane)
    \<and> cr_status (parse_response out) = 200 \<and> om_find (cr_headers (parse_response out)) ''Content-Type'' = Some json_type"
proof -
  obtain out where out: "handle_connection (api_routes mj_lib mem_api demo_env demo_be 60000) health_bytes demo_plane = (Answered out, demo_plane)"
    using health_answered by blast
  have "documented ''GET'' (split_path ''/health'') = Some (api_doc ! 0)" by code_simp
  with api_answers_typed [OF out] out show ?thesis
    by (auto simp: health_received conforms_def answer_type_def api_doc_def)
qed

end
