(* ===== verification/Locks.thy ===== *)
theory Locks
  imports Prelude
begin

text \<open>
  The mutexes. The control plane has three: a \<^verbatim>\<open>Statement\<close> holds the database's for its lifetime,
  the runtime manager has one for its table, the metrics have one. \<open>Runtime_Threads\<close> and
  \<open>Plane_Threads\<close> take a critical section as one step; here is what makes that sound of the
  locking itself: the order in which every handler and the reaper acquire and release them,
  and that no interleaving of these can deadlock.
\<close>

section \<open>Lock programs\<close>

text \<open>What a thread does with mutexes, in order; \<open>Work\<close> is everything else that takes time.\<close>

datatype 'm lock_op = Acquire 'm | Release 'm | Work

text \<open>
  A thread's programme is disciplined when it acquires a mutex only while the ones it holds
  have a smaller rank (so never twice), releases only what it holds, and ends holding none.
\<close>

fun disciplined :: "('m \<Rightarrow> nat) \<Rightarrow> 'm set \<Rightarrow> 'm lock_op list \<Rightarrow> bool" where
  "disciplined rank H [] = (H = {})"
| "disciplined rank H (Acquire m # ops) = ((\<forall>h \<in> H. rank h < rank m) \<and> disciplined rank (insert m H) ops)"
| "disciplined rank H (Release m # ops) = (m \<in> H \<and> disciplined rank (H - {m}) ops)"
| "disciplined rank H (Work # ops) = disciplined rank H ops"

record 'm lock_state =
  rest :: "nat \<Rightarrow> 'm lock_op list"
  holder :: "'m \<Rightarrow> nat option"

definition lock_start :: "(nat \<Rightarrow> 'm lock_op list) \<Rightarrow> 'm lock_state" where
  "lock_start ps = \<lparr>rest = ps, holder = (\<lambda>_. None)\<rparr>"

inductive lstep :: "'m lock_state \<Rightarrow> 'm lock_state \<Rightarrow> bool" where
  l_acquire: "rest s t = Acquire m # ops \<Longrightarrow> holder s m = None \<Longrightarrow>
    lstep s (s\<lparr>rest := (rest s)(t := ops), holder := (holder s)(m \<mapsto> t)\<rparr>)"
| l_release: "rest s t = Release m # ops \<Longrightarrow> holder s m = Some t \<Longrightarrow>
    lstep s (s\<lparr>rest := (rest s)(t := ops), holder := (holder s)(m := None)\<rparr>)"
| l_work: "rest s t = Work # ops \<Longrightarrow> lstep s (s\<lparr>rest := (rest s)(t := ops)\<rparr>)"

definition held :: "'m lock_state \<Rightarrow> nat \<Rightarrow> 'm set" where
  "held s t = {m. holder s m = Some t}"

lemma held_simps:
  "holder s m = None \<Longrightarrow> held (s\<lparr>rest := r, holder := (holder s)(m \<mapsto> t)\<rparr>) u = (if u = t then insert m (held s u) else held s u)"
  "holder s m = Some t \<Longrightarrow> held (s\<lparr>rest := r, holder := (holder s)(m := None)\<rparr>) u = (if u = t then held s u - {m} else held s u)"
  "held (s\<lparr>rest := r\<rparr>) u = held s u"
  by (auto simp: held_def split: if_splits)

section \<open>Ordered locking does not deadlock\<close>

locale lock_order =
  fixes rank :: "'m :: finite \<Rightarrow> nat" and programs :: "'m lock_op list set"
  assumes ordered: "p \<in> programs \<Longrightarrow> disciplined rank {} p"
begin

definition orderly :: "'m lock_state \<Rightarrow> bool" where
  "orderly s \<longleftrightarrow> (\<forall>t. disciplined rank (held s t) (rest s t))"

lemma orderly_start:
  assumes "\<And>t. ps t = [] \<or> ps t \<in> programs"
  shows "orderly (lock_start ps)"
proof -
  have "disciplined rank {} (ps t)" for t using assms [of t] ordered by auto
  then show ?thesis by (simp add: orderly_def lock_start_def held_def)
qed

lemma orderly_step:
  assumes "lstep s s'" "orderly s"
  shows "orderly s'"
  using assms
proof (induction rule: lstep.induct)
  case (l_acquire s t m ops)
  then have "disciplined rank (held s t) (Acquire m # ops)" unfolding orderly_def by metis
  with l_acquire show ?case by (auto simp: orderly_def held_simps)
next
  case (l_release s t m ops)
  then have "disciplined rank (held s t) (Release m # ops)" unfolding orderly_def by metis
  with l_release show ?case by (auto simp: orderly_def held_simps)
next
  case (l_work s t ops)
  then have "disciplined rank (held s t) (Work # ops)" unfolding orderly_def by metis
  with l_work show ?case by (auto simp: orderly_def held_simps)
qed

text \<open>A thread that is not done can move, or waits for a mutex.\<close>

lemma moves_or_waits:
  assumes "orderly s" "rest s t \<noteq> []"
  shows "(\<exists>s'. lstep s s') \<or> (\<exists>m ops u. rest s t = Acquire m # ops \<and> holder s m = Some u)"
proof -
  have d: "disciplined rank (held s t) (rest s t)" using assms(1) by (simp add: orderly_def)
  from assms(2) obtain op ops where r: "rest s t = op # ops" by (cases "rest s t") auto
  show ?thesis
  proof (cases op)
    case (Acquire m)
    show ?thesis
    proof (cases "holder s m")
      case None
      with Acquire r show ?thesis using lstep.l_acquire [of s t m ops] by blast
    next
      case (Some u)
      with Acquire r show ?thesis by blast
    qed
  next
    case (Release m)
    with d r have "holder s m = Some t" by (simp add: held_def)
    with Release r show ?thesis using lstep.l_release [of s t m ops] by blast
  next
    case Work
    with r show ?thesis using lstep.l_work [of s t ops] by blast
  qed
qed

lemma not_stuck:
  assumes "orderly s" "rest s t \<noteq> []"
  shows "\<exists>s'. lstep s s'"
proof (rule ccontr)
  assume stuck: "\<nexists>s'. lstep s s'"
  define W where "W = {m. \<exists>t ops. rest s t = Acquire m # ops}"
  have "W \<noteq> {}" using moves_or_waits [OF assms] stuck by (auto simp: W_def)
  then have "Max (rank ` W) \<in> rank ` W" by (intro Max_in) auto
  then obtain m where m: "m \<in> W" "rank m = Max (rank ` W)" by auto
  then obtain v ops where v: "rest s v = Acquire m # ops" by (auto simp: W_def)
  with moves_or_waits [OF assms(1), of v] stuck obtain u where u: "m \<in> held s u" by (auto simp: held_def)
  have d: "disciplined rank (held s u) (rest s u)" using assms(1) by (simp add: orderly_def)
  with u have "rest s u \<noteq> []" by auto
  with moves_or_waits [OF assms(1), of u] stuck obtain m' ops' where m': "rest s u = Acquire m' # ops'" by blast
  with d u have "rank m < rank m'" by simp
  moreover have "m' \<in> W" using m' by (auto simp: W_def)
  then have "rank m' \<le> rank m" unfolding m(2) by (intro Max_ge) auto
  ultimately show False by simp
qed

lemma orderly_run: "lstep\<^sup>*\<^sup>* s s' \<Longrightarrow> orderly s \<Longrightarrow> orderly s'"
  by (induction rule: rtranclp_induct) (auto intro: orderly_step)

lemma done_holds_nothing: "orderly s \<Longrightarrow> (\<And>t. rest s t = []) \<Longrightarrow> holder s m = None"
  by (cases "holder s m") (auto simp: orderly_def held_def)

text \<open>Each step uses up one operation, so with finitely many threads everything ends.\<close>

lemma step_uses_one:
  assumes "lstep s s'" "finite T" "\<And>t. t \<notin> T \<Longrightarrow> rest s t = []"
  shows "(\<Sum>t \<in> T. length (rest s t)) = Suc (\<Sum>t \<in> T. length (rest s' t)) \<and> (\<forall>t. t \<notin> T \<longrightarrow> rest s' t = [])"
proof -
  obtain t op ops where t: "rest s t = op # ops" "rest s' = (rest s)(t := ops)"
    using assms(1) by cases auto
  then have "t \<in> T" using assms(3) by force
  then show ?thesis
    using t assms(3) sum.remove [OF assms(2) \<open>t \<in> T\<close>, of "\<lambda>t. length (rest s t)"] sum.remove [OF assms(2) \<open>t \<in> T\<close>, of "\<lambda>t. length (rest s' t)"]
    by auto
qed

lemma all_finish:
  assumes "orderly s" "finite T" "\<And>t. t \<notin> T \<Longrightarrow> rest s t = []"
  shows "\<exists>s'. lstep\<^sup>*\<^sup>* s s' \<and> (\<forall>t. rest s' t = []) \<and> (\<forall>m. holder s' m = None)"
  using assms
proof (induction "\<Sum>t \<in> T. length (rest s t)" arbitrary: s)
  case 0
  then have "rest s t = []" for t by (cases "t \<in> T") auto
  with 0 show ?case using done_holds_nothing by blast
next
  case (Suc n)
  then obtain t where "rest s t \<noteq> []" by (metis length_0_conv sum.neutral nat.distinct(1))
  then obtain s1 where s1: "lstep s s1" using not_stuck [OF Suc.prems(1)] by blast
  have "n = (\<Sum>t \<in> T. length (rest s1 t))" "\<And>t. t \<notin> T \<Longrightarrow> rest s1 t = []"
    using step_uses_one [OF s1 Suc.prems(2,3)] Suc(2) by auto
  from Suc.hyps(1) [OF this(1) orderly_step [OF s1 Suc.prems(1)] Suc.prems(2) this(2)]
  show ?case using converse_rtranclp_into_rtranclp [of lstep, OF s1] by blast
qed

end
section \<open>The locks of the control plane\<close>

datatype mutex = Db_mutex | Manager_mutex | Metrics_mutex

instantiation mutex :: finite
begin

instance
proof
  have "UNIV \<subseteq> {Db_mutex, Manager_mutex, Metrics_mutex}" using mutex.exhaust by auto
  then show "finite (UNIV :: mutex set)" by (rule finite_subset) simp
qed

end

fun mutex_rank :: "mutex \<Rightarrow> nat" where
  "mutex_rank Db_mutex = 0"
| "mutex_rank Manager_mutex = 1"
| "mutex_rank Metrics_mutex = 2"

text \<open>A \<^verbatim>\<open>Statement\<close>, from its construction to its destruction; a call of the metrics.\<close>

definition statement_locks :: "mutex lock_op list" where
  "statement_locks = [Acquire Db_mutex, Work, Release Db_mutex]"

definition metrics_locks :: "mutex lock_op list" where
  "metrics_locks = [Acquire Metrics_mutex, Release Metrics_mutex]"

text \<open>A critical section of the runtime manager, with the calls of the metrics made inside it.\<close>

definition manager_locks :: "nat \<Rightarrow> mutex lock_op list" where
  "manager_locks n = [Acquire Manager_mutex, Work] @ concat (replicate n metrics_locks) @ [Release Manager_mutex]"

text \<open>
  One attempt: the start failed, or a cold or warm runtime was called (without the lock), and
  was dropped or kept.
\<close>

datatype attempt = Start_failed | Called bool bool

fun try_invoke_locks :: "attempt \<Rightarrow> mutex lock_op list" where
  "try_invoke_locks Start_failed = manager_locks 0"
| "try_invoke_locks (Called cold dropped) =
     manager_locks (if cold then 1 else 0) @ [Work] @ manager_locks (if dropped then 1 else 0)"

definition invoke_locks :: "attempt \<Rightarrow> attempt option \<Rightarrow> mutex lock_op list" where
  "invoke_locks first retry =
     try_invoke_locks first @ (case retry of None \<Rightarrow> [] | Some a \<Rightarrow> try_invoke_locks a) @ metrics_locks"

text \<open>
  What a thread may be doing: handling one of the requests (with what it finds), or a round
  of the reaper that removes some number of runtimes.
\<close>

datatype activity =
    Health
  | Deploy
  | Describe
  | Delete bool bool                             \<comment> \<open>registered?, running?\<close>
  | Invoke "(attempt \<times> attempt option) option"   \<comment> \<open>\<^const>\<open>None\<close>: not registered\<close>
  | Runtime_status bool
  | Runtimes
  | Metrics_page
  | Invocation bool                              \<comment> \<open>is the id a number?\<close>
  | Reaper_round nat

fun locks_of :: "activity \<Rightarrow> mutex lock_op list" where
  "locks_of Health = []"
| "locks_of Deploy = statement_locks @ statement_locks"
| "locks_of Describe = statement_locks"
| "locks_of (Delete registered running) =
     statement_locks @ (if registered then manager_locks (if running then 1 else 0) else [])"
| "locks_of (Invoke found) =
     statement_locks @ (case found of None \<Rightarrow> [] | Some (first, retry) \<Rightarrow> invoke_locks first retry @ statement_locks)"
| "locks_of (Runtime_status registered) = statement_locks @ (if registered then manager_locks 0 else [])"
| "locks_of Runtimes = manager_locks 0"
| "locks_of Metrics_page = manager_locks 0 @ metrics_locks"
| "locks_of (Invocation numeric) = (if numeric then statement_locks else [])"
| "locks_of (Reaper_round n) = Work # manager_locks n"

lemma disciplined_metrics:
  "H \<in> {{}, {Manager_mutex}} \<Longrightarrow> disciplined mutex_rank H (metrics_locks @ ops) = disciplined mutex_rank H ops"
  by (auto simp: metrics_locks_def insert_Diff_if)

lemma disciplined_metrics_many:
  "disciplined mutex_rank {Manager_mutex} (concat (replicate n metrics_locks) @ ops) = disciplined mutex_rank {Manager_mutex} ops"
  by (induction n) (simp_all add: disciplined_metrics)

lemma disciplined_manager: "disciplined mutex_rank {} (manager_locks n @ ops) = disciplined mutex_rank {} ops"
  by (simp add: manager_locks_def disciplined_metrics_many)

lemma disciplined_statement: "disciplined mutex_rank {} (statement_locks @ ops) = disciplined mutex_rank {} ops"
  by (simp add: statement_locks_def)

lemmas disciplined_parts = disciplined_metrics disciplined_manager disciplined_statement
  disciplined_metrics [of _ "[]", simplified] disciplined_manager [of _ "[]", simplified] disciplined_statement [of "[]", simplified]

lemma disciplined_try: "disciplined mutex_rank {} (try_invoke_locks a @ ops) = disciplined mutex_rank {} ops"
  by (cases a) (simp_all add: disciplined_parts)

lemma disciplined_activity: "disciplined mutex_rank {} (locks_of a)"
  by (cases a) (auto simp: disciplined_parts disciplined_try invoke_locks_def split: option.split)

interpretation plane_locks: lock_order mutex_rank "range locks_of"
  by unfold_locales (auto simp: disciplined_activity)

text \<open>
  C17: The control plane cannot deadlock on its mutexes: however the threads that handle
  requests and the reaper are interleaved, as long as one of them is not done some thread can
  take its next step, and every state leads to one in which all are done and every mutex is
  free again.
\<close>
theorem no_deadlock:
  assumes "finite T" "\<And>t. t \<in> T \<Longrightarrow> ps t = locks_of (acts t)" "\<And>t. t \<notin> T \<Longrightarrow> ps t = []"
    and "lstep\<^sup>*\<^sup>* (lock_start ps) s"
  shows "(rest s t \<noteq> [] \<longrightarrow> (\<exists>s'. lstep s s'))
    \<and> (\<exists>s'. lstep\<^sup>*\<^sup>* s s' \<and> (\<forall>t. rest s' t = []) \<and> (\<forall>m. holder s' m = None))"
proof -
  have "ps t = [] \<or> ps t \<in> range locks_of" for t using assms(2,3) [of t] by (cases "t \<in> T") auto
  then have ok: "plane_locks.orderly s" using plane_locks.orderly_run [OF assms(4)] plane_locks.orderly_start by blast
  have "rest s t = []" if "t \<notin> T" for t
    using assms(4) that
  proof (induction rule: rtranclp_induct)
    case base
    then show ?case using assms(3) by (simp add: lock_start_def)
  next
    case (step y z)
    from step.hyps(2) step.IH [OF step.prems] show ?case by cases (auto split: if_splits)
  qed
  with ok show ?thesis using plane_locks.not_stuck plane_locks.all_finish [OF ok assms(1)] by blast
qed

text \<open>Two invocations of one function and the reaper.\<close>

definition demo_acts :: "nat \<Rightarrow> activity" where
  "demo_acts t = (if t = 0 then Invoke (Some (Called True False, None))
     else if t = 1 then Invoke (Some (Called False True, Some (Called True False))) else Reaper_round 1)"

theorem no_deadlock_witness:
  "\<exists>s'. lstep\<^sup>*\<^sup>* (lock_start (\<lambda>t. if t < 3 then locks_of (demo_acts t) else [])) s' \<and> (\<forall>t. rest s' t = []) \<and> (\<forall>m. holder s' m = None)"
  using no_deadlock [where T = "{..<3}" and acts = demo_acts, OF _ _ _ rtranclp.rtrancl_refl,
      where ps = "\<lambda>t. if t < 3 then locks_of (demo_acts t) else []"]
  by auto

end
