(* ===== verification/Cli_Deploy.thy ===== *)
theory Cli_Deploy
  imports Client_Server
begin

text \<open>
  \<^verbatim>\<open>cloudfn deploy\<close> from the command line to the row in the control plane's database.
\<close>

section \<open>What a deploy command asks for\<close>

text \<open>The specification the flags of \<^verbatim>\<open>cloudfn deploy\<close> stand for, or the error of a conversion.\<close>

definition flag_or :: "args \<Rightarrow> string \<Rightarrow> 'a \<Rightarrow> (string \<Rightarrow> cxx_error + 'a) \<Rightarrow> 'a option" where
  "flag_or a flag d conv = (case om_find (flags a) flag of None \<Rightarrow> Some d
     | Some v \<Rightarrow> (case conv v of Inl _ \<Rightarrow> None | Inr x \<Rightarrow> Some x))"

definition asked_spec :: "args \<Rightarrow> string \<Rightarrow> string \<Rightarrow> int \<Rightarrow> function_spec option" where
  "asked_spec a nm img idle =
     Option.bind (flag_or a ''timeout'' 5000 (\<lambda>v. parse_duration_ms v 5000)) (\<lambda>timeout_ms.
     Option.bind (flag_or a ''memory'' 256 (\<lambda>v. parse_memory_mb v 256)) (\<lambda>memory_mb.
     Option.bind (flag_or a ''cpu'' 0x3FE0000000000000 stod) (\<lambda>cpu.
     Option.bind (flag_or a ''concurrency'' 1 stoi) (\<lambda>max_concurrency.
     Option.bind (flag_or a ''idle-timeout'' idle (\<lambda>v. parse_duration_ms v 60000)) (\<lambda>idle_timeout_ms.
       Some \<lparr>fs_name = nm, fs_version = 1, fs_image = img, fs_timeout_ms = word_of_int timeout_ms,
         fs_memory_mb = word_of_int memory_mb, fs_cpu = cpu, fs_max_concurrency = word_of_int max_concurrency,
         fs_idle_timeout_ms = word_of_int idle_timeout_ms\<rparr>)))))"

text \<open>
  Documented behaviour of the JSON library on an object with distinct keys: \<^verbatim>\<open>at\<close> and
  \<^verbatim>\<open>value\<close> find a member that is there, \<^verbatim>\<open>value\<close> gives the default for one that is not.
\<close>

definition member_laws :: "'j json_lib \<Rightarrow> bool" where
  "member_laws lib \<longleftrightarrow> (\<forall>fs. distinct (map fst fs) \<longrightarrow>
       (\<forall>k. j_contains lib (j_object lib fs) k \<longleftrightarrow> k \<in> fst ` set fs)
     \<and> (\<forall>k v. map_of fs k = Some (j_string lib v) \<longrightarrow> j_at_string lib (j_object lib fs) k = Some v)
     \<and> (\<forall>k n d. map_of fs k = Some (j_int lib n) \<longrightarrow> j_value_int lib (j_object lib fs) k d = Some (word_of_int n)
           \<and> (\<forall>e. j_value_long lib (j_object lib fs) k e = Some (word_of_int n)))
     \<and> (\<forall>k x d. map_of fs k = Some (j_double lib x) \<longrightarrow> j_value_double lib (j_object lib fs) k d = Some x)
     \<and> (\<forall>k. map_of fs k = None \<longrightarrow> (\<forall>d. j_value_int lib (j_object lib fs) k d = Some d)
           \<and> (\<forall>d. j_value_long lib (j_object lib fs) k d = Some d) \<and> (\<forall>d. j_value_double lib (j_object lib fs) k d = Some d)))"

lemma member_lawsD:
  assumes "member_laws lib" "distinct (map fst fs)"
  shows "j_contains lib (j_object lib fs) k \<longleftrightarrow> k \<in> fst ` set fs"
    and "map_of fs k = Some (j_string lib v) \<Longrightarrow> j_at_string lib (j_object lib fs) k = Some v"
    and "map_of fs k = Some (j_int lib n) \<Longrightarrow> j_value_int lib (j_object lib fs) k i = Some (word_of_int n)"
    and "map_of fs k = Some (j_int lib n) \<Longrightarrow> j_value_long lib (j_object lib fs) k l = Some (word_of_int n)"
    and "map_of fs k = Some (j_double lib x) \<Longrightarrow> j_value_double lib (j_object lib fs) k e = Some x"
    and "map_of fs k = None \<Longrightarrow> j_value_int lib (j_object lib fs) k i = Some i"
    and "map_of fs k = None \<Longrightarrow> j_value_long lib (j_object lib fs) k l = Some l"
    and "map_of fs k = None \<Longrightarrow> j_value_double lib (j_object lib fs) k e = Some e"
  using assms unfolding member_laws_def by blast+

lemma mj_member_laws: "member_laws (mj_lib\<lparr>j_parse := p\<rparr>)"
  unfolding member_laws_def mj_lib_def
  by (auto simp: mj_field_def dest: weak_map_of_SomeI) (force dest: map_of_SomeD)

text \<open>The request the command builds is read by the deploy handler as what the flags ask for.\<close>

lemma int_member:
  assumes "opt_field a flag key (\<lambda>v. int_field lib (conv v)) = Some f"
  shows "\<exists>n. flag_or a flag d conv = Some n \<and> (f = [] \<and> n = d \<or> f = [(key, j_int lib n)])"
  using assms by (auto simp: opt_field_def flag_or_def int_field_def split: option.splits sum.splits)

lemma double_member:
  assumes "opt_field a flag key (\<lambda>v. case conv v of Inl _ \<Rightarrow> None | Inr x \<Rightarrow> Some (j_double lib x)) = Some f"
  shows "\<exists>x. flag_or a flag d conv = Some x \<and> (f = [] \<and> x = d \<or> f = [(key, j_double lib x)])"
  using assms by (auto simp: opt_field_def flag_or_def split: option.splits sum.splits)

text \<open>A list of members under different keys, each of which is there or not.\<close>

lemma one_of:
  assumes "f = [] \<and> P \<or> f = [(key, j)]"
  shows "k \<noteq> key \<Longrightarrow> map_of f k = None" "map_of f key = None \<and> P \<or> map_of f key = Some j" "\<exists>j. f = [] \<or> f = [(key, j)]"
  using assms by auto

lemma distinct_members:
  "list_all2 (\<lambda>f k. \<exists>j. f = [] \<or> f = [(k, j)]) fss ks \<Longrightarrow> distinct ks \<Longrightarrow>
    distinct (map fst (concat fss)) \<and> fst ` set (concat fss) \<subseteq> set ks"
  by (induction rule: list_all2_induct) (auto, force)

lemma deploy_document_read:
  assumes "member_laws lib" "deploy_fields lib a = Some fs"
  shows "\<exists>spec. asked_spec a nm img idle = Some spec
    \<and> read_spec lib idle (j_object lib ([(''name'', j_string lib nm), (''image'', j_string lib img)] @ fs)) = Some spec
    \<and> distinct (map fst ([(''name'', j_string lib nm), (''image'', j_string lib img)] @ fs))"
proof -
  from assms(2) obtain f1 f2 f3 f4 f5 where f:
    "opt_field a ''timeout'' ''timeout_ms'' (\<lambda>v. int_field lib (parse_duration_ms v 5000)) = Some f1"
    "opt_field a ''memory'' ''memory_mb'' (\<lambda>v. int_field lib (parse_memory_mb v 256)) = Some f2"
    "opt_field a ''cpu'' ''cpu'' (\<lambda>v. case stod v of Inl _ \<Rightarrow> None | Inr x \<Rightarrow> Some (j_double lib x)) = Some f3"
    "opt_field a ''concurrency'' ''max_concurrency'' (\<lambda>v. int_field lib (stoi v)) = Some f4"
    "opt_field a ''idle-timeout'' ''idle_timeout_ms'' (\<lambda>v. int_field lib (parse_duration_ms v 60000)) = Some f5"
    "fs = f1 @ f2 @ f3 @ f4 @ f5"
    by (auto simp: deploy_fields_def bind_eq_Some_conv)
  obtain n1 n2 x n4 n5 where n: "flag_or a ''timeout'' 5000 (\<lambda>v. parse_duration_ms v 5000) = Some n1"
      "flag_or a ''memory'' 256 (\<lambda>v. parse_memory_mb v 256) = Some n2" "flag_or a ''cpu'' 0x3FE0000000000000 stod = Some x"
      "flag_or a ''concurrency'' 1 stoi = Some n4" "flag_or a ''idle-timeout'' idle (\<lambda>v. parse_duration_ms v 60000) = Some n5"
    and m: "f1 = [] \<and> n1 = 5000 \<or> f1 = [(''timeout_ms'', j_int lib n1)]" "f2 = [] \<and> n2 = 256 \<or> f2 = [(''memory_mb'', j_int lib n2)]"
      "f3 = [] \<and> x = 0x3FE0000000000000 \<or> f3 = [(''cpu'', j_double lib x)]"
      "f4 = [] \<and> n4 = 1 \<or> f4 = [(''max_concurrency'', j_int lib n4)]" "f5 = [] \<and> n5 = idle \<or> f5 = [(''idle_timeout_ms'', j_int lib n5)]"
    using int_member [OF f(1), of 5000] int_member [OF f(2), of 256] double_member [OF f(3), of "0x3FE0000000000000"]
      int_member [OF f(4), of 1] int_member [OF f(5), of idle] by blast
  let ?fs = "[(''name'', j_string lib nm), (''image'', j_string lib img)] @ f1 @ f2 @ f3 @ f4 @ f5"
  have d: "distinct (map fst ?fs)"
    using distinct_members [of "[[(''name'', j_string lib nm)], [(''image'', j_string lib img)], f1, f2, f3, f4, f5]"
        "[''name'', ''image'', ''timeout_ms'', ''memory_mb'', ''cpu'', ''max_concurrency'', ''idle_timeout_ms'']"] m [THEN one_of(3)]
    by simp
  note law = member_lawsD [OF assms(1) d]
  note none = one_of(1) [OF m(1)] one_of(1) [OF m(2)] one_of(1) [OF m(3)] one_of(1) [OF m(4)] one_of(1) [OF m(5)]
  have mem: "map_of ?fs ''timeout_ms'' = map_of f1 ''timeout_ms''" "map_of ?fs ''memory_mb'' = map_of f2 ''memory_mb''"
    "map_of ?fs ''cpu'' = map_of f3 ''cpu''" "map_of ?fs ''max_concurrency'' = map_of f4 ''max_concurrency''"
    "map_of ?fs ''idle_timeout_ms'' = map_of f5 ''idle_timeout_ms''" "map_of ?fs ''version'' = None"
    by (simp_all add: none map_add_def split: option.split)
  have "j_at_string lib (j_object lib ?fs) ''name'' = Some nm" "j_at_string lib (j_object lib ?fs) ''image'' = Some img"
    by (rule law(2), simp)+
  moreover have "j_value_int lib (j_object lib ?fs) ''version'' 1 = Some 1" by (rule law(6) [OF mem(6)])
  moreover have "j_value_int lib (j_object lib ?fs) ''timeout_ms'' 5000 = Some (word_of_int n1)"
    using law(3) [of "''timeout_ms''" n1 5000] law(6) [of "''timeout_ms''" 5000] one_of(2) [OF m(1)] unfolding mem by auto
  moreover have "j_value_int lib (j_object lib ?fs) ''memory_mb'' 256 = Some (word_of_int n2)"
    using law(3) [of "''memory_mb''" n2 256] law(6) [of "''memory_mb''" 256] one_of(2) [OF m(2)] unfolding mem by auto
  moreover have "j_value_double lib (j_object lib ?fs) ''cpu'' 0x3FE0000000000000 = Some x"
    using law(5) [of "''cpu''" x "0x3FE0000000000000"] law(8) [of "''cpu''" "0x3FE0000000000000"] one_of(2) [OF m(3)] unfolding mem by auto
  moreover have "j_value_int lib (j_object lib ?fs) ''max_concurrency'' 1 = Some (word_of_int n4)"
    using law(3) [of "''max_concurrency''" n4 1] law(6) [of "''max_concurrency''" 1] one_of(2) [OF m(4)] unfolding mem by auto
  moreover have "j_value_long lib (j_object lib ?fs) ''idle_timeout_ms'' (word_of_int idle) = Some (word_of_int n5)"
    using law(4) [of "''idle_timeout_ms''" n5 "word_of_int idle"] law(7) [of "''idle_timeout_ms''" "word_of_int idle"]
      one_of(2) [OF m(5)] unfolding mem by auto
  ultimately show ?thesis
    using d n unfolding f(6) by (simp add: asked_spec_def read_spec_def)
qed

section \<open>From the command line to the registry\<close>

lemma registered_then_found:
  assumes "upsert_law api ok tbl" "select_law api ok tbl" "ok d" "storable_real (fs_cpu spec)"
  shows "\<exists>d1 d2 now. register_function api spec d = (Inr \<lparr>fn_spec = stored spec, fn_status = FN_READY, fn_created_at = now\<rparr>, d1)
    \<and> registry_get api (fs_name spec) d1 = (Inr (Some \<lparr>fn_spec = stored spec, fn_status = FN_READY, fn_created_at = now\<rparr>), d2)"
proof -
  obtain d1 now where 1: "register_function api spec d =
      (Inr \<lparr>fn_spec = stored spec, fn_status = FN_READY, fn_created_at = now\<rparr>, d1)" "ok d1"
    "tbl d1 = (tbl d)(c_str (fs_name spec) \<mapsto> spec_row spec now)"
    using register_function_ok [OF assms] by blast
  from registry_get_ok [OF assms(2) 1(2), of "fs_name spec"] 1(3) obtain d2 st where
    "on_row api st function_columns (spec_row spec now)" "registry_get api (fs_name spec) d1 = (Inr (Some (row_to_function api st)), d2)" by auto
  with 1(1) show ?thesis by (auto simp: row_to_function_spec_row)
qed

text \<open>
  C6: \<^verbatim>\<open>cloudfn deploy NAME --image IMAGE ...\<close> works from end to end. If the control plane is at the
  other end of the connection, the flags can be converted and the JSON library reads back what it
  wrote, then the command prints that the function is deployed and exits with 0, and in the
  control plane's registry the name now stands for exactly the specification the flags ask for:
  units converted, the double nearest to the CPU share, and the documented defaults for the
  flags that were not given. No runtime is touched.
\<close>
theorem cli_deploy_end_to_end:
  assumes "make_client api_env = Inr (host, port)" "plain_value host"
    and "parse_args argv = a" "positional a = nm # ps" "om_find (flags a) ''image'' = Some img" "img \<noteq> []"
    and "deploy_fields lib a = Some fs" "doc = j_object lib ([(''name'', j_string lib nm), (''image'', j_string lib img)] @ fs)"
    and "j_dump lib doc = Some body" "j_parse lib body = Some doc" "length body < 2 ^ 64"
    and "head_length host ''POST'' ''/functions'' body ''application/json'' + 4100 \<le> 2 ^ 20"
    and "conn = handle_connection (api_routes lib api env be idle) r s"
    and "wired (e_peer cenv (hist w) host (port mod 65536)) r (request_bytes host ''POST'' ''/functions'' body ''application/json'') (fst conn)"
    and "member_laws lib" "upsert_law api ok tbl" "select_law api ok tbl" "ok (pl_db s)"
    and "asked_spec a nm img idle = Some spec" "storable_real (fs_cpu spec)"
    and "\<And>now. j_dump lib (function_to_json lib \<lparr>fn_spec = stored spec, fn_status = FN_READY, fn_created_at = now\<rparr>) \<noteq> None"
  shows "fst (cli_main lib api_env cenv (''deploy'' # argv) w) = says (''deployed '' @ nm @ [LF])
    \<and> (\<exists>now d'. registry_get api nm (pl_db (snd conn)) = (Inr (Some \<lparr>fn_spec = stored spec, fn_status = FN_READY, fn_created_at = now\<rparr>), d')
        \<and> pl_mgr (snd conn) = pl_mgr s)"
proof -
  let ?fs = "[(''name'', j_string lib nm), (''image'', j_string lib img)] @ fs"
  obtain spec' where "asked_spec a nm img idle = Some spec'" "read_spec lib idle doc = Some spec'" "distinct (map fst ?fs)"
    using deploy_document_read [OF assms(15,7), of nm img idle] assms(8) by blast
  then have rs: "read_spec lib idle doc = Some spec" and d: "distinct (map fst ?fs)" using assms(19) by simp_all
  have has: "j_contains lib doc ''name''" "j_contains lib doc ''image''"
    using member_lawsD(1) [OF assms(15) d] by (auto simp: assms(8))
  have nm: "fs_name spec = nm" using assms(19) by (auto simp: asked_spec_def bind_eq_Some_conv)
  let ?fn = "\<lambda>now. \<lparr>fn_spec = stored spec, fn_status = FN_READY, fn_created_at = now\<rparr>"
  obtain d1 d2 now where 1: "register_function api spec (pl_db s) = (Inr (?fn now), d1)" "registry_get api nm d1 = (Inr (Some (?fn now)), d2)"
    using registered_then_found [OF assms(16-18,20)] nm by metis
  obtain answer where ans: "j_dump lib (function_to_json lib (?fn now)) = Some answer" using assms(21) by blast
  let ?req = "\<lparr>rq_method = ''POST'', rq_path = ''/functions'', rq_headers = request_map host body ''application/json'', rq_body = body\<rparr>"
  have "deploy_handler lib api idle ?req [] s = (Returns (response_json 201 answer), s\<lparr>pl_db := d1\<rparr>)"
    using assms(10) has rs 1(1) ans by (simp add: deploy_handler_def json_response_def)
  moreover have "split_path ''/functions'' = [''functions'']" by code_simp
  ultimately have disp: "dispatch (api_routes lib api env be idle) ?req (split_path ''/functions'') False s
      = (Returns (response_json 201 answer), s\<lparr>pl_db := d1\<rparr>)" by (simp add: dispatch_deploy)
  have "plain_word ''/functions''" by (simp add: plain_word_def is_space_def)
  note call = json_call [OF assms(14) [unfolded assms(13)] this assms(2,11,12) disp]
  from call(1) [of 0] obtain w' hs where "request cenv host port ''POST'' ''/functions'' body ''application/json'' 0 w
      = Some (default_response\<lparr>cr_status := 201, cr_headers := hs, cr_body := answer, cr_ok := True\<rparr>, w')" by auto
  then have "fst (cli_main lib api_env cenv (''deploy'' # argv) w) = says (''deployed '' @ nm @ [LF])"
    using assms(1,3-9) by (simp add: cli_main_def cmd_deploy_def with_api_def client_post_def if_ok_def)
  with call(2) 1(2) assms(13) show ?thesis by auto
qed

text \<open>An example, with two units.\<close>

definition deploy_argv :: "string list" where
  "deploy_argv = [''hello'', ''--image'', ''hello:v1'', ''--timeout'', ''2s'', ''--memory'', ''1Gi'']"

definition deploy_doc :: mj where
  "deploy_doc = MO [(''name'', MS ''hello''), (''image'', MS ''hello:v1''), (''timeout_ms'', MI 2000), (''memory_mb'', MI 1024)]"

definition deploy_lib :: "mj json_lib" where
  "deploy_lib = mj_lib\<lparr>j_parse := (\<lambda>s. if s = mj_dump deploy_doc then Some deploy_doc else None)\<rparr>"

definition deploy_spec :: function_spec where
  "deploy_spec = deployed_spec\<lparr>fs_timeout_ms := 2000, fs_memory_mb := 1024\<rparr>"

definition deploy_msg :: string where
  "deploy_msg = request_bytes ''127.0.0.1'' ''POST'' ''/functions'' (mj_dump deploy_doc) ''application/json''"

definition deploy_served :: "conn_result \<times> mem_db plane" where
  "deploy_served = handle_connection (api_routes deploy_lib mem_api demo_env demo_be 60000) (whole deploy_msg) demo_plane"

lemma deploy_lib_laws: "member_laws deploy_lib"
  unfolding deploy_lib_def by (rule mj_member_laws)

lemma deploy_msg_ne: "deploy_msg \<noteq> []"
  by (simp add: deploy_msg_def request_bytes_def Let_def)

lemma deploy_sizes:
  "length deploy_msg \<le> 4096" "length (mj_dump deploy_doc) < 2 ^ 64"
  "head_length ''127.0.0.1'' ''POST'' ''/functions'' (mj_dump deploy_doc) ''application/json'' + 4100 \<le> 2 ^ 20"
  by code_simp+

lemma deploy_example_args:
  "parse_args deploy_argv = \<lparr>positional = [''hello''], flags = [(''image'', ''hello:v1''), (''memory'', ''1Gi''), (''timeout'', ''2s'')]\<rparr>"
  "parse_duration_ms ''2s'' 5000 = Inr 2000" "parse_memory_mb ''1Gi'' 256 = Inr 1024"
  by code_simp+

lemma deploy_example:
  "positional (parse_args deploy_argv) = [''hello'']" "om_find (flags (parse_args deploy_argv)) ''image'' = Some ''hello:v1''"
  "deploy_fields deploy_lib (parse_args deploy_argv) = Some [(''timeout_ms'', MI 2000), (''memory_mb'', MI 1024)]"
  by (simp_all add: deploy_example_args deploy_fields_def opt_field_def int_field_def deploy_lib_def mj_lib_def)

lemma deploy_example_read:
  "j_dump deploy_lib deploy_doc = Some (mj_dump deploy_doc)" "j_parse deploy_lib (mj_dump deploy_doc) = Some deploy_doc"
  by (simp_all add: deploy_lib_def mj_lib_def)

lemma deploy_example_spec: "asked_spec (parse_args deploy_argv) ''hello'' ''hello:v1'' 60000 = Some deploy_spec"
  by (simp add: asked_spec_def flag_or_def deploy_example_args deploy_spec_def deployed_spec_def default_spec_def)

lemma deploy_wired:
  "wired (e_peer (wire_to res) h host port) (whole deploy_msg)
    (request_bytes ''127.0.0.1'' ''POST'' ''/functions'' (mj_dump deploy_doc) ''application/json'') res"
  using wire_to_wired [OF deploy_msg_ne deploy_sizes(1)] by (simp add: deploy_msg_def)

theorem cli_deploy_end_to_end_witness:
  "fst (cli_main deploy_lib None (wire_to (fst deploy_served)) (''deploy'' # deploy_argv) init_world) = says (''deployed '' @ ''hello'' @ [LF])
    \<and> (\<exists>now d'. registry_get mem_api ''hello'' (pl_db (snd deploy_served))
          = (Inr (Some \<lparr>fn_spec = stored deploy_spec, fn_status = FN_READY, fn_created_at = now\<rparr>), d')
        \<and> pl_mgr (snd deploy_served) = pl_mgr demo_plane)"
proof (rule cli_deploy_end_to_end [OF local_client _ refl deploy_example(1,2) _ deploy_example(3) _ deploy_example_read(1,2) deploy_sizes(2,3)
      deploy_served_def deploy_wired deploy_lib_laws mem_upsert mem_select _ deploy_example_spec])
  show "storable_real (fs_cpu deploy_spec)" using deployed_cpu by (simp add: deploy_spec_def)
  show "deploy_doc = j_object deploy_lib ([(''name'', j_string deploy_lib ''hello''), (''image'', j_string deploy_lib ''hello:v1'')]
      @ [(''timeout_ms'', MI 2000), (''memory_mb'', MI 1024)])"
    by (simp add: deploy_doc_def deploy_lib_def mj_lib_def)
qed (simp_all add: plain_value_def mem_empty_ok deploy_lib_def mj_lib_def)

end
