(* ===== verification/Cli_Functions.thy ===== *)
theory Cli_Functions
  imports Cli_Deploy
begin

text \<open>
  \<^verbatim>\<open>cloudfn describe\<close> and \<^verbatim>\<open>cloudfn delete\<close> from the command line to the control plane's database
  and containers, and back to what the commands print.
\<close>

section \<open>A call about one function\<close>

text \<open>The two calls about one function that have no body, with an answer in JSON or an empty one.\<close>

definition function_path :: "string \<Rightarrow> string" where
  "function_path nm = ''/functions/'' @ nm"

lemma function_path_facts:
  assumes "plain_segment nm" "plain_word nm"
  shows "plain_word (function_path nm)" "split_path (function_path nm) = [''functions'', nm]"
proof -
  show "plain_word (function_path nm)" using assms(2) by (simp add: function_path_def plain_word_def is_space_def)
  have "function_path nm = path_of [''functions'', nm] @ []" by (simp add: function_path_def path_of_def)
  then show "split_path (function_path nm) = [''functions'', nm]"
    using split_path_path_of [of "[''functions'', nm]" "[]"] assms(1) by (simp add: plain_segment_def)
qed

lemma function_call:
  assumes "wired (e_peer cenv (hist w) host (port mod 65536)) r (request_bytes host m (function_path nm) [] [])
      (fst (handle_connection routes r s))"
    and "m \<in> {''GET'', ''DELETE''}" "plain_segment nm" "plain_word nm" "plain_value host"
    and "head_length host m (function_path nm) [] [] + 4100 \<le> 2 ^ 20"
    and "dispatch routes \<lparr>rq_method = m, rq_path = function_path nm, rq_headers = request_map host [] [], rq_body = []\<rparr> [''functions'', nm] False s
          = (Returns resp, s')"
    and "resp = response_json st doc \<or> resp = response_empty st" "0 \<le> st" "st < 2 ^ 31"
  shows "\<exists>w' hs. request cenv host port m (function_path nm) [] [] t w
      = Some (default_response\<lparr>cr_status := st, cr_headers := hs, cr_body := rp_body resp, cr_ok := True\<rparr>, w')"
    and "snd (handle_connection routes r s) = s'"
proof -
  have m: "plain_word m" "plain_value []" using assms(2) by (auto simp: plain_word_def plain_value_def is_space_def)
  have resp: "rp_status resp = st" "om_ok (rp_headers resp)" "list_all plain_header (rp_headers resp)"
    using assms(8) response_json_plain [of st doc] by (auto simp: response_json_def response_empty_def default_reply_def)
  note call = api_call [OF assms(1) m(1) function_path_facts(1) [OF assms(3,4)] assms(5) m(2) _ assms(6)
      assms(7) [folded function_path_facts(2) [OF assms(3,4)]] _ _ resp(2,3), unfolded resp(1), OF _ assms(9,10)]
  show "\<exists>w' hs. request cenv host port m (function_path nm) [] [] t w
      = Some (default_response\<lparr>cr_status := st, cr_headers := hs, cr_body := rp_body resp, cr_ok := True\<rparr>, w')"
    using call(1) [of t] by simp blast
  show "snd (handle_connection routes r s) = s'" using call(2) by simp
qed

section \<open>What the control plane answers about a function\<close>

lemma dispatch_describe:
  "rq_method req = ''GET'' \<Longrightarrow>
    dispatch (api_routes lib api env be idle) req [''functions'', nm] False s = describe_handler lib api req [nm] s"
  by (simp add: api_routes_def make_route_def split_path_def match_route_def is_param_def)

lemma dispatch_delete:
  "rq_method req = ''DELETE'' \<Longrightarrow>
    dispatch (api_routes lib api env be idle) req [''functions'', nm] False s = delete_handler lib api be req [nm] s"
  by (simp add: api_routes_def make_route_def split_path_def match_route_def is_param_def)

text \<open>An error document of the control plane, as the client reports it.\<close>

definition error_doc :: "'j json_lib \<Rightarrow> string \<Rightarrow> 'j" where
  "error_doc lib message = j_object lib [(''error'', j_string lib message)]"

lemma error_doc_answer:
  assumes "object_laws lib" "readable lib (error_doc lib message)"
  shows "\<exists>doc. error_response lib st message = Returns (response_json st doc)
    \<and> (\<forall>resp. cr_ok resp \<and> cr_body resp = doc \<longrightarrow> print_api_error lib resp = ''error: '' @ message @ [LF])"
proof -
  obtain doc where doc: "j_dump lib (error_doc lib message) = Some doc" "j_parse lib doc = Some (error_doc lib message)"
    using assms(2) by (auto simp: readable_def split: option.splits)
  have "j_value_string lib (error_doc lib message) ''error'' d = Some message" for d
    unfolding error_doc_def by (rule object_law(1) [OF assms(1)]) simp_all
  with doc show ?thesis by (auto simp: error_response_def json_response_def print_api_error_def error_doc_def)
qed

text \<open>
  What \<^verbatim>\<open>cloudfn describe\<close> prints. The idle timeout is a \<^verbatim>\<open>long\<close> that the client reads as an \<^verbatim>\<open>int\<close>.
\<close>

definition printed_function :: "function_rec \<Rightarrow> string" where
  "printed_function fn =
     ''Name:        '' @ fs_name (fn_spec fn) @ [LF]
     @ ''Version:     '' @ show_int (sint (fs_version (fn_spec fn))) @ [LF]
     @ ''Image:       '' @ fs_image (fn_spec fn) @ [LF]
     @ ''Timeout:     '' @ show_int (sint (fs_timeout_ms (fn_spec fn))) @ ''ms'' @ [LF]
     @ ''Memory:      '' @ show_int (sint (fs_memory_mb (fn_spec fn))) @ ''Mi'' @ [LF]
     @ ''CPU:         '' @ double_text (fs_cpu (fn_spec fn)) @ [LF]
     @ ''Concurrency: '' @ show_int (sint (fs_max_concurrency (fn_spec fn))) @ [LF]
     @ ''Idle timeout: '' @ show_int (sint (word_of_int (sint (fs_idle_timeout_ms (fn_spec fn))) :: c_int)) @ ''ms'' @ [LF]
     @ ''Status:      '' @ function_status_to_string (fn_status fn) @ [LF]"

lemma function_document_read:
  assumes "object_laws lib" "member_laws lib"
  shows "describe_output lib (function_to_json lib fn) = Some (printed_function fn)"
  by (simp add: describe_output_def function_to_json_def line_def show_c_int_def printed_function_def
      object_law(1,2) [OF assms(1)] member_lawsD(5) [OF assms(2)])

lemma describe_answer:
  assumes "select_law api ok tbl" "ok (pl_db s)" "rows_ours (tbl (pl_db s)) fns" "fns (c_str nm) = Some fn"
  shows "\<exists>s'. describe_handler lib api req [nm] s = (json_response lib 200 (function_to_json lib fn), s')
    \<and> pl_mgr s' = pl_mgr s \<and> tbl (pl_db s') = tbl (pl_db s)"
  using registry_get_ours [OF assms(1-3), of nm] assms(4) by (auto simp: describe_handler_def)

lemma one_name: "\<not> prefix ''--'' nm \<Longrightarrow> parse_args [nm] = \<lparr>positional = [nm], flags = []\<rparr>"
  by (simp add: parse_args_def)

lemma command_prints:
  assumes "make_client api_env = Inr (host, port)" "\<not> prefix ''--'' nm"
  shows "request cenv host port ''GET'' (function_path nm) [] [] 0 w = Some (resp, w') \<Longrightarrow>
      fst (cli_main lib api_env cenv [''describe'', nm] w)
      = if_ok lib (\<lambda>resp. or_throw 0 (Option.bind (j_parse lib (cr_body resp)) (describe_output lib))) resp"
    and "request cenv host port ''DELETE'' (function_path nm) [] [] 0 w = Some (resp, w') \<Longrightarrow>
      fst (cli_main lib api_env cenv [''delete'', nm] w) = if_ok lib (\<lambda>resp. says (''deleted '' @ nm @ [LF])) resp"
  using assms
  by (simp_all add: cli_main_def one_name cmd_describe_def cmd_delete_def with_api_def client_get_def client_del_def function_path_def)

lemma unknown_reported:
  assumes "object_laws lib" "readable lib (error_doc lib message)" "error_response lib 404 message = Returns (response_json 404 doc)"
    and "resp = default_response\<lparr>cr_status := 404, cr_headers := hs, cr_body := doc, cr_ok := True\<rparr>"
  shows "if_ok lib k resp = fails (''error: '' @ message @ [LF])"
proof -
  obtain doc' where "error_response lib 404 message = Returns (response_json 404 doc')"
    "\<And>resp. cr_ok resp \<Longrightarrow> cr_body resp = doc' \<Longrightarrow> print_api_error lib resp = ''error: '' @ message @ [LF]"
    using error_doc_answer [OF assms(1,2), of 404] by blast
  moreover from this(1) assms(3) have "doc' = doc" by (simp add: response_json_def default_reply_def)
  ultimately show ?thesis using assms(4) by (simp add: if_ok_def)
qed

section \<open>From end to end\<close>

text \<open>
  C8: \<^verbatim>\<open>cloudfn describe NAME\<close> works from end to end. If the control plane is at the other end of
  the connection, the command prints exactly the registered function: its name, version,
  image, limits, the CPU share to six digits, and its status, and exits with 0; for a name that
  is not registered it reports that on standard error and exits with 1. Nothing is changed.
\<close>
theorem cli_describe_end_to_end:
  assumes "make_client api_env = Inr (host, port)" "plain_value host" "plain_segment nm" "plain_word nm" "\<not> prefix ''--'' nm"
    and "head_length host ''GET'' (function_path nm) [] [] + 4100 \<le> 2 ^ 20"
    and "conn = handle_connection (api_routes lib api env be idle) r s"
    and "wired (e_peer cenv (hist w) host (port mod 65536)) r (request_bytes host ''GET'' (function_path nm) [] []) (fst conn)"
    and "object_laws lib" "member_laws lib" "readable lib (error_doc lib (''function not found: '' @ nm))"
    and "\<And>fn. fns (c_str nm) = Some fn \<Longrightarrow> readable lib (function_to_json lib fn)"
    and "select_law api ok tbl" "delete_law api ok tbl" "ok (pl_db s)" "rows_ours (tbl (pl_db s)) fns"
  shows "fst (cli_main lib api_env cenv [''describe'', nm] w) =
      (case fns (c_str nm) of
         Some fn \<Rightarrow> says (printed_function fn)
       | None \<Rightarrow> fails (''error: '' @ (''function not found: '' @ nm) @ [LF]))
    \<and> pl_mgr (snd conn) = pl_mgr s \<and> tbl (pl_db (snd conn)) = tbl (pl_db s)"
proof -
  let ?req = "\<lparr>rq_method = ''GET'', rq_path = function_path nm, rq_headers = request_map host [] [], rq_body = []\<rparr>"
  note prints = command_prints(1) [OF assms(1,5), where lib = lib]
  have reach: "(\<exists>w' hs. request cenv host port ''GET'' (function_path nm) [] [] 0 w
        = Some (default_response\<lparr>cr_status := st, cr_headers := hs, cr_body := doc, cr_ok := True\<rparr>, w')) \<and> snd conn = s'"
    if "describe_handler lib api ?req [nm] s = (Returns (response_json st doc), s')" "st \<in> {200, 404}" for st doc s'
    using function_call [OF assms(8) [unfolded assms(7)] _ assms(3,4,2,6), where resp = "response_json st doc" and st = st and doc = doc and s' = s']
      that assms(7) by (auto simp: dispatch_describe response_json_def)
  show ?thesis
  proof (cases "fns (c_str nm)")
    case None
    then have "tbl (pl_db s) (c_str nm) = None" using rows_ours_None [OF assms(16)] by blast
    from unknown_answered [OF assms(13-15) this, of "describe_handler lib api" lib be env ?req]
    obtain s' where s': "describe_handler lib api ?req [nm] s = (error_response lib 404 (''function not found: '' @ nm), s')"
      "pl_mgr s' = pl_mgr s" "tbl (pl_db s') = tbl (pl_db s)" by auto
    obtain doc where doc: "error_response lib 404 (''function not found: '' @ nm) = Returns (response_json 404 doc)"
      using error_doc_answer [OF assms(9,11), of 404] by blast
    from reach [OF s'(1) [unfolded doc]] obtain w' hs where req: "request cenv host port ''GET'' (function_path nm) [] [] 0 w
        = Some (default_response\<lparr>cr_status := 404, cr_headers := hs, cr_body := doc, cr_ok := True\<rparr>, w')" "snd conn = s'" by auto
    have "fst (cli_main lib api_env cenv [''describe'', nm] w) = fails (''error: '' @ (''function not found: '' @ nm) @ [LF])"
      by (rule trans [OF prints [OF req(1)] unknown_reported [OF assms(9,11) doc refl]])
    with s'(2,3) req(2) None show ?thesis by simp
  next
    case (Some fn)
    obtain doc where doc: "j_dump lib (function_to_json lib fn) = Some doc" "j_parse lib doc = Some (function_to_json lib fn)"
      using assms(12) [OF Some] by (auto simp: readable_def split: option.splits)
    obtain s' where s': "describe_handler lib api ?req [nm] s = (Returns (response_json 200 doc), s')"
      "pl_mgr s' = pl_mgr s" "tbl (pl_db s') = tbl (pl_db s)"
      using describe_answer [OF assms(13,15,16) Some, of lib ?req] doc(1) by (auto simp: json_response_def)
    from reach [OF s'(1)] obtain w' hs where req: "request cenv host port ''GET'' (function_path nm) [] [] 0 w
        = Some (default_response\<lparr>cr_status := 200, cr_headers := hs, cr_body := doc, cr_ok := True\<rparr>, w')" "snd conn = s'" by auto
    with s'(2,3) prints [OF req(1)] doc(2) Some function_document_read [OF assms(9,10)] show ?thesis by (simp add: if_ok_def or_throw_def says_def)
  qed
qed

text \<open>
  C7: \<^verbatim>\<open>cloudfn delete NAME\<close> works from end to end. If the control plane is at the other end of the
  connection and the function is registered, the command says that it is deleted and exits
  with 0; the registry then does not have it, no runtime is tracked for it, and the removal
  command was issued on the container it had. For a name that is not registered the
  command reports that and exits with 1, and nothing is changed.
\<close>
theorem cli_delete_end_to_end:
  assumes "make_client api_env = Inr (host, port)" "plain_value host" "plain_segment nm" "plain_word nm" "\<not> prefix ''--'' nm"
    and "head_length host ''DELETE'' (function_path nm) [] [] + 4100 \<le> 2 ^ 20"
    and "conn = handle_connection (api_routes lib api env (make_runtime_backend kind env) idle) r s"
    and "wired (e_peer cenv (hist w) host (port mod 65536)) r (request_bytes host ''DELETE'' (function_path nm) [] []) (fst conn)"
    and "object_laws lib" "readable lib (error_doc lib (''function not found: '' @ nm))"
    and "select_law api ok tbl" "delete_law api ok tbl" "ok (pl_db s)" "mgr_ok (pl_mgr s)"
  shows "if tbl (pl_db s) (c_str nm) = None
    then fst (cli_main lib api_env cenv [''delete'', nm] w) = fails (''error: '' @ (''function not found: '' @ nm) @ [LF])
      \<and> pl_mgr (snd conn) = pl_mgr s \<and> tbl (pl_db (snd conn)) = tbl (pl_db s)
    else fst (cli_main lib api_env cenv [''delete'', nm] w) = says (''deleted '' @ nm @ [LF])
      \<and> (\<exists>d'. registry_get api nm (pl_db (snd conn)) = (Inr None, d')) \<and> om_find (runtimes (pl_mgr (snd conn))) nm = None
      \<and> (\<forall>rt. om_find (runtimes (pl_mgr s)) nm = Some rt \<longrightarrow>
           Shell (rm_command kind (container_id rt)) \<in> set (new_effects (mworld (pl_mgr s)) (mworld (pl_mgr (snd conn)))))"
proof -
  let ?req = "\<lparr>rq_method = ''DELETE'', rq_path = function_path nm, rq_headers = request_map host [] [], rq_body = []\<rparr>"
  let ?be = "make_runtime_backend kind env"
  note prints = command_prints(2) [OF assms(1,5), where lib = lib]
  have reach: "(\<exists>w' hs. request cenv host port ''DELETE'' (function_path nm) [] [] 0 w
        = Some (default_response\<lparr>cr_status := st, cr_headers := hs, cr_body := rp_body resp, cr_ok := True\<rparr>, w')) \<and> snd conn = s'"
    if "delete_handler lib api ?be ?req [nm] s = (Returns resp, s')" "resp = response_json st doc \<or> resp = response_empty st"
      "st \<in> {204, 404}" for st doc s' resp
    using function_call [OF assms(8) [unfolded assms(7)] _ assms(3,4,2,6), where resp = resp and st = st and doc = doc and s' = s']
      that assms(7) by (auto simp: dispatch_delete)
  show ?thesis
  proof (cases "tbl (pl_db s) (c_str nm)")
    case None
    from unknown_answered [OF assms(11-13) None, of "delete_handler lib api ?be" lib ?be env ?req]
    obtain s' where s': "delete_handler lib api ?be ?req [nm] s = (error_response lib 404 (''function not found: '' @ nm), s')"
      "pl_mgr s' = pl_mgr s" "tbl (pl_db s') = tbl (pl_db s)" by auto
    obtain doc where doc: "error_response lib 404 (''function not found: '' @ nm) = Returns (response_json 404 doc)"
      using error_doc_answer [OF assms(9,10), of 404] by blast
    from reach [OF s'(1) [unfolded doc], of 404 doc] obtain w' hs where req: "request cenv host port ''DELETE'' (function_path nm) [] [] 0 w
        = Some (default_response\<lparr>cr_status := 404, cr_headers := hs, cr_body := doc, cr_ok := True\<rparr>, w')" "snd conn = s'"
      by (auto simp: response_json_def)
    have "fst (cli_main lib api_env cenv [''delete'', nm] w) = fails (''error: '' @ (''function not found: '' @ nm) @ [LF])"
      by (rule trans [OF prints [OF req(1)] unknown_reported [OF assms(9,10) doc refl]])
    with s'(2,3) req(2) None show ?thesis by simp
  next
    case (Some row)
    then have "tbl (pl_db s) (c_str nm) \<noteq> None" by simp
    from delete_removes_function_and_runtime [OF assms(12,11,13,14) this, of lib kind env ?req]
    obtain s' d' where s': "delete_handler lib api ?be ?req [nm] s = (Returns (response_empty 204), s')"
      "registry_get api nm (pl_db s') = (Inr None, d')" "om_find (runtimes (pl_mgr s')) nm = None"
      "case om_find (runtimes (pl_mgr s)) nm of None \<Rightarrow> True
       | Some rt \<Rightarrow> Shell (rm_command kind (container_id rt)) \<in> set (new_effects (mworld (pl_mgr s)) (mworld (pl_mgr s')))" by blast
    from reach [OF s'(1), of 204] obtain w' hs where req: "request cenv host port ''DELETE'' (function_path nm) [] [] 0 w
        = Some (default_response\<lparr>cr_status := 204, cr_headers := hs, cr_body := rp_body (response_empty 204), cr_ok := True\<rparr>, w')"
      "snd conn = s'" by auto
    with s' prints [OF req(1)] Some show ?thesis by (auto simp: if_ok_def)
  qed
qed


text \<open>An example: the control plane has one function, with a warm container.\<close>

definition described_lib :: "mj json_lib" where
  "described_lib = mj_lib\<lparr>j_parse := (\<lambda>s. List.find (\<lambda>j. mj_dump j = s)
     [function_to_json mj_lib \<lparr>fn_spec = stored deployed_spec, fn_status = FN_READY, fn_created_at = 0\<rparr>,
      error_doc mj_lib ''function not found: hello''])\<rparr>"

definition function_msg :: "string \<Rightarrow> string" where
  "function_msg m = request_bytes ''127.0.0.1'' m (function_path ''hello'') [] []"

lemma described_lib_laws: "object_laws described_lib" "member_laws described_lib"
  unfolding described_lib_def by (rule mj_object_laws mj_member_laws)+

lemma described_readable:
  "readable described_lib (error_doc described_lib (''function not found: '' @ ''hello''))"
  "readable described_lib (function_to_json described_lib \<lparr>fn_spec = stored deployed_spec, fn_status = FN_READY, fn_created_at = now\<rparr>)"
  by (simp_all add: readable_def described_lib_def error_doc_def function_to_json_def mj_lib_def)

lemma function_msg_size:
  "length (function_msg ''GET'') \<le> 4096" "length (function_msg ''DELETE'') \<le> 4096"
  "head_length ''127.0.0.1'' ''GET'' (function_path ''hello'') [] [] + 4100 \<le> 2 ^ 20"
  "head_length ''127.0.0.1'' ''DELETE'' (function_path ''hello'') [] [] + 4100 \<le> 2 ^ 20"
  by code_simp+

lemma function_msg_ne: "function_msg m \<noteq> []"
  by (simp add: function_msg_def request_bytes_def Let_def)

lemma c_str_hello: "c_str ''hello'' = ''hello''"
  by (simp add: c_str_def)

definition described_server :: "string \<Rightarrow> mem_db \<Rightarrow> conn_result \<times> mem_db plane" where
  "described_server m d = handle_connection (api_routes described_lib mem_api demo_env demo_be 60000) (whole (function_msg m)) \<lparr>pl_db = d, pl_mgr = demo_warm\<rparr>"

lemma described_db:
  "\<exists>d now. mem_ok d \<and> mem_tbl d ''hello'' \<noteq> None
    \<and> rows_ours (mem_tbl d) (Map.empty(''hello'' \<mapsto> \<lparr>fn_spec = stored deployed_spec, fn_status = FN_READY, fn_created_at = now\<rparr>))"
proof -
  obtain d now where d: "mem_ok d" "mem_tbl d = (mem_tbl mem_empty)(c_str (fs_name deployed_spec) \<mapsto> spec_row deployed_spec now)"
    using register_function_ok [OF mem_upsert mem_select mem_empty_ok(1) deployed_cpu] by blast
  moreover have "rows_ours (mem_tbl mem_empty) Map.empty" by (simp add: rows_ours_def mem_empty_ok)
  moreover have "c_str (fs_name deployed_spec) = ''hello''" by (simp add: deployed_spec_def c_str_hello)
  ultimately show ?thesis using rows_ours_put [of "mem_tbl mem_empty" Map.empty deployed_spec "''hello''" now]
    by (intro exI [of _ d] exI [of _ now]) simp
qed

lemma function_msg_wired:
  "wired (e_peer (wire_to res) h host port) (whole (function_msg ''GET'')) (request_bytes ''127.0.0.1'' ''GET'' (function_path ''hello'') [] []) res"
  "wired (e_peer (wire_to res) h host port) (whole (function_msg ''DELETE'')) (request_bytes ''127.0.0.1'' ''DELETE'' (function_path ''hello'') [] []) res"
  using wire_to_wired [OF function_msg_ne function_msg_size(1)] wire_to_wired [OF function_msg_ne function_msg_size(2)]
  by (simp_all add: function_msg_def)

theorem cli_describe_end_to_end_witness:
  "\<exists>d now. fst (cli_main described_lib None (wire_to (fst (described_server ''GET'' d))) [''describe'', ''hello''] init_world)
      = says (printed_function \<lparr>fn_spec = stored deployed_spec, fn_status = FN_READY, fn_created_at = now\<rparr>)
    \<and> pl_mgr (snd (described_server ''GET'' d)) = demo_warm"
proof -
  obtain d now where d: "mem_ok d"
    "rows_ours (mem_tbl d) (Map.empty(''hello'' \<mapsto> \<lparr>fn_spec = stored deployed_spec, fn_status = FN_READY, fn_created_at = now\<rparr>))"
    using described_db by blast
  let ?s = "\<lparr>pl_db = d, pl_mgr = demo_warm\<rparr>"
  have "mem_ok (pl_db ?s)" "rows_ours (mem_tbl (pl_db ?s)) (Map.empty(''hello'' \<mapsto> \<lparr>fn_spec = stored deployed_spec, fn_status = FN_READY, fn_created_at = now\<rparr>))"
    using d by simp_all
  from cli_describe_end_to_end [OF local_client hello_names(1-4) function_msg_size(3) described_server_def function_msg_wired(1) described_lib_laws
      described_readable(1) _ mem_select mem_delete this, where w = init_world]
  have "fst (cli_main described_lib None (wire_to (fst (described_server ''GET'' d))) [''describe'', ''hello''] init_world)
      = says (printed_function \<lparr>fn_spec = stored deployed_spec, fn_status = FN_READY, fn_created_at = now\<rparr>)
    \<and> pl_mgr (snd (described_server ''GET'' d)) = demo_warm"
    using described_readable(2) by (simp add: c_str_hello)
  then show ?thesis by blast
qed

theorem cli_delete_end_to_end_witness:
  "\<exists>d d'. fst (cli_main described_lib None (wire_to (fst (described_server ''DELETE'' d))) [''delete'', ''hello''] init_world)
      = says (''deleted '' @ ''hello'' @ [LF])
    \<and> registry_get mem_api ''hello'' (pl_db (snd (described_server ''DELETE'' d))) = (Inr None, d')
    \<and> Shell (rm_command None ''abc123'') \<in> set (new_effects (mworld demo_warm) (mworld (pl_mgr (snd (described_server ''DELETE'' d)))))"
proof -
  obtain d where d: "mem_ok d" "mem_tbl d ''hello'' \<noteq> None" using described_db by blast
  let ?s = "\<lparr>pl_db = d, pl_mgr = demo_warm\<rparr>"
  have "mem_ok (pl_db ?s)" "mgr_ok (pl_mgr ?s)" using d demo_warm_ok by simp_all
  from cli_delete_end_to_end [OF local_client hello_names(1-4) function_msg_size(4) described_server_def function_msg_wired(2) described_lib_laws(1)
      described_readable(1) mem_select mem_delete this, where w = init_world] d(2)
  show ?thesis using demo_warm_find by (auto simp: c_str_hello demo_spec_def demo_runtime_def)
qed

end
