(* ===== verification/Critical_Sections.thy ===== *)
theory Critical_Sections
  imports Invocation_Store
begin

text \<open>
  Critical sections, one library call at a time. A \<^verbatim>\<open>Statement\<close> locks the database's mutex in its
  constructor and releases it in its destructor, after the statement has been finalised; so
  does \<^verbatim>\<open>Database::exec\<close> with a guard. Everywhere else in this library such a section is one step.
  Here the threads interleave at every single call of SQLite, and the sections are shown to
  behave as one step nevertheless.
\<close>

section \<open>Definitions\<close>

subsection \<open>Programs in single calls\<close>

text \<open>A program over a shared state: it returns, or makes one call and goes on.\<close>

datatype ('s, 'r) prog = Return 'r | Call "'s \<Rightarrow> ('s, 'r) prog \<times> 's"

primrec run :: "('s, 'r) prog \<Rightarrow> 's \<Rightarrow> 'r \<times> 's" where
  "run (Return r) = (\<lambda>s. (r, s))"
| "run (Call f) = (\<lambda>s. case (map_prod run id \<circ> f) s of (g, s') \<Rightarrow> g s')"

primrec seq :: "('s, 'a) prog \<Rightarrow> ('a \<Rightarrow> ('s, 'b) prog) \<Rightarrow> ('s, 'b) prog" where
  "seq (Return a) k = k a"
| "seq (Call f) k = Call (map_prod (\<lambda>p. seq p k) id \<circ> f)"

definition call :: "('s \<Rightarrow> 'a \<times> 's) \<Rightarrow> ('s, 'a) prog" where
  "call f = Call (map_prod Return id \<circ> f)"

subsection \<open>The connection and its statements\<close>

text \<open>The connection, and how many statements are prepared on it and not yet finalised.\<close>

record 'd connection =
  cn_db :: 'd
  cn_open :: nat

definition stmt_open :: "('d, 'st) sqlite3 \<Rightarrow> string \<Rightarrow> 'd connection \<Rightarrow> (string + 'st) \<times> 'd connection" where
  "stmt_open api sql c =
     (case stmt_new api sql (cn_db c) of
        Inl e \<Rightarrow> (Inl e, c)
      | Inr st \<Rightarrow> (Inr st, c\<lparr>cn_open := cn_open c + 1\<rparr>))"

definition stmt_finalize :: "'d connection \<Rightarrow> unit \<times> 'd connection" where
  "stmt_finalize c = ((), c\<lparr>cn_open := cn_open c - 1\<rparr>)"

definition stmt_advance :: "('d, 'st) sqlite3 \<Rightarrow> 'st \<Rightarrow> 'd connection \<Rightarrow> ((string + bool) \<times> 'st) \<times> 'd connection" where
  "stmt_advance api st c = (case stmt_step api (cn_db c) st of (x, d', st') \<Rightarrow> ((x, st'), c\<lparr>cn_db := d'\<rparr>))"

text \<open>\<^verbatim>\<open>sqlite3_close\<close> refuses while a statement is not finalised.\<close>

definition db_close :: "'d connection \<Rightarrow> bool" where
  "db_close c \<longleftrightarrow> cn_open c = 0"

text \<open>
  The lifetime of a \<^verbatim>\<open>Statement\<close>: when the constructor throws there is nothing to finalise; when
  the body returns or throws, the destructor finalises.
\<close>

definition statement :: "('d, 'st) sqlite3 \<Rightarrow> string \<Rightarrow> ('st \<Rightarrow> ('d connection, string + 'a) prog) \<Rightarrow> ('d connection, string + 'a) prog" where
  "statement api sql body =
     seq (call (stmt_open api sql)) (\<lambda>x. case x of
         Inl e \<Rightarrow> Return (Inl e)
       | Inr st \<Rightarrow> seq (body st) (\<lambda>r. seq (call stmt_finalize) (\<lambda>_. Return r)))"

text \<open>A call that reads or changes only the statement.\<close>

definition on_stmt :: "'a \<Rightarrow> ('s, 'a) prog" where
  "on_stmt x = call (\<lambda>c. (x, c))"

text \<open>\<^verbatim>\<open>Statement::step\<close>, and what follows it when it does not throw.\<close>

definition stepping :: "('d, 'st) sqlite3 \<Rightarrow> 'st \<Rightarrow> (bool \<Rightarrow> 'st \<Rightarrow> ('d connection, string + 'a) prog) \<Rightarrow> ('d connection, string + 'a) prog" where
  "stepping api st k = seq (call (stmt_advance api st)) (\<lambda>(x, st'). case x of Inl e \<Rightarrow> Return (Inl e) | Inr row \<Rightarrow> k row st')"

subsection \<open>The sections of the stores\<close>

definition exec_section :: "('d, 'st) sqlite3 \<Rightarrow> string \<Rightarrow> ('d connection, string + unit) prog" where
  "exec_section api sql = call (\<lambda>c. case db_exec api sql (cn_db c) of (x, d') \<Rightarrow> (x, c\<lparr>cn_db := d'\<rparr>))"

definition insert_section :: "('d, 'st) sqlite3 \<Rightarrow> function_spec \<Rightarrow> ('d connection, string + unit) prog" where
  "insert_section api spec = statement api kUpsertSql (\<lambda>st0.
     seq (on_stmt (bind_text api 1 (fs_name spec) st0)) (\<lambda>st1.
     seq (on_stmt (bind_long api 2 (scast (fs_version spec)) st1)) (\<lambda>st2.
     seq (on_stmt (bind_text api 3 (fs_image spec) st2)) (\<lambda>st3.
     seq (on_stmt (bind_long api 4 (scast (fs_timeout_ms spec)) st3)) (\<lambda>st4.
     seq (on_stmt (bind_long api 5 (scast (fs_memory_mb spec)) st4)) (\<lambda>st5.
     seq (on_stmt (bind_double api 6 (fs_cpu spec) st5)) (\<lambda>st6.
     seq (on_stmt (bind_long api 7 (scast (fs_max_concurrency spec)) st6)) (\<lambda>st7.
     seq (on_stmt (bind_long api 8 (fs_idle_timeout_ms spec) st7)) (\<lambda>st8.
     seq (on_stmt (bind_text api 9 (function_status_to_string FN_READY) st8)) (\<lambda>st9.
       stepping api st9 (\<lambda>row st. Return (Inr ()))))))))))))"

definition get_section :: "('d, 'st) sqlite3 \<Rightarrow> string \<Rightarrow> ('d connection, string + function_rec option) prog" where
  "get_section api nm = statement api kSelectOneSql (\<lambda>st0.
     seq (on_stmt (bind_text api 1 nm st0)) (\<lambda>st1.
       stepping api st1 (\<lambda>row st.
         if \<not> row then Return (Inr None)
         else seq (on_stmt (row_to_function api st)) (\<lambda>fn. Return (Inr (Some fn))))))"

definition remove_section :: "('d, 'st) sqlite3 \<Rightarrow> string \<Rightarrow> ('d connection, string + bool) prog" where
  "remove_section api nm = statement api kDeleteSql (\<lambda>st0.
     seq (on_stmt (bind_text api 1 nm st0)) (\<lambda>st1.
       stepping api st1 (\<lambda>row st.
         seq (call (\<lambda>c. (db_changes api (cn_db c), c))) (\<lambda>n. Return (Inr (0 < n))))))"

definition record_section ::
  "('d, 'st) sqlite3 \<Rightarrow> string \<Rightarrow> string \<Rightarrow> string \<Rightarrow> string \<Rightarrow> c_long \<Rightarrow> bool \<Rightarrow> ('d connection, string + string) prog" where
  "record_section api function_name input status out duration_ms cold_start = statement api kInsertInvocationSql (\<lambda>st0.
     seq (on_stmt (bind_text api 1 function_name st0)) (\<lambda>st1.
     seq (on_stmt (bind_text api 2 input st1)) (\<lambda>st2.
     seq (on_stmt (bind_text api 3 out st2)) (\<lambda>st3.
     seq (on_stmt (bind_text api 4 status st3)) (\<lambda>st4.
     seq (on_stmt (bind_long api 5 duration_ms st4)) (\<lambda>st5.
     seq (on_stmt (bind_long api 6 (if cold_start then 1 else 0) st5)) (\<lambda>st6.
       stepping api st6 (\<lambda>row st.
         seq (call (\<lambda>c. (db_last_insert_id api (cn_db c), c))) (\<lambda>i. Return (Inr (show_int (sint i))))))))))))"

text \<open>An id that is no number takes no lock: the program has no call.\<close>

definition lookup_section :: "('d, 'st) sqlite3 \<Rightarrow> string \<Rightarrow> ('d connection, string + invocation_record option) prog" where
  "lookup_section api i =
     (case stol i of
        Inl _ \<Rightarrow> Return (Inr None)
      | Inr numeric_id \<Rightarrow> statement api kSelectInvocationSql (\<lambda>st0.
          seq (on_stmt (bind_long api 1 (word_of_int numeric_id) st0)) (\<lambda>st1.
            stepping api st1 (\<lambda>row st.
              if \<not> row then Return (Inr None)
              else seq (on_stmt (row_to_record api st)) (\<lambda>rec. Return (Inr (Some rec)))))))"

datatype db_op = ExecOp string | InsertOp function_spec | FetchOp string | DeleteOp string
  | RecordOp string string string string c_long bool | LookupOp string

datatype db_result = Executed "string + unit" | Fetched "string + function_rec option" | Deleted "string + bool"
  | Recorded "string + string" | Looked "string + invocation_record option"

fun op_section :: "('d, 'st) sqlite3 \<Rightarrow> db_op \<Rightarrow> ('d connection, db_result) prog" where
  "op_section api (ExecOp sql) = seq (exec_section api sql) (\<lambda>x. Return (Executed x))"
| "op_section api (InsertOp spec) = seq (insert_section api spec) (\<lambda>x. Return (Executed x))"
| "op_section api (FetchOp nm) = seq (get_section api nm) (\<lambda>x. Return (Fetched x))"
| "op_section api (DeleteOp nm) = seq (remove_section api nm) (\<lambda>x. Return (Deleted x))"
| "op_section api (RecordOp nm inp st out dur cold) = seq (record_section api nm inp st out dur cold) (\<lambda>x. Return (Recorded x))"
| "op_section api (LookupOp i) = seq (lookup_section api i) (\<lambda>x. Return (Looked x))"

text \<open>The same operations as the rest of the library has them.\<close>

fun op_atomic :: "('d, 'st) sqlite3 \<Rightarrow> db_op \<Rightarrow> 'd \<Rightarrow> db_result \<times> 'd" where
  "op_atomic api (ExecOp sql) d = map_prod Executed id (db_exec api sql d)"
| "op_atomic api (InsertOp spec) d = map_prod Executed id (register_insert api spec d)"
| "op_atomic api (FetchOp nm) d = map_prod Fetched id (registry_get api nm d)"
| "op_atomic api (DeleteOp nm) d = map_prod Deleted id (registry_remove api nm d)"
| "op_atomic api (RecordOp nm inp st out dur cold) d = map_prod Recorded id (store_record api nm inp st out dur cold d)"
| "op_atomic api (LookupOp i) d = map_prod Looked id (store_get api i d)"

subsection \<open>Threads\<close>

text \<open>
  Threads that operate on one state behind one mutex: the state, the owner of the mutex, the
  operation each thread is in with what is left of it, and the operations that have returned,
  in that order.
\<close>

record ('s, 'op, 'r) guarded =
  g_state :: 's
  g_owner :: "nat option"
  g_calls :: "nat \<Rightarrow> ('op \<times> ('s, 'r) prog) option"
  g_log :: "(nat \<times> 'op \<times> 'r) list"

definition g_start :: "'s \<Rightarrow> ('s, 'op, 'r) guarded" where
  "g_start s = \<lparr>g_state = s, g_owner = None, g_calls = (\<lambda>_. None), g_log = []\<rparr>"

inductive gstep :: "('op \<Rightarrow> ('s, 'r) prog) \<Rightarrow> ('s, 'op, 'r) guarded \<Rightarrow> ('s, 'op, 'r) guarded \<Rightarrow> bool" for prog where
  g_enter: "g_calls g t = None \<Longrightarrow> gstep prog g (g\<lparr>g_calls := (g_calls g)(t \<mapsto> (op, prog op))\<rparr>)"
| g_lock: "g_calls g t = Some (op, Call f) \<Longrightarrow> g_owner g = None \<Longrightarrow> gstep prog g (g\<lparr>g_owner := Some t\<rparr>)"
| g_call: "g_calls g t = Some (op, Call f) \<Longrightarrow> g_owner g = Some t \<Longrightarrow> f (g_state g) = (p, s') \<Longrightarrow>
    gstep prog g (g\<lparr>g_state := s', g_calls := (g_calls g)(t \<mapsto> (op, p))\<rparr>)"
| g_unlock: "g_calls g t = Some (op, Return r) \<Longrightarrow> g_owner g = Some t \<Longrightarrow>
    gstep prog g (g\<lparr>g_owner := None, g_calls := (g_calls g)(t := None), g_log := g_log g @ [(t, op, r)]\<rparr>)"
| g_leave: "g_calls g t = Some (op, Return r) \<Longrightarrow> g_owner g \<noteq> Some t \<Longrightarrow>
    gstep prog g (g\<lparr>g_calls := (g_calls g)(t := None), g_log := g_log g @ [(t, op, r)]\<rparr>)"

text \<open>One after the other: the state after a list of operations, if they give the results listed.\<close>

fun serial :: "('op \<Rightarrow> 's \<Rightarrow> 'r \<times> 's) \<Rightarrow> 's \<Rightarrow> (nat \<times> 'op \<times> 'r) list \<Rightarrow> 's option" where
  "serial atomic s [] = Some s"
| "serial atomic s ((t, op, r) # log) = (case atomic op s of (r', s') \<Rightarrow> if r' = r then serial atomic s' log else None)"

section \<open>Sections behave as one step\<close>

lemma run_Call [simp]: "run (Call f) s = (case f s of (p, s') \<Rightarrow> run p s')"
  by (simp add: case_prod_beta)

lemma run_seq [simp]: "run (seq p k) s = (case run p s of (a, s') \<Rightarrow> run (k a) s')"
proof (induction p arbitrary: s)
  case (Call f)
  obtain p s' where f: "f s = (p, s')" by fastforce
  then have "(p, s') \<in> range f" by (metis rangeI)
  then have "run (seq p k) s' = (case run p s' of (a, s'') \<Rightarrow> run (k a) s'')"
    by (rule Call.IH) (simp add: prod_set_defs)
  with f show ?case by simp
qed simp

lemma run_call [simp]: "run (call f) s = f s"
  by (simp add: call_def case_prod_beta)

declare run.simps(2) [simp del]

lemma serial_append: "serial atomic s (l1 @ l2) = Option.bind (serial atomic s l1) (\<lambda>s'. serial atomic s' l2)"
  by (induction atomic s l1 rule: serial.induct) (auto split: prod.splits)

locale guarded_object =
  fixes prog :: "'op \<Rightarrow> ('s, 'r) prog" and atomic :: "'op \<Rightarrow> 's \<Rightarrow> 'r \<times> 's"
  assumes run_prog: "run (prog op) s = atomic op s"
begin

text \<open>
  The operations that have returned form a serial run; the owner of the mutex is on its way
  from where that run has ended, and the others have not begun.
\<close>

definition in_order :: "'s \<Rightarrow> ('s, 'op, 'r) guarded \<Rightarrow> bool" where
  "in_order s0 g \<longleftrightarrow>
     (\<exists>s. serial atomic s0 (g_log g) = Some s
        \<and> (case g_owner g of
             None \<Rightarrow> g_state g = s
           | Some t \<Rightarrow> \<exists>op p. g_calls g t = Some (op, p) \<and> atomic op s = run p (g_state g)))
   \<and> (\<forall>t op p. g_calls g t = Some (op, p) \<and> g_owner g \<noteq> Some t \<longrightarrow> p = prog op)"

lemma in_order_start: "in_order s0 (g_start s0)"
  by (simp add: in_order_def g_start_def)

lemma in_order_step:
  assumes "gstep prog g g'" "in_order s0 g"
  shows "in_order s0 g'"
  using assms
proof (induction rule: gstep.induct)
  case (g_enter g t op)
  then show ?case by (auto simp: in_order_def split: option.splits)
next
  case (g_lock g t op f)
  then show ?case using run_prog [of op] by (auto simp: in_order_def)
next
  case (g_call g t op f p s')
  then show ?case by (auto simp: in_order_def)
next
  case (g_unlock g t op r)
  then show ?case by (auto simp: in_order_def serial_append)
next
  case (g_leave g t op r)
  then have "prog op = Return r" by (auto simp: in_order_def)
  then have "atomic op s = (r, s)" for s using run_prog [of op s] by simp
  with g_leave show ?case by (auto simp: in_order_def serial_append split: option.splits)
qed

lemma in_order_run: "(gstep prog)\<^sup>*\<^sup>* (g_start s0) g \<Longrightarrow> in_order s0 g"
  by (induction rule: rtranclp_induct) (auto intro: in_order_start in_order_step)

text \<open>Whoever owns the mutex can go on to the end of its section, whatever the others are doing.\<close>

lemma owner_finishes:
  assumes "g_calls g t = Some (op, p)" "g_owner g = Some t"
  shows "\<exists>g'. (gstep prog)\<^sup>*\<^sup>* g g' \<and> g_owner g' = None \<and> g_log g' = g_log g @ [(t, op, fst (run p (g_state g)))]
    \<and> g_calls g' = (g_calls g)(t := None)"
  using assms
proof (induction p arbitrary: g)
  case (Return r)
  from gstep.g_unlock [where prog = prog, OF this] show ?case by (intro exI conjI, rule r_into_rtranclp) simp_all
next
  case (Call f)
  obtain p s' where f: "f (g_state g) = (p, s')" by fastforce
  then have p: "(p, s') \<in> range f" "p \<in> Basic_BNFs.fsts (p, s')" by (metis rangeI, simp add: prod_set_defs)
  let ?g = "g\<lparr>g_state := s', g_calls := (g_calls g)(t \<mapsto> (op, p))\<rparr>"
  have step: "gstep prog g ?g" using Call.prems f by (rule gstep.g_call)
  have upd: "(g_calls ?g)(t := None) = (g_calls g)(t := None)" by (rule ext) simp
  obtain g' where g': "(gstep prog)\<^sup>*\<^sup>* ?g g'" "g_owner g' = None"
    "g_log g' = g_log g @ [(t, op, fst (run p s'))]" "g_calls g' = (g_calls g)(t := None)"
    using Call.IH [OF p, of ?g, unfolded upd] Call.prems(2) by (auto simp: fun_upd_def)
  then show ?case using converse_rtranclp_into_rtranclp [of "gstep prog", OF step g'(1)] f by auto
qed

lemma lock_gets_free: "(gstep prog)\<^sup>*\<^sup>* (g_start s0) g \<Longrightarrow> \<exists>g'. (gstep prog)\<^sup>*\<^sup>* g g' \<and> g_owner g' = None"
proof (cases "g_owner g")
  case (Some t)
  assume "(gstep prog)\<^sup>*\<^sup>* (g_start s0) g"
  from in_order_run [OF this] Some obtain op p where "g_calls g t = Some (op, p)" by (auto simp: in_order_def)
  from owner_finishes [OF this Some] show ?thesis by blast
qed auto

end

section \<open>The sections of the stores\<close>

text \<open>An operation on the connection that leaves the number of open statements as it was.\<close>

definition on_db :: "('d \<Rightarrow> 'r \<times> 'd) \<Rightarrow> 'd connection \<Rightarrow> 'r \<times> 'd connection" where
  "on_db f c = (case f (cn_db c) of (r, d') \<Rightarrow> (r, c\<lparr>cn_db := d'\<rparr>))"

lemma run_statement:
  assumes "\<And>st c. run (body st) c = on_db (f st) c"
  shows "run (statement api sql body) c =
    on_db (\<lambda>d. case stmt_new api sql d of Inl e \<Rightarrow> (Inl e, d) | Inr st \<Rightarrow> f st d) c"
  by (auto simp: statement_def stmt_open_def stmt_finalize_def on_db_def assms split: sum.splits prod.splits)

lemma run_stepping [simp]:
  "run (stepping api st k) c = (case stmt_step api (cn_db c) st of
      (Inl e, d', _) \<Rightarrow> (Inl e, c\<lparr>cn_db := d'\<rparr>)
    | (Inr row, d', st') \<Rightarrow> run (k row st') (c\<lparr>cn_db := d'\<rparr>))"
  by (auto simp: stepping_def stmt_advance_def split: prod.splits sum.splits)

lemma run_on_stmt [simp]: "run (on_stmt x) c = (x, c)"
  by (simp add: on_stmt_def)

lemma run_exec: "run (exec_section api sql) c = on_db (db_exec api sql) c"
  by (simp add: exec_section_def on_db_def)

lemma run_insert: "run (insert_section api spec) c = on_db (register_insert api spec) c"
  unfolding insert_section_def register_insert_def
  by (rule run_statement) (auto simp: on_db_def Let_def split: prod.splits sum.splits)

lemma run_get: "run (get_section api nm) c = on_db (registry_get api nm) c"
  unfolding get_section_def registry_get_def
  by (rule run_statement) (auto simp: on_db_def split: prod.splits sum.splits bool.splits)

lemma run_remove: "run (remove_section api nm) c = on_db (registry_remove api nm) c"
  unfolding remove_section_def registry_remove_def
  by (rule run_statement) (auto simp: on_db_def split: prod.splits sum.splits)

lemma run_record: "run (record_section api nm inp st out dur cold) c = on_db (store_record api nm inp st out dur cold) c"
  unfolding record_section_def store_record_def
  by (rule run_statement) (auto simp: on_db_def Let_def split: prod.splits sum.splits)

lemma run_lookup: "run (lookup_section api i) c = on_db (store_get api i) c"
proof (cases "stol i")
  case (Inr n)
  then show ?thesis unfolding lookup_section_def store_get_def
    by (simp, intro run_statement) (auto simp: on_db_def split: prod.splits sum.splits bool.splits)
qed (simp add: lookup_section_def store_get_def on_db_def)

interpretation stores: guarded_object "op_section api" "\<lambda>op. on_db (op_atomic api op)"
proof
  show "run (op_section api op) c = on_db (op_atomic api op) c" for op c
    by (cases op) (simp_all add: run_exec run_insert run_get run_remove run_record run_lookup on_db_def split: prod.splits)
qed

lemma serial_on_db:
  "serial (\<lambda>op. on_db (op_atomic api op)) c log =
    map_option (\<lambda>d. c\<lparr>cn_db := d\<rparr>) (serial (op_atomic api) (cn_db c) log)"
  by (induction "op_atomic api" "cn_db c" log arbitrary: c rule: serial.induct)
    (auto simp: on_db_def split: prod.splits)

end
