(* ===== verification/Database_Threads.thy ===== *)
theory Database_Threads
  imports Critical_Sections Concurrent_Properties
begin

text \<open>
  What the threads of the control plane see of the database when they interleave at every call
  of SQLite: atomic operations, and in them a history of invocations that only grows.
\<close>

section \<open>Atomic operations\<close>

lemma sections_serial:
  assumes "(gstep (op_section api))\<^sup>*\<^sup>* (g_start \<lparr>cn_db = d, cn_open = 0\<rparr>) g"
  shows "\<exists>d'. serial (op_atomic api) d (g_log g) = Some d' \<and> (g_owner g = None \<longrightarrow> cn_db (g_state g) = d' \<and> db_close (g_state g))"
  using stores.in_order_run [OF assms] by (auto simp: stores.in_order_def serial_on_db db_close_def)

text \<open>
  C12: The database operations are atomic although their threads interleave at every call of
  SQLite: whatever calls the threads make and however they interleave, the operations that
  have returned gave the results they give one after the other in the order of their return,
  the database is then in the state that this leads to whenever the mutex is free, with every
  statement finalised, so that closing it succeeds; and the mutex is always given back.
\<close>
theorem database_operations_atomic:
  assumes "(gstep (op_section api))\<^sup>*\<^sup>* (g_start \<lparr>cn_db = d, cn_open = 0\<rparr>) g"
  shows "\<exists>d'. serial (op_atomic api) d (g_log g) = Some d'
      \<and> (g_owner g = None \<longrightarrow> cn_db (g_state g) = d' \<and> db_close (g_state g))
      \<and> (\<exists>g'. (gstep (op_section api))\<^sup>*\<^sup>* g g' \<and> g_owner g' = None)"
proof -
  obtain d' where 1: "serial (op_atomic api) d (g_log g) = Some d'" "g_owner g = None \<longrightarrow> cn_db (g_state g) = d' \<and> db_close (g_state g)"
    using sections_serial [OF assms] by auto
  obtain g' where 2: "(gstep (op_section api))\<^sup>*\<^sup>* g g'" "g_owner g' = None" using stores.lock_gets_free [OF assms] by auto
  show ?thesis using 1 2 by (intro exI [of _ d'] conjI exI [of _ g'])
qed


lemma two_records:
  "\<exists>g r0 r1. (gstep (op_section api))\<^sup>*\<^sup>* (g_start c) g \<and> g_owner g = None
    \<and> g_log g = [(0, RecordOp n0 i0 s0 o0 d0 c0, r0), (1, RecordOp n1 i1 s1 o1 d1 c1, r1)]"
proof -
  let ?op0 = "RecordOp n0 i0 s0 o0 d0 c0" and ?op1 = "RecordOp n1 i1 s1 o1 d1 c1"
  have calls: "\<exists>f. op_section api (RecordOp n i st out d b) = Call f" for n i st out d b
    by (simp add: record_section_def statement_def call_def)
  obtain f0 f1 where f: "op_section api ?op0 = Call f0" "op_section api ?op1 = Call f1" using calls by metis
  let ?g1 = "(g_start c)\<lparr>g_calls := (g_calls (g_start c))(0 \<mapsto> (?op0, Call f0))\<rparr>"
  let ?g2 = "?g1\<lparr>g_calls := (g_calls ?g1)(1 \<mapsto> (?op1, Call f1))\<rparr>"
  let ?g3 = "?g2\<lparr>g_owner := Some 0\<rparr>"
  have 1: "gstep (op_section api) (g_start c) ?g1" unfolding f(1) [symmetric] by (rule gstep.g_enter) (simp add: g_start_def)
  have 2: "gstep (op_section api) ?g1 ?g2" unfolding f(2) [symmetric] by (rule gstep.g_enter) (simp add: g_start_def)
  have 3: "gstep (op_section api) ?g2 ?g3" by (rule gstep.g_lock) (simp_all add: g_start_def)
  have c3: "g_calls ?g3 0 = Some (?op0, Call f0)" "g_owner ?g3 = Some 0" by simp_all
  obtain g4 where 4: "(gstep (op_section api))\<^sup>*\<^sup>* ?g3 g4" "g_owner g4 = None" "g_calls g4 = (g_calls ?g3)(0 := None)"
    "g_log g4 = g_log ?g3 @ [(0, ?op0, fst (run (Call f0) (g_state ?g3)))]"
    using stores.owner_finishes [OF c3] by blast
  let ?g5 = "g4\<lparr>g_owner := Some 1\<rparr>"
  have c5: "g_calls ?g5 1 = Some (?op1, Call f1)" "g_owner ?g5 = Some 1" by (simp_all add: 4(3))
  have 5: "gstep (op_section api) g4 ?g5" by (rule gstep.g_lock) (use c5(1) 4(2) in simp_all)
  obtain g6 where 6: "(gstep (op_section api))\<^sup>*\<^sup>* ?g5 g6" "g_owner g6 = None"
    "g_log g6 = g_log ?g5 @ [(1, ?op1, fst (run (Call f1) (g_state ?g5)))]"
    using stores.owner_finishes [OF c5] by blast
  have l: "g_log g6 = [(0, ?op0, fst (run (Call f0) (g_state ?g3))), (1, ?op1, fst (run (Call f1) (g_state ?g5)))]"
    unfolding 6(3) by (simp add: 4(4) g_start_def)
  have "(gstep (op_section api))\<^sup>*\<^sup>* (g_start c) g6"
    using 1 2 3 4(1) 5 6(1) by (meson converse_rtranclp_into_rtranclp rtranclp_trans)
  with 6(2) l show ?thesis by blast
qed

lemma two_records_results:
  assumes "(gstep (op_section mem_api))\<^sup>*\<^sup>* (g_start \<lparr>cn_db = mem_empty, cn_open = 0\<rparr>) g"
    and "g_log g = [(0, RecordOp ''hello'' ''x'' ''success'' ''hi'' 5 True, r0), (1, RecordOp ''hello'' ''y'' ''success'' ''ho'' 3 False, r1)]"
  shows "r0 = Recorded (Inr ''1'') \<and> r1 = Recorded (Inr ''2'')"
proof -
  let ?op0 = "RecordOp ''hello'' ''x'' ''success'' ''hi'' 5 True" and ?op1 = "RecordOp ''hello'' ''y'' ''success'' ''ho'' 3 False"
  have "fst (op_atomic mem_api ?op0 mem_empty) = Recorded (Inr ''1'')"
    "fst (op_atomic mem_api ?op1 (snd (op_atomic mem_api ?op0 mem_empty))) = Recorded (Inr ''2'')" by code_simp+
  then show ?thesis using sections_serial [OF assms(1)] assms(2)
    by (auto simp del: op_atomic.simps split: prod.splits if_splits)
qed

theorem database_operations_atomic_witness:
  "\<exists>g d'. (gstep (op_section mem_api))\<^sup>*\<^sup>* (g_start \<lparr>cn_db = mem_empty, cn_open = 0\<rparr>) g
    \<and> map (snd \<circ> snd) (g_log g) = [Recorded (Inr ''1''), Recorded (Inr ''2'')]
    \<and> serial (op_atomic mem_api) mem_empty (g_log g) = Some d' \<and> cn_db (g_state g) = d' \<and> db_close (g_state g)"
proof -
  obtain g r0 r1 where g: "(gstep (op_section mem_api))\<^sup>*\<^sup>* (g_start \<lparr>cn_db = mem_empty, cn_open = 0\<rparr>) g" "g_owner g = None"
    "g_log g = [(0, RecordOp ''hello'' ''x'' ''success'' ''hi'' 5 True, r0), (1, RecordOp ''hello'' ''y'' ''success'' ''ho'' 3 False, r1)]"
    using two_records by metis
  with database_operations_atomic [OF g(1)] two_records_results [OF g(1,3)] show ?thesis by auto
qed

section \<open>The invocation history as a log\<close>

text \<open>
  The abstract history: a map from ids to records that is only added to. A recorded
  invocation gets an id that was free; a lookup finds the entry of the id it parses as. Operations
  on functions do not concern it.
\<close>

fun function_op :: "db_op \<Rightarrow> bool" where
  "function_op (InsertOp _) = True"
| "function_op (FetchOp _) = True"
| "function_op (DeleteOp _) = True"
| "function_op _ = False"

inductive log_run ::
  "(c_long \<rightharpoonup> invocation_record) \<Rightarrow> (db_op \<times> db_result) list \<Rightarrow> (c_long \<rightharpoonup> invocation_record) \<Rightarrow> bool" where
  log_nil: "log_run m [] m"
| log_record: "m k = None \<Longrightarrow> log_run (m(k \<mapsto> stored_record nm inp st out dur cold k now)) l m' \<Longrightarrow>
    log_run m ((RecordOp nm inp st out dur cold, Recorded (Inr (show_int (sint k)))) # l) m'"
| log_lookup: "log_run m l m' \<Longrightarrow>
    log_run m ((LookupOp i, Looked (Inr (case stol i of Inl _ \<Rightarrow> None | Inr n \<Rightarrow> m (word_of_int n)))) # l) m'"
| log_other: "function_op op \<Longrightarrow> log_run m l m' \<Longrightarrow> log_run m ((op, r) # l) m'"

text \<open>
  The operations of a process that is serving: the tables were created before, and recording
  has not thrown, which nothing catches.
\<close>

fun in_service :: "db_op \<times> db_result \<Rightarrow> bool" where
  "in_service (ExecOp _, _) = False"
| "in_service (_, Recorded (Inl _)) = False"
| "in_service _ = True"

fun new_ids :: "(db_op \<times> db_result) list \<Rightarrow> string list" where
  "new_ids ((RecordOp _ _ _ _ _ _, Recorded (Inr i)) # l) = i # new_ids l"
| "new_ids (_ # l) = new_ids l"
| "new_ids [] = []"

lemma log_run_grows: "log_run m l m' \<Longrightarrow> m \<subseteq>\<^sub>m m'"
proof (induction rule: log_run.induct)
  case (log_record m k nm inp st out dur cold now l m')
  have "m \<subseteq>\<^sub>m m(k \<mapsto> stored_record nm inp st out dur cold k now)" using log_record.hyps(1) by (auto simp: map_le_def)
  then show ?case using log_record.IH by (rule map_le_trans)
qed simp_all

lemma store_get_parsed:
  assumes "select_invocation_law api ok itbl" "ok d" "rows_recorded (itbl d) past"
  shows "\<exists>d'. store_get api i d = (Inr (case stol i of Inl _ \<Rightarrow> None | Inr n \<Rightarrow> past (word_of_int n)), d') \<and> ok d' \<and> itbl d' = itbl d"
proof (cases "stol i")
  case (Inl e)
  with assms(2) show ?thesis by (simp add: store_get_def)
next
  case (Inr n)
  with store_get_recorded [OF assms, of "word_of_int n"] show ?thesis by (simp add: store_get_numeric)
qed

lemma function_op_keeps:
  assumes "apart api iok itbl" "function_op op" "op_atomic api op d = (r, d')"
  shows "iok d' = iok d \<and> itbl d' = itbl d"
proof (cases op)
  case (InsertOp spec)
  then show ?thesis using assms(3) apart_keeps(3) [OF assms(1), of spec d] by (cases "register_insert api spec d") simp
next
  case (FetchOp nm)
  then show ?thesis using assms(3) apart_keeps(1) [OF assms(1), of nm d] by (cases "registry_get api nm d") simp
next
  case (DeleteOp nm)
  then show ?thesis using assms(3) apart_keeps(2) [OF assms(1), of nm d] by (cases "registry_remove api nm d") simp
qed (use assms(2) in simp_all)

lemma history_step:
  assumes "history_laws api iok room itbl" "iok d" "rows_recorded (itbl d) m" "op_atomic api op d = (r, d')" "in_service (op, r)"
  shows "\<exists>m'. iok d' \<and> rows_recorded (itbl d') m' \<and> (\<forall>l m''. log_run m' l m'' \<longrightarrow> log_run m ((op, r) # l) m'')"
proof -
  have laws: "insert_invocation_law api iok room itbl" "insert_full_law api iok room" "select_invocation_law api iok itbl" "apart api iok itbl"
    using assms(1) by (simp_all add: history_laws_def)
  show ?thesis
  proof (cases "function_op op")
    case True
    with function_op_keeps [OF laws(4) True assms(4)] assms(2,3) show ?thesis by (intro exI [of _ m]) (simp add: log_other)
  next
    case False
    then consider (rec) nm inp st out dur cold where "op = RecordOp nm inp st out dur cold" | (look) i where "op = LookupOp i"
      using assms(5) by (cases op) auto
    then show ?thesis
    proof cases
      case rec
      obtain y where y: "store_record api nm inp st out dur cold d = (y, d')" "r = Recorded y"
        using assms(4) rec by (cases "store_record api nm inp st out dur cold d") simp
      with assms(5) rec obtain x where x: "y = Inr x" by (cases y) auto
      from store_record_new [OF laws(1,2) assms(2) y(1) [unfolded x]] obtain k now where k: "x = show_int (sint k)" "iok d'"
        "itbl d k = None" "itbl d' = (itbl d)(k \<mapsto> record_row nm inp st out dur cold k now)" by blast
      have "m k = None" using assms(3) [unfolded rows_recorded_def, rule_format, of k] k(3) by simp
      with k rows_recorded_put [OF assms(3)] show ?thesis
        by (intro exI [of _ "m(k \<mapsto> stored_record nm inp st out dur cold k now)"]) (simp add: rec y(2) x log_record)
    next
      case look
      obtain d'' where "store_get api i d = (Inr (case stol i of Inl _ \<Rightarrow> None | Inr n \<Rightarrow> m (word_of_int n)), d'')" "iok d''" "itbl d'' = itbl d"
        using store_get_parsed [OF laws(3) assms(2,3)] by blast
      then show ?thesis using assms(3,4) look log_lookup by (intro exI [of _ m]) auto
    qed
  qed
qed

lemma serial_history:
  assumes "history_laws api iok room itbl"
  shows "iok d \<Longrightarrow> rows_recorded (itbl d) m \<Longrightarrow> serial (op_atomic api) d es = Some d' \<Longrightarrow> list_all in_service (map snd es) \<Longrightarrow>
    \<exists>m'. log_run m (map snd es) m' \<and> rows_recorded (itbl d') m'"
proof (induction es arbitrary: d m)
  case (Cons e es)
  obtain t op r where e: "e = (t, op, r)" by (cases e)
  with Cons.prems(3) obtain d1 where d1: "op_atomic api op d = (r, d1)" "serial (op_atomic api) d1 es = Some d'"
    by (auto split: prod.splits if_splits)
  from history_step [OF assms Cons.prems(1,2) d1(1)] Cons.prems(4) e obtain m1 where m1: "iok d1" "rows_recorded (itbl d1) m1"
    "\<forall>l m''. log_run m1 l m'' \<longrightarrow> log_run m ((op, r) # l) m''" by auto
  from Cons.IH [OF m1(1,2) d1(2)] Cons.prems(4) m1(3) e show ?case by auto
qed (auto intro: log_nil)

lemma new_ids_other: "function_op op \<Longrightarrow> new_ids ((op, r) # l) = new_ids l"
  by (cases op) auto

lemma log_run_ids:
  "log_run m l m' \<Longrightarrow> distinct (new_ids l) \<and> (\<forall>k. m k \<noteq> None \<longrightarrow> show_int (sint k) \<notin> set (new_ids l))"
proof (induction rule: log_run.induct)
  case (log_record m k nm inp st out dur cold now l m')
  have "show_int (sint j) = show_int (sint k) \<longleftrightarrow> j = k" for j :: c_long by (auto simp: show_int_inj dest: signed_word_eqI)
  with log_record show ?case by (auto split: if_splits)
qed (auto simp: new_ids_other)

text \<open>
  C13: The invocation history is an append-only log, under every interleaving of the threads at
  every call of SQLite: what the operations that have returned gave is what a map from ids
  to records gives that is only ever added to, in the order of their return. Every recorded
  invocation got an id of its own, a lookup finds exactly the record of its id as soon as that
  recording has returned, no record is changed or lost, and when the mutex is free the table
  holds that map.
\<close>
theorem history_is_a_log:
  assumes "history_laws api iok room itbl" "iok d" "rows_recorded (itbl d) past"
    and "(gstep (op_section api))\<^sup>*\<^sup>* (g_start \<lparr>cn_db = d, cn_open = 0\<rparr>) g" "list_all in_service (map snd (g_log g))"
  shows "\<exists>past'. log_run past (map snd (g_log g)) past' \<and> past \<subseteq>\<^sub>m past' \<and> distinct (new_ids (map snd (g_log g)))
    \<and> (g_owner g = None \<longrightarrow> rows_recorded (itbl (cn_db (g_state g))) past')"
proof -
  obtain d' where d: "serial (op_atomic api) d (g_log g) = Some d'" "g_owner g = None \<longrightarrow> cn_db (g_state g) = d'"
    using sections_serial [OF assms(4)] by auto
  from serial_history [OF assms(1-3) d(1) assms(5)] obtain past' where p: "log_run past (map snd (g_log g)) past'" "rows_recorded (itbl d') past'"
    by auto
  with d(2) log_run_grows [OF p(1)] log_run_ids [OF p(1)] show ?thesis by (intro exI [of _ past']) simp
qed

theorem history_is_a_log_witness:
  "\<exists>g past'. (gstep (op_section mem_api))\<^sup>*\<^sup>* (g_start \<lparr>cn_db = mem_empty, cn_open = 0\<rparr>) g \<and> length (g_log g) = 2
    \<and> log_run Map.empty (map snd (g_log g)) past' \<and> distinct (new_ids (map snd (g_log g)))"
proof -
  let ?op0 = "RecordOp ''hello'' ''x'' ''success'' ''hi'' 5 True" and ?op1 = "RecordOp ''hello'' ''y'' ''success'' ''ho'' 3 False"
  obtain g r0 r1 where g: "(gstep (op_section mem_api))\<^sup>*\<^sup>* (g_start \<lparr>cn_db = mem_empty, cn_open = 0\<rparr>) g"
    "g_log g = [(0, ?op0, r0), (1, ?op1, r1)]" using two_records by metis
  have "r0 = Recorded (Inr ''1'')" "r1 = Recorded (Inr ''2'')" using two_records_results [OF g] by auto
  then have s: "list_all in_service (map snd (g_log g))" by (simp add: g(2))
  have m: "mem_iok mem_empty" "rows_recorded (mem_itbl mem_empty) Map.empty"
    by (code_simp, simp add: rows_recorded_def mem_itbl_def mem_empty_def)
  from history_is_a_log [OF demo_history_laws m g(1) s] obtain past' where
    "log_run Map.empty (map snd (g_log g)) past'" "distinct (new_ids (map snd (g_log g)))" by auto
  then show ?thesis using g by (intro exI [of _ g] exI [of _ past'] conjI) simp_all
qed

end
