(* ===== verification/Tracked_Functions.thy ===== *)
theory Tracked_Functions
  imports Concurrent_Properties Connection_Properties
begin

text \<open>
  Registered functions and running containers: while no function is deleted during an
  invocation of it, a runtime is only tracked for a function that is registered, or whose
  delete is about to terminate it.
\<close>

section \<open>The registry's rows\<close>

text \<open>
  The rows are kept under their primary key, the name. The upsert, whatever values are bound
  beside the name, either fails and leaves the table alone or puts one row under that name.
\<close>

definition rows_named :: "(string \<Rightarrow> sql_row option) \<Rightarrow> bool" where
  "rows_named t \<longleftrightarrow> (\<forall>k row. t k = Some row \<longrightarrow> row ''name'' = Some (SText k))"

definition upsert_rows_law :: "('d, 'st) sqlite3 \<Rightarrow> ('d \<Rightarrow> bool) \<Rightarrow> ('d \<Rightarrow> string \<Rightarrow> sql_row option) \<Rightarrow> bool" where
  "upsert_rows_law api ok tbl \<longleftrightarrow>
     (\<forall>d k vs st0 d'. ok d \<and> NUL \<notin> set k \<and> length vs = 8 \<and> sq_prepare api d kUpsertSql = Inr st0
        \<and> fst (snd (sq_step api d (bind_all api (bound_params (SText k # vs)) st0))) = d' \<longrightarrow>
        ok d' \<and> (tbl d' = tbl d \<or> (\<exists>row. row ''name'' = Some (SText k) \<and> tbl d' = (tbl d)(k \<mapsto> row))))"

definition tracking_laws :: "('d, 'st) sqlite3 \<Rightarrow> ('d \<Rightarrow> bool) \<Rightarrow> ('d \<Rightarrow> string \<Rightarrow> sql_row option) \<Rightarrow> bool" where
  "tracking_laws api ok tbl \<longleftrightarrow> upsert_rows_law api ok tbl \<and> select_law api ok tbl \<and> delete_law api ok tbl
     \<and> (\<forall>sql \<in> {kInsertInvocationSql, kSelectInvocationSql}. keeps api sql (\<lambda>d. (ok d, tbl d)))"

lemma insert_rows:
  assumes "upsert_rows_law api ok tbl" "ok d" "register_insert api spec d = (x, d')"
  shows "ok d' \<and> (tbl d' = tbl d \<or> (\<exists>row. row ''name'' = Some (SText (c_str (fs_name spec)))
    \<and> tbl d' = (tbl d)(c_str (fs_name spec) \<mapsto> row)))"
proof (cases "stmt_new api kUpsertSql d")
  case (Inl e)
  with assms(2,3) show ?thesis by (simp add: register_insert_def)
next
  case (Inr st0)
  then have p: "sq_prepare api d kUpsertSql = Inr st0" by (auto simp: stmt_new_def sql_no_nul split: sum.splits)
  have "c_str (function_status_to_string FN_READY) = function_status_to_string FN_READY"
    by (simp add: c_str_def function_status_to_string_def)
  then have "fst (snd (sq_step api d (bind_all api (bound_params (SText (c_str (fs_name spec)) # spec_values spec)) st0))) = d'"
    using assms(3) Inr unfolding register_insert_def spec_values_def params_9
    by (auto simp: stmt_step_def Let_def bind_all_def bind_value_def bind_text_def bind_long_def bind_double_def
        split: sum.splits prod.splits step_rc.splits)
  moreover have "length (spec_values spec) = 8" by (simp add: spec_values_def)
  ultimately show ?thesis using assms(1,2) p c_str_nul_free unfolding upsert_rows_law_def by blast
qed

lemma get_named:
  assumes "select_law api ok tbl" "ok d" "rows_named (tbl d)" "registry_get api nm d = (Inr (Some fn), d')"
  shows "fs_name (fn_spec fn) = c_str nm \<and> tbl d (c_str nm) \<noteq> None"
proof -
  obtain st row where row: "tbl d (c_str nm) = Some row" "on_row api st function_columns row" "fn = row_to_function api st"
    using registry_get_ok [OF assms(1,2), of nm] assms(4) by (auto split: option.splits)
  have "row (function_columns ! 0) = Some (SText (c_str nm))"
    using assms(3) row(1) by (simp add: rows_named_def function_columns_def)
  then have "column_text api 0 st = c_str nm"
    using on_rowD [OF row(2), of 0] by (simp add: function_columns_def column_holds)
  then show ?thesis using row(1,3) by (simp add: row_to_function_def)
qed

section \<open>The runtimes that a step tracks\<close>

lemma settle_keys: "settle env be spec cid resp mg = (x, mg') \<Longrightarrow> om_find (runtimes mg) k = None \<Longrightarrow> om_find (runtimes mg') k = None"
  by (auto simp: settle_def mark_idle_def drop_runtime_def still_tracked_def case_prod_beta Let_def map_simps
      split: if_splits option.splits)

lemma checkout_keys:
  "checkout env be spec mg = Some (x, mg') \<Longrightarrow> om_find (runtimes mg) k = None \<Longrightarrow> k \<noteq> fs_name spec \<Longrightarrow> om_find (runtimes mg') k = None"
  by (auto simp: checkout_def mark_busy_def case_prod_beta Let_def map_simps split: option.splits sum.splits)

lemma reap_keys: "om_find (runtimes mg) k = None \<Longrightarrow> om_find (runtimes (reap_round env be mg)) k = None"
  by (auto simp: reap_round_def reap_locked_def case_prod_beta Let_def reap_entries_runtimes om_find_None)

lemma terminate_keys: "om_find (runtimes (terminate be nm mg)) k = (if k = nm then None else om_find (runtimes mg) k)"
  by (auto simp: terminate_def drop_runtime_def case_prod_beta Let_def map_simps split: option.splits)

text \<open>A step tracks a runtime only for the function that one of the threads is invoking.\<close>

lemma mstep_keys:
  assumes "mstep env be s s'" "om_find (runtimes (mgr s)) k = None" "om_find (runtimes (mgr s')) k \<noteq> None"
  shows "\<exists>t th. threads s t = Some th \<and> fs_name (th_spec th) = k"
  using assms(1)
proof cases
  case (start_failed t th second err mg1 d w)
  then have "om_find (runtimes mg1) k \<noteq> None" using assms(3) by simp
  then show ?thesis using checkout_keys [OF start_failed(4) assms(2)] start_failed(2) by metis
next
  case (checked_out t th second cold port cid mg1)
  then have "om_find (runtimes mg1) k \<noteq> None" using assms(3) by simp
  then show ?thesis using checkout_keys [OF checked_out(4) assms(2)] checked_out(2) by metis
next
  case (answered t th second cold port cid resp es d w st out cf mg2)
  then show ?thesis using settle_keys [OF answered(6), of k] assms(2,3) by auto
qed (use assms(2,3) reap_keys [of "mgr s" k] in \<open>auto simp: finish_invoke_def terminate_keys runtime_status_of_def
      list_runtimes_def case_prod_beta Let_def split: option.splits if_splits\<close>)

lemma mstep_spec:
  "mstep env be s s' \<Longrightarrow> threads s t = Some th \<Longrightarrow> threads s' t = Some th' \<Longrightarrow> th_spec th' = th_spec th"
  by (auto elim!: mstep.cases split: if_splits)

section \<open>Undisturbed runs\<close>

text \<open>A thread that has looked the function up and has not yet returned from the runtime manager.\<close>

definition in_use :: "string \<Rightarrow> 'd control_plane \<Rightarrow> bool" where
  "in_use k s \<longleftrightarrow> (\<exists>t nm inp. c_str nm = k \<and> (cp_jobs s t = Some (Inside nm inp) \<or> (\<exists>spec. cp_jobs s t = Some (Asked nm inp spec))))"

text \<open>
  The runs in which a delete that finds its function comes when no invocation of the function
  is under way, and names it without a NUL byte.
\<close>

inductive undisturbed :: "('d, 'st) sqlite3 \<Rightarrow> env \<Rightarrow> backend \<Rightarrow> 'd \<Rightarrow> world \<Rightarrow> 'd control_plane \<Rightarrow> bool" for api env be d w where
  undisturbed_start: "undisturbed api env be d w (init_plane d w)"
| undisturbed_step: "undisturbed api env be d w s \<Longrightarrow> pstep api env be s s' \<Longrightarrow>
    (\<And>t nm. cp_jobs s t = None \<Longrightarrow> cp_jobs s' t = Some (Removing nm) \<Longrightarrow> NUL \<notin> set nm \<and> \<not> in_use nm s) \<Longrightarrow>
    undisturbed api env be d w s'"

lemma undisturbed_reachable: "undisturbed api env be d w s \<Longrightarrow> plane_reachable api env be d w s"
  by (induction rule: undisturbed.induct) (auto intro: plane_start plane_step)

text \<open>The invariant: what the jobs know of the registry, and for which functions runtimes are tracked.\<close>

definition job_ok :: "(string \<Rightarrow> sql_row option) \<Rightarrow> thread option \<Rightarrow> job option \<Rightarrow> bool" where
  "job_ok t th j = (case j of
       Some (Asked nm inp spec) \<Rightarrow> fs_name spec = c_str nm \<and> t (c_str nm) \<noteq> None
     | Some (Inside nm inp) \<Rightarrow> t (c_str nm) \<noteq> None \<and> (\<forall>h. th = Some h \<longrightarrow> fs_name (th_spec h) = c_str nm)
     | _ \<Rightarrow> True)"

definition covered :: "(string \<Rightarrow> sql_row option) \<Rightarrow> (nat \<Rightarrow> job option) \<Rightarrow> string \<Rightarrow> bool" where
  "covered t jobs k \<longleftrightarrow> c_str k = k \<and> (t k \<noteq> None \<or> (\<exists>u. jobs u = Some (Removing k)))"

definition tracked_registered :: "('d \<Rightarrow> bool) \<Rightarrow> ('d \<Rightarrow> string \<Rightarrow> sql_row option) \<Rightarrow> 'd control_plane \<Rightarrow> bool" where
  "tracked_registered ok tbl s \<longleftrightarrow> ok (cp_db s) \<and> rows_named (tbl (cp_db s)) \<and> jobs_match s
     \<and> (\<forall>t. job_ok (tbl (cp_db s)) (threads (cp_sys s) t) (cp_jobs s t))
     \<and> (\<forall>k. om_find (runtimes (mgr (cp_sys s))) k \<noteq> None \<longrightarrow> covered (tbl (cp_db s)) (cp_jobs s) k)"

lemma c_str_id: "NUL \<notin> set s \<Longrightarrow> c_str s = s"
  by (auto simp: c_str_def)

text \<open>A step of a thread inside the manager.\<close>

lemma tracked_inside:
  assumes "tracked_registered ok tbl s" "cp_jobs s t = Some (Inside nm inp)" "inner_step env be t (cp_sys s) y"
  shows "tracked_registered ok tbl (s\<lparr>cp_sys := y\<rparr>)"
proof -
  have step: "mstep env be (cp_sys s) y" and dom: "dom (threads y) = dom (threads (cp_sys s))"
    using assms(3) inner_step_dom(1) [OF assms(3)] by (simp_all add: inner_step_def)
  have match: "jobs_match s" and jobs: "\<And>u. job_ok (tbl (cp_db s)) (threads (cp_sys s) u) (cp_jobs s u)"
    using assms(1) by (simp_all add: tracked_registered_def)
  have "job_ok (tbl (cp_db s)) (threads y u) (cp_jobs s u)" for u
  proof (cases "threads y u")
    case (Some h)
    then obtain h0 where "threads (cp_sys s) u = Some h0" using dom by (metis domD domI)
    with mstep_spec [OF step this Some] jobs [of u] Some show ?thesis by (auto simp: job_ok_def split: option.splits job.splits)
  qed (use jobs [of u] in \<open>auto simp: job_ok_def split: option.splits job.splits\<close>)
  moreover have "covered (tbl (cp_db s)) (cp_jobs s) k" if new: "om_find (runtimes (mgr y)) k \<noteq> None" for k
  proof (cases "om_find (runtimes (mgr (cp_sys s))) k")
    case None
    then obtain u h where u: "threads (cp_sys s) u = Some h" "fs_name (th_spec h) = k" using mstep_keys [OF step None new] by blast
    then obtain nm inp where "cp_jobs s u = Some (Inside nm inp)" using match unfolding jobs_match_def by (metis option.distinct(1))
    with jobs [of u] u show ?thesis by (auto simp: job_ok_def covered_def)
  qed (use assms(1) in \<open>auto simp: tracked_registered_def\<close>)
  ultimately show ?thesis using assms(1) dom by (simp add: tracked_registered_def jobs_match_iff)
qed

lemma covered_put:
  assumes "covered t js k" "js u \<noteq> Some (Removing k)" "t k \<noteq> None \<Longrightarrow> t' k \<noteq> None"
  shows "covered t' (js(u := j)) k"
  using assms unfolding covered_def by (metis fun_upd_other)

lemma covered_removing: "c_str k = k \<Longrightarrow> covered t (js(u \<mapsto> Removing k)) k"
  by (auto simp: covered_def)

text \<open>Any other step, of the thread \<open>t\<close> or of none.\<close>

lemma trackedI:
  assumes "tracked_registered ok tbl s" "pstep api env be s s'" "ok (cp_db s')" "rows_named (tbl (cp_db s'))"
    and "\<And>u. u \<noteq> t \<Longrightarrow> cp_jobs s' u = cp_jobs s u \<and> threads (cp_sys s') u = threads (cp_sys s) u"
    and "job_ok (tbl (cp_db s')) (threads (cp_sys s') t) (cp_jobs s' t)"
    and "\<And>k. in_use k s \<Longrightarrow> tbl (cp_db s) k \<noteq> None \<Longrightarrow> tbl (cp_db s') k \<noteq> None"
    and "\<And>k. om_find (runtimes (mgr (cp_sys s'))) k \<noteq> None \<Longrightarrow> om_find (runtimes (mgr (cp_sys s))) k \<noteq> None
      \<and> (covered (tbl (cp_db s)) (cp_jobs s) k \<longrightarrow> covered (tbl (cp_db s')) (cp_jobs s') k)"
  shows "tracked_registered ok tbl s'"
proof -
  have old: "jobs_match s" "\<And>u. job_ok (tbl (cp_db s)) (threads (cp_sys s) u) (cp_jobs s u)"
    "\<And>k. om_find (runtimes (mgr (cp_sys s))) k \<noteq> None \<Longrightarrow> covered (tbl (cp_db s)) (cp_jobs s) k"
    using assms(1) by (simp_all add: tracked_registered_def)
  have "job_ok (tbl (cp_db s')) (threads (cp_sys s') u) (cp_jobs s' u)" for u
  proof (cases "u = t")
    case False
    have "in_use (c_str nm) s" if "cp_jobs s u = Some (Inside nm inp) \<or> cp_jobs s u = Some (Asked nm inp spec)" for nm inp spec
      using that by (auto simp: in_use_def)
    with old(2) [of u] assms(5) [OF False] assms(7) show ?thesis by (fastforce simp: job_ok_def split: option.splits job.splits)
  qed (use assms(6) in simp)
  then show ?thesis
    using assms(3,4,8) old pstep_projects [OF assms(2) old(1)] by (simp add: tracked_registered_def)
qed

lemma tracked_step:
  assumes laws: "tracking_laws api ok tbl" and step: "pstep api env be s s'" and inv: "tracked_registered ok tbl s"
    and guard: "\<And>t nm. cp_jobs s t = None \<Longrightarrow> cp_jobs s' t = Some (Removing nm) \<Longrightarrow> NUL \<notin> set nm \<and> \<not> in_use nm s"
  shows "tracked_registered ok tbl s'"
proof -
  have l: "upsert_rows_law api ok tbl" "select_law api ok tbl" "delete_law api ok tbl"
    "keeps api kInsertInvocationSql (\<lambda>d. (ok d, tbl d))" "keeps api kSelectInvocationSql (\<lambda>d. (ok d, tbl d))"
    using laws by (simp_all add: tracking_laws_def)
  have db: "ok (cp_db s)" "rows_named (tbl (cp_db s))" using inv by (simp_all add: tracked_registered_def)
  have jobs: "job_ok (tbl (cp_db s)) (threads (cp_sys s) u) (cp_jobs s u)" for u using inv by (simp add: tracked_registered_def)
  have got: "ok d \<and> tbl d = tbl (cp_db s)" if "registry_get api nm (cp_db s) = (x, d)" for nm x d
    using registry_get_ok [OF l(2) db(1), of nm] that by (auto split: option.splits)
  note intro = trackedI [OF inv step]
  from step show ?thesis
  proof cases
    case (found t nm fn d inp)
    have "fs_name (fn_spec fn) = c_str nm \<and> tbl (cp_db s) (c_str nm) \<noteq> None" by (rule get_named [OF l(2) db found(3)])
    with found got [OF found(3)] db show ?thesis by (intro intro [of t]) (auto simp: job_ok_def intro: covered_put)
  next
    case (entered t nm inp spec now w)
    with jobs [of t] db show ?thesis by (intro intro [of t]) (auto simp: job_ok_def intro: covered_put)
  next
    case (inside t nm inp y)
    with tracked_inside [OF inv inside(2,3)] show ?thesis by simp
  next
    case (returned t nm inp th r)
    with db show ?thesis by (intro intro [of t]) (auto simp: job_ok_def finish_invoke_def intro: covered_put)
  next
    case (recorded t nm inp r k d)
    have "ok d \<and> tbl d = tbl (cp_db s)" using store_record_keeps [OF l(4) recorded(3)] db(1) by simp
    with recorded db show ?thesis by (intro intro [of t]) (auto simp: job_ok_def intro: covered_put)
  next
    case (removed t nm d)
    have nm: "c_str nm = nm" "\<not> in_use nm s" using guard [of t nm] removed(1,2) c_str_id by auto
    have "ok d" "tbl d = (tbl (cp_db s))(nm := None)" using registry_remove_ok [OF l(3) db(1), of nm] removed(3) nm(1) by auto
    moreover from this removed(2) have "covered (tbl (cp_db s)) (cp_jobs s) k \<Longrightarrow> covered (tbl d) ((cp_jobs s)(t \<mapsto> Removing nm)) k" for k
      by (cases "k = nm") (auto intro: covered_put covered_removing nm(1))
    ultimately show ?thesis using removed db nm by (intro intro [of t]) (auto simp: job_ok_def rows_named_def)
  next
    case (not_there nm d)
    have "ok d" "tbl d = tbl (cp_db s)" using registry_remove_ok [OF l(3) db(1), of nm] not_there(2) by auto
    with not_there db jobs show ?thesis by (intro intro [of undefined]) auto
  next
    case (terminated t nm)
    with db show ?thesis by (intro intro [of t]) (auto simp: job_ok_def terminate_keys intro: covered_put split: if_splits)
  next
    case (inserted t spec d)
    from insert_rows [OF l(1) db(1) inserted(3)] have "ok d" "rows_named (tbl d)"
      "\<And>k. tbl (cp_db s) k \<noteq> None \<Longrightarrow> tbl d k \<noteq> None" using db(2) by (auto simp: rows_named_def split: if_splits)
    with inserted show ?thesis by (intro intro [of t]) (auto simp: job_ok_def intro: covered_put)
  next
    case (reread t spec fn d)
    with got [OF reread(3)] db show ?thesis by (intro intro [of t]) (auto simp: job_ok_def intro: covered_put)
  next
    case (described nm x d)
    with got [OF described(2)] db jobs show ?thesis by (intro intro [of undefined]) auto
  next
    case (fetched i y d)
    have "ok d \<and> tbl d = tbl (cp_db s)" using store_get_keeps [OF l(5) fetched(2)] db(1) by simp
    with fetched db jobs show ?thesis by (intro intro [of undefined]) auto
  next
    case (inspected nm)
    with db jobs show ?thesis by (intro intro [of undefined]) (auto simp: runtime_status_of_def case_prod_beta Let_def split: option.splits)
  next
    case enumerated
    with db jobs show ?thesis by (intro intro [of undefined]) (auto simp: list_runtimes_def case_prod_beta Let_def)
  next
    case reaper
    have "om_find (runtimes (reap_round env be (mgr (cp_sys s)))) k \<noteq> None \<Longrightarrow> om_find (runtimes (mgr (cp_sys s))) k \<noteq> None" for k
      using reap_keys by metis
    with reaper db jobs show ?thesis by (intro intro [of undefined]) auto
  qed
qed

lemma undisturbed_tracked:
  assumes "tracking_laws api ok tbl" "ok d" "rows_named (tbl d)"
  shows "undisturbed api env be d w s \<Longrightarrow> tracked_registered ok tbl s"
proof (induction rule: undisturbed.induct)
  case undisturbed_start
  then show ?case using assms(2,3)
    by (simp add: tracked_registered_def init_plane_def init_system_def init_manager_def jobs_match_def job_ok_def)
next
  case (undisturbed_step s s')
  show ?case by (rule tracked_step [OF assms(1) undisturbed_step(2,4,3)])
qed

text \<open>
  C14: No container runs for a function that is not there. In every run in which a function is
  never deleted while an invocation of it is between its lookup and its return, at any moment
  each tracked runtime belongs to a function that a lookup finds in the registry, or to one that
  a thread has just deleted and is about to terminate; so when no request is being handled,
  \<^verbatim>\<open>GET /runtimes\<close> lists registered functions only, whatever the interleaving of deploys,
  deletes, invocations and the reaper. (A delete that does come in between leaves its runtime
  behind; so does one whose name goes on after a NUL byte, which removes the row of the name
  before that byte and looks for a runtime under the whole.)
\<close>
theorem tracked_runtimes_registered:
  assumes "tracking_laws api ok tbl" "ok d" "rows_named (tbl d)" "undisturbed api env be d w s"
    and "om_find (runtimes (mgr (cp_sys s))) k = Some rt"
  shows "(\<exists>fn d'. registry_get api k (cp_db s) = (Inr (Some fn), d') \<and> fs_name (fn_spec fn) = k)
    \<or> (\<exists>t. cp_jobs s t = Some (Removing k))"
proof -
  have inv: "tracked_registered ok tbl s" by (rule undisturbed_tracked [OF assms(1-4)])
  then have db: "ok (cp_db s)" "rows_named (tbl (cp_db s))" and "covered (tbl (cp_db s)) (cp_jobs s) k"
    using assms(5) by (simp_all add: tracked_registered_def)
  then consider "c_str k = k" "tbl (cp_db s) k \<noteq> None" | t where "cp_jobs s t = Some (Removing k)" by (auto simp: covered_def)
  then show ?thesis
  proof cases
    case 1
    have sel: "select_law api ok tbl" using assms(1) by (simp add: tracking_laws_def)
    obtain fn d' where fn: "registry_get api k (cp_db s) = (Inr (Some fn), d')"
      using registry_get_ok [OF sel db(1), of k] 1 by auto
    with get_named [OF sel db fn] 1(1) show ?thesis by auto
  qed blast
qed

section \<open>An example\<close>

lemma mem_tracking_laws: "tracking_laws mem_api mem_ok mem_tbl"
proof -
  have "upsert_rows_law mem_api mem_ok mem_tbl"
    unfolding upsert_rows_law_def
  proof (intro allI impI, elim conjE)
    fix d k vs st0 d'
    assume a: "mem_ok d" "length (vs :: sql_value list) = 8" "sq_prepare mem_api d kUpsertSql = Inr st0"
      "fst (snd (sq_step mem_api d (bind_all mem_api (bound_params (SText k # vs)) st0))) = d'"
    let ?st = "\<lparr>ms_sql = kUpsertSql, ms_params = rev (bound_params (SText k # vs)), ms_row = [], ms_pending = None\<rparr>"
    let ?row = "zip function_columns (map (param ?st) [1..<10] @ [SInt (m_now d)])"
    have k: "param ?st 1 = SText k" using mem_param [of 1 "SText k # vs" ?st] by simp
    then have "d' = d\<lparr>m_functions := (k, ?row) # filter (\<lambda>e. fst e \<noteq> k) (m_functions d), m_changes := 1\<rparr>"
      using a(3,4) by (auto simp: mem_prepare mem_bind_all mem_api_step mem_step_def text_of_def Let_def)
    moreover have "map fst ?row = function_columns" by (simp add: function_columns_def)
    moreover have "map_of ?row ''name'' = Some (SText k)" using k by (simp add: function_columns_def upt_rec)
    ultimately show "mem_ok d' \<and> (mem_tbl d' = mem_tbl d \<or> (\<exists>row. row ''name'' = Some (SText k) \<and> mem_tbl d' = (mem_tbl d)(k \<mapsto> row)))"
      using a(1) by (auto simp: mem_ok_def mem_tbl_def fun_eq_iff map_of_filter_key list_all_iff distinct_map_filter)
  qed
  then show ?thesis using mem_select mem_delete mem_invocations_keep by (simp add: tracking_laws_def)
qed

lemma disk_rows_named: "rows_named (mem_tbl disk_db)"
proof -
  obtain fns where "rows_ours (mem_tbl disk_db) fns" using disk_represents by (auto simp: represents_def)
  from rows_ours_row [OF this] show ?thesis by (fastforce simp: rows_named_def spec_row_def function_columns_def)
qed

text \<open>The function is looked up, its handler enters the manager and starts its container.\<close>

lemma demo_undisturbed:
  "\<exists>s rt. undisturbed mem_api demo_env demo_be disk_db init_world s \<and> om_find (runtimes (mgr (cp_sys s))) ''hello'' = Some rt
    \<and> (\<forall>t k. cp_jobs s t \<noteq> Some (Removing k))"
proof -
  let ?s0 = "init_plane disk_db init_world"
  obtain fn where fn: "registry_get mem_api ''hello'' (cp_db ?s0) = (Inr (Some fn), disk_db)" "fn_spec fn = stored deployed_spec"
    using disk_found by (auto simp: init_plane_def)
  let ?s1 = "set_job 0 (Some (Asked ''hello'' ''x'' (fn_spec fn))) (?s0\<lparr>cp_db := disk_db\<rparr>)"
  have r1: "undisturbed mem_api demo_env demo_be disk_db init_world ?s1"
    by (rule undisturbed_step [OF undisturbed_start found [OF _ fn(1)]]) (auto simp: init_plane_def split: if_splits)
  obtain now w where clock: "steady_now demo_env (mworld (mgr (cp_sys ?s1))) = (now, w)" by fastforce
  let ?th = "\<lparr>th_spec = fn_spec fn, th_input = ''x'', th_start = now, th_phase = Waiting False\<rparr>"
  let ?y = "(cp_sys ?s1)\<lparr>mgr := (mgr (cp_sys ?s1))\<lparr>mworld := w\<rparr>, threads := (threads (cp_sys ?s1))(0 \<mapsto> ?th)\<rparr>"
  let ?s2 = "set_job 0 (Some (Inside ''hello'' ''x'')) (?s1\<lparr>cp_sys := ?y\<rparr>)"
  have r2: "undisturbed mem_api demo_env demo_be disk_db init_world ?s2"
    by (rule undisturbed_step [OF r1 entered [OF _ clock]]) (auto simp: init_plane_def split: if_splits)
  obtain mg1 where co: "checkout demo_env demo_be (th_spec ?th) (mgr ?y) = Some (Inr (True, 32768, ''abc123''), mg1)"
    using demo_cold_start clock fn(2) by (auto simp: init_plane_def init_system_def)
  let ?y' = "set_phase 0 ?th (Calling False True 32768 ''abc123'') (?y\<lparr>mgr := mg1\<rparr>)"
  have "mstep demo_env demo_be ?y ?y'" by (rule mstep.checked_out [OF _ _ co, where t = 0]) simp_all
  then have "inner_step demo_env demo_be 0 ?y ?y'" by (rule inner_stepI, simp, simp, simp)
  then have "pstep mem_api demo_env demo_be ?s2 (?s2\<lparr>cp_sys := ?y'\<rparr>)" by (intro inside [of _ 0 "''hello''" "''x''"]) simp_all
  then have r3: "undisturbed mem_api demo_env demo_be disk_db init_world (?s2\<lparr>cp_sys := ?y'\<rparr>)"
    by (rule undisturbed_step [OF r2]) (auto simp: init_plane_def split: if_splits)
  have "fs_name (fn_spec fn) = ''hello''" unfolding fn(2) by code_simp
  then obtain rt where "om_find (runtimes mg1) ''hello'' = Some rt" using co by (auto elim: checkout_InrD)
  then show ?thesis using r3 by (intro exI [of _ "?s2\<lparr>cp_sys := ?y'\<rparr>"] exI [of _ rt]) (auto simp: init_plane_def split: if_splits)
qed

theorem tracked_runtimes_registered_witness:
  "\<exists>s rt fn d'. undisturbed mem_api demo_env demo_be disk_db init_world s \<and> om_find (runtimes (mgr (cp_sys s))) ''hello'' = Some rt
    \<and> registry_get mem_api ''hello'' (cp_db s) = (Inr (Some fn), d') \<and> fs_name (fn_spec fn) = ''hello''"
proof -
  obtain s rt where s: "undisturbed mem_api demo_env demo_be disk_db init_world s" "om_find (runtimes (mgr (cp_sys s))) ''hello'' = Some rt"
    "\<forall>t k. cp_jobs s t \<noteq> Some (Removing k)" using demo_undisturbed by blast
  from tracked_runtimes_registered [OF mem_tracking_laws disk_room(1) disk_rows_named s(1,2)] s show ?thesis by blast
qed

end
