(* ===== verification/Spec2Isabelle.thy ===== *)
theory Spec2Isabelle
  imports Runtime_Properties Http_Properties Backend_Properties Store_Properties Plane_Properties Cli_Properties
    Concurrent_Properties Plane_Lifetimes Test_Suite Crash_Properties Connection_Properties Api_Types Locks Cli_Functions
    Database_Threads Tracked_Functions
begin

text \<open>
  A verification library for a small function-as-a-service platform written in C++. A user
  deploys container images as functions (\<^verbatim>\<open>cloudfn deploy\<close>), the control plane keeps them in
  a SQLite table, starts a container (a runtime) the first time a function is invoked, keeps
  it warm for the next call, and removes it when it has been idle for too long.

  \<^bold>\<open>The parts and how they interact.\<close> The command-line client (\<^verbatim>\<open>cli/src/main.cpp\<close>) talks over
  HTTP (\<^verbatim>\<open>common/\<close>) to the control plane (\<^verbatim>\<open>control-plane/src/main.cpp\<close>), whose handlers use
  the function registry and the invocation history (both on the SQLite wrapper
  \<^verbatim>\<open>database.cpp\<close>) and the runtime manager. The runtime manager drives a container backend
  (Docker or Kubernetes, through shell commands), calls functions with the HTTP client, and
  counts in \<^verbatim>\<open>metrics.cpp\<close>. Each connection is served on its own thread and a reaper thread runs
  beside them.

  \<^bold>\<open>The theories.\<close>
  \<^item> \<open>Prelude\<close>: C++ integers as words, \<^verbatim>\<open>std::stoi\<close>, \<^verbatim>\<open>std::stol\<close>, \<^verbatim>\<open>std::to_string\<close>, string
    searches, \<^verbatim>\<open>std::map\<close> as sorted association lists with its contract (locale \<open>std_map\<close>).
  \<^item> \<open>World\<close>: what lies outside the program. A \<open>world\<close> holds the effects performed so far
    (commands, connections, bytes sent, sleeps); an \<open>env\<close> answers each effect as a function of
    that history (the output of a command, the other end of a connection, the clock), so every
    run of the real system in which the commands end is a run of the model for some \<open>env\<close>.
  \<^item> \<open>Shell_Exec\<close> (\<^verbatim>\<open>shell_exec.cpp\<close>), \<open>Container_Backend\<close> (\<^verbatim>\<open>container_backend.hpp\<close>, with the
    backends' contract as the locale \<open>container_backend\<close>), \<open>Docker_Client\<close>, \<open>Kubernetes_Client\<close>
    (the two implementations, each an interpretation of that locale), \<open>Runtime_Backend\<close> (the
    choice between them, \<^verbatim>\<open>make_runtime_backend\<close>, and its interpretation).
  \<^item> \<open>Http_Text\<close>, \<open>Http_Client\<close> (\<^verbatim>\<open>http_client.cpp\<close>), \<open>Http_Server\<close> (\<^verbatim>\<open>http_server.cpp\<close>),
    \<open>Http_Exchange\<close> (the two against each other).
  \<^item> \<open>Double\<close>: IEEE doubles as bit patterns, \<^verbatim>\<open>std::stod\<close> and \<^verbatim>\<open>operator<<\<close> on them.
  \<^item> \<open>Metrics\<close> (\<^verbatim>\<open>metrics.cpp\<close>), \<open>Exposition\<close> (the text that \<^verbatim>\<open>GET /metrics\<close> should give, as a
    function of the finished invocations), \<open>Function_Spec\<close> (\<^verbatim>\<open>function.hpp\<close>, \<^verbatim>\<open>runtime_state.hpp\<close>).
  \<^item> \<open>Runtime_Manager\<close> (\<^verbatim>\<open>runtime_manager.cpp\<close>: the record \<open>manager\<close> and one definition for each
    operation and each critical section), \<open>Runtime_Behaviour\<close> (what single operations do),
    \<open>Runtime_Threads\<close> (any number of calls, the reaper and the other operations as an
    inductive step relation whose steps are the code's critical sections), \<open>Runtime_Ownership\<close>
    (whose containers the removal commands are for; the locale \<open>owning_backend\<close> extends the
    backends' contract by what a backend removes and where its ids come from), \<open>Runtime_Work\<close>
    (how many commands, connections and sleeps an invocation makes; the locale \<open>frugal_backend\<close>
    extends the contract by how many commands each operation of a backend runs).
  \<^item> \<open>Database\<close>, \<open>Function_Registry\<close>, \<open>Invocation_Store\<close> (the files of the same names),
    \<open>Registry_Spec\<close> (the registry's abstract specification, a finite map, and the simulation),
    \<open>Critical_Sections\<close> (the lifetime of a \<^verbatim>\<open>Statement\<close> from its constructor to its destructor, as a
    program of single SQLite calls under the database's mutex; an object behind a mutex as the
    locale \<open>guarded_object\<close>) and \<open>Database_Threads\<close> (what follows for any number of threads, and
    the history as a log).
  \<^item> \<open>Control_Plane\<close> (\<^verbatim>\<open>control-plane/src/main.cpp\<close>: one definition for each handler, the routes,
    the set-up, \<^verbatim>\<open>main\<close> up to the accept loop), \<open>Json_Text\<close> (UTF-8, and which of the documents that the
    handlers build the JSON library can write), \<open>Plane_Threads\<close> (the handlers of any number of
    requests as an inductive step relation whose steps are the SQL statements and the critical
    sections of the runtime manager), \<open>Handler_Schedules\<close> (each sequential handler as a schedule
    of those steps), \<open>Plane_Lifetimes\<close> (the process ended at any moment and started again on the
    same file, any number of times), \<open>Tracked_Functions\<close> (for which functions containers run),
    \<open>Locks\<close> (the order in which each handler and the reaper take the three mutexes,
    with ordered locking as the locale \<open>lock_order\<close>), \<open>Cli\<close> (\<^verbatim>\<open>cli/src/main.cpp\<close>: one definition for each command), \<open>Client_Server\<close> (the two at
    the ends of a connection: \<open>wired\<close> and what a call of the API then returns), \<open>Cli_Deploy\<close> (\<^verbatim>\<open>cloudfn deploy\<close>
    from the flags to the row) and \<open>Cli_Functions\<close> (\<^verbatim>\<open>cloudfn describe\<close> and \<^verbatim>\<open>cloudfn delete\<close>).
  \<^item> \<open>Api_Types\<close> (the endpoints of \<^verbatim>\<open>docs/api.md\<close> as a table of statuses and content types),
    \<open>Connection_Properties\<close> (what the network can do), \<open>Test_Suite\<close> (\<^verbatim>\<open>tests/\<close>: the test framework
    and the sixteen unit tests over the models of the components).
  \<^item> \<open>Demo_Env\<close> and \<open>Demo_Db\<close>: a concrete environment, and an in-memory SQLite for the statements
    the program prepares, at which hypotheses are shown to be satisfiable.
  \<^item> The properties are in \<open>Runtime_Properties\<close>, \<open>Http_Properties\<close>, \<open>Backend_Properties\<close>,
    \<open>Store_Properties\<close>, \<open>Plane_Properties\<close>, \<open>Concurrent_Properties\<close>, \<open>Crash_Properties\<close>,
    \<open>Connection_Properties\<close>, \<open>Plane_Lifetimes\<close>, \<open>Tracked_Functions\<close>, \<open>Api_Types\<close>, \<open>Test_Suite\<close>, \<open>Locks\<close>,
    \<open>Client_Server\<close>, \<open>Cli_Properties\<close>, \<open>Cli_Deploy\<close>, \<open>Cli_Functions\<close>, \<open>Database_Threads\<close>, and, where they span the whole program, below.

  \<^bold>\<open>What is shown.\<close>
  \<^item> Runtime manager: under every interleaving the table of runtimes is well formed, the counters
    balance, no container that stops being tracked escapes the removal command, and no
    container is removed that the process did not start; what an
    invocation does when the runtime is warm, cold, dead, silent or cannot be started; how many
    commands and connections it makes at most, and that it returns when these end; that idle runtimes are removed within their timeout (scale to zero), and exactly
    those; that without overlapping calls of one function the reaper never takes a runtime in
    use, and a run in which it does with overlapping calls.
  \<^item> Backends: image names and container ids cannot inject shell commands; ports are parsed
    within range; pod names do not collide; what a failed start removes, and when it cannot.
  \<^item> HTTP: requests and responses survive the trip from the client's call and back whatever pieces
    either is cut into; first-match routing with 404 and 405; how much the header loop reads at
    most; when the client's loop ends.
  \<^item> Metrics: the counters and histograms are those of the finished invocations; buckets are
    cumulative; \<^verbatim>\<open>GET /metrics\<close> gives, line for line, the text that the finished invocations and the
    tracked runtimes determine.
  \<^item> Stores: the registry refines a finite map under every sequence of operations; record/get
    round trips; what the gap between the two statements of \<^verbatim>\<open>register_function\<close> allows; threads
    that interleave at single SQLite calls see their operations take effect one after the other, with
    every statement finalised again; the recorded history only ever grows, in the order of the ids.
  \<^item> Control plane under concurrency: the runtime manager's guarantees carry over to the whole;
    the ids that invocations are answered with are distinct and each finds its own record;
    the metrics count exactly the rows that were added to the history; unless a delete overlaps an
    invocation of the function, containers only run for registered functions, and one that does can
    leave a runtime behind;
    the mutexes cannot deadlock. A handler that is not interrupted is one schedule of the
    threads' steps, so the sequential and the concurrent model describe one program. Answered
    invocations survive any number of crashes and restarts.
  \<^item> What ends the process: exactly which requests make a handler throw when the database works
    and the texts of the answer are UTF-8; that a function's output that is not UTF-8, or such a
    name in a path, ends it too; that a client
    which resets its connection in the middle of a body has the truncated request executed and
    then ends the process by a signal.
  \<^item> API and command line: every answer has the documented type; names that can be deployed but
    not mentioned in a path; a slow answer that no timeout cuts off; a port beyond 16 bits;
    every documented route, deploy/describe, delete, invoke with its
    record, unknown names, a restart on the same database file, a redeploy over a running
    container, the flags of \<^verbatim>\<open>cloudfn deploy\<close> converted by their units and to the nearest double, \<^verbatim>\<open>cloudfn deploy\<close> from the flags to
    the registry, \<^verbatim>\<open>cloudfn describe\<close> and \<^verbatim>\<open>cloudfn delete\<close> from the command line to what they print and
    remove, and \<^verbatim>\<open>cloudfn invoke\<close> from the command line to the container and back.
  \<^item> Tests: the repository's unit tests pass over every SQLite that obeys the laws.

  \<^bold>\<open>Loops and bounds.\<close> No fuel is used. The client's receive loop is a
  \<^theory_text>\<open>partial_function\<close> whose value \<^const>\<open>None\<close> means that it never ends, and the property
  about it says exactly when that is; the server's header loop ends by its limit of \<open>2 ^ 20\<close> bytes and
  its body loop by \<^verbatim>\<open>Content-Length\<close> (the measures of their termination proofs); the readiness
  loop makes \<open>kReadinessAttempts\<close> = 50 attempts; the reaper's endless loop is a number of rounds,
  an argument of \<open>reap_idle_runtimes\<close>. A handler or a command that throws or blocks is a
  value of its result type.

  \<^bold>\<open>Parameters.\<close> SQLite and the JSON library (nlohmann/json) are not in the repository:
  they are records of functions passed to the definitions, and what the code relies on is stated as named hypotheses (\<open>upsert_law\<close>,
  \<open>select_law\<close>, \<open>delete_law\<close>, \<open>select_all_law\<close>, \<open>insert_invocation_law\<close>, \<open>insert_full_law\<close>,
  \<open>select_invocation_law\<close>, \<open>create_tables_law\<close>, \<open>upsert_keeps_rows\<close>, \<open>upsert_rows_law\<close> and \<open>keeps\<close> for the prepared statements; \<open>fresh_law\<close> for a
  new database, \<open>durable_law\<close> and \<open>reopen_law\<close> for one that is opened again; \<open>object_laws\<close>,
  \<open>member_laws\<close>, \<open>readable\<close>, \<open>utf8_laws\<close> for JSON), which \<open>mem_api\<close> of \<open>Demo_Db\<close> and the
  example libraries satisfy. Shell commands, peers and clocks are answered by \<open>env\<close>; the results
  of the server's own socket calls are arguments (\<open>reset_breaks_pipe\<close> says what \<^verbatim>\<open>send\<close> does on a
  connection that was reset).

  \<^bold>\<open>Not modelled.\<close> Commands that never end (\<^verbatim>\<open>exec_capture\<close> waits for them without a timeout), and a
  \<^verbatim>\<open>connect\<close> or \<^verbatim>\<open>send\<close> of the client that never returns; the wrap-around of the counters of the metrics,
  of the pod counter and of clock differences at 64 bits (they are unbounded integers here, exact
  until \<open>2 ^ 63\<close>); the C++ memory model (the threads interleave at critical
  sections, which \<open>Critical_Sections\<close> justifies for the database's mutex; \<open>Locks\<close> treats the locking
  apart from what is done under the locks), the time between two reads of a connection, signals
  other than the SIGPIPE of the server's \<^verbatim>\<open>send\<close>, the destructor of \<^verbatim>\<open>RuntimeManager\<close>
  (it joins the reaper, but \<^verbatim>\<open>main\<close> does not return from the accept loop of a server that nothing stops), log output, and the repository's Python functions, benchmarks, shell
  scripts (the integration tests among them) and deployment files.
\<close>

section \<open>From the command line to the function and back\<close>

text \<open>What \<^verbatim>\<open>cloudfn invoke\<close> prints for an invocation, and how it exits.\<close>

definition printed_invocation :: "string \<Rightarrow> string \<Rightarrow> invocation_result \<Rightarrow> string" where
  "printed_invocation iid shown res =
     ''status: '' @ ir_status res @ [LF]
     @ (if ir_status res = ''timeout'' then ''error: '' @ ir_output res else ''result: '' @ shown) @ [LF]
     @ ''duration: '' @ show_int (sint (word_of_int (ir_duration_ms res) :: c_int)) @ '' ms'' @ [LF]
     @ ''cold_start: '' @ bool_str (ir_cold_start res) @ [LF]
     @ ''invocation_id: '' @ iid @ [LF]"

lemma invoke_document_read:
  assumes "object_laws lib" "j_dump lib (parse_or_string lib (ir_output res)) = Some shown"
    and "ir_status res \<noteq> ''infra_error''"
  shows "invoke_output lib (snd (invoke_body lib iid res)) = Some (printed_invocation iid shown res)"
    and "j_value_string lib (snd (invoke_body lib iid res)) ''status'' '''' = Some (ir_status res)"
  using assms(2,3)
  by (simp_all add: invoke_body_def invoke_output_def line_def printed_invocation_def show_c_int_def object_law [OF assms(1)])

lemma invoke_document_error:
  assumes "object_laws lib" "ir_status res = ''infra_error''"
  shows "j_value_string lib (snd (invoke_body lib iid res)) ''error'' d = Some (ir_output res)"
  using assms(2) by (simp add: invoke_body_def object_law [OF assms(1)])

lemma invocation_dispatched:
  assumes "plain_segment nm" "input = (if data = [] then ''{}'' else data)"
    and "registry_get api nm (pl_db s) = (Inr (Some fn), d1)" "invoke env be (fn_spec fn) input (pl_mgr s) = Some (res, mg')"
    and "store_record api nm input (ir_status res) (ir_output res) (word_of_int (ir_duration_ms res)) (ir_cold_start res) d1
          = (Inr iid, d2)"
    and "j_dump lib (snd (invoke_body lib iid res)) = Some doc" "rq_method req = ''POST''" "rq_body req = data"
  shows "dispatch (api_routes lib api env be idle) req (split_path (path_of [''functions'', nm, ''invoke''])) False s =
    (Returns (response_json (if ir_status res = ''infra_error'' then 502 else 200) doc), s\<lparr>pl_db := d2, pl_mgr := mg'\<rparr>)"
proof -
  have "split_path (path_of [''functions'', nm, ''invoke'']) = [''functions'', nm, ''invoke'']"
    using split_path_path_of [of "[''functions'', nm, ''invoke'']" "[]"] assms(1) by (simp add: plain_segment_def)
  moreover have "fst (invoke_body lib iid res) = (if ir_status res = ''infra_error'' then 502 else 200)" by (simp add: invoke_body_def)
  then have "invoke_handler lib api env be req [nm] s =
      (Returns (response_json (if ir_status res = ''infra_error'' then 502 else 200) doc), s\<lparr>pl_db := d2, pl_mgr := mg'\<rparr>)"
    using assms(2-6,8) by (cases "data = []") (simp_all add: invoke_handler_def json_response_def Let_def case_prod_beta)
  ultimately show ?thesis using assms(7) by (simp add: dispatch_invoke)
qed

text \<open>
  C5: \<^verbatim>\<open>cloudfn invoke NAME --data DATA\<close> works from end to end. If the control plane is at the
  other end of the connection (the bytes the command sends arrive there, and what it answers
  arrives back) and the function is registered, then the control plane runs that function on
  DATA and records the invocation, and the command prints the status, the function's result
  (or the error of a timeout), duration, cold flag and invocation id of exactly this
  invocation; it exits with 0 exactly when the function succeeded, and an infrastructure
  error is reported on standard error. The JSON library is assumed to read back what it
  wrote.
\<close>
theorem cli_invoke_end_to_end:
  assumes "make_client api_env = Inr (host, port)" "plain_value host"
    and "plain_segment nm" "plain_word nm" "\<not> prefix ''--'' nm" "length data < 2 ^ 64"
    and "path = path_of [''functions'', nm, ''invoke'']"
    and "head_length host ''POST'' path data ''application/json'' + 4100 \<le> 2 ^ 20"
    and "conn = handle_connection (api_routes lib api env be idle) r s"
    and "wired (e_peer cenv (hist w) host (port mod 65536)) r (request_bytes host ''POST'' path data ''application/json'') (fst conn)"
    and "input = (if data = [] then ''{}'' else data)"
    and "registry_get api nm (pl_db s) = (Inr (Some fn), d1)" "invoke env be (fn_spec fn) input (pl_mgr s) = Some (res, mg')"
    and "store_record api nm input (ir_status res) (ir_output res) (word_of_int (ir_duration_ms res)) (ir_cold_start res) d1
          = (Inr iid, d2)"
    and "object_laws lib" "readable lib (snd (invoke_body lib iid res))"
    and "j_dump lib (parse_or_string lib (ir_output res)) = Some shown"
  shows "fst (cli_main lib api_env cenv [''invoke'', nm, ''--data'', data] w) =
      (if ir_status res = ''infra_error'' then fails (''error: '' @ ir_output res @ [LF])
       else Returns \<lparr>co_out = printed_invocation iid shown res, co_err = '''',
              co_exit = (if ir_status res = ''success'' then 0 else 1)\<rparr>)
    \<and> snd conn = s\<lparr>pl_db := d2, pl_mgr := mg'\<rparr>"
proof -
  obtain doc where doc: "j_dump lib (snd (invoke_body lib iid res)) = Some doc" "j_parse lib doc = Some (snd (invoke_body lib iid res))"
    using assms(16) by (auto simp: readable_def split: option.splits)
  have "plain_word path" using assms(4,7) by (simp add: plain_word_def path_of_def is_space_def)
  moreover have "0 \<le> (if ir_status res = ''infra_error'' then 502 else 200 :: int)" "(if ir_status res = ''infra_error'' then 502 else 200 :: int) < 2 ^ 31"
    by simp_all
  ultimately have call: "\<exists>w' hs. request cenv host port ''POST'' path data ''application/json'' 0 w = Some (default_response\<lparr>
      cr_status := if ir_status res = ''infra_error'' then 502 else 200, cr_headers := hs, cr_body := doc, cr_ok := True\<rparr>, w')"
    "snd (handle_connection (api_routes lib api env be idle) r s) = s\<lparr>pl_db := d2, pl_mgr := mg'\<rparr>"
    using json_call [OF assms(10) [unfolded assms(9)] _ assms(2,6,8) invocation_dispatched [OF assms(3,11-14) doc(1), folded assms(7)]] by simp_all
  from call(1) obtain w' hs where "request cenv host port ''POST'' path data ''application/json'' 0 w = Some (default_response\<lparr>
      cr_status := if ir_status res = ''infra_error'' then 502 else 200, cr_headers := hs, cr_body := doc, cr_ok := True\<rparr>, w')" by blast
  moreover have "''/functions/'' @ nm @ ''/invoke'' = path" using assms(7) by (simp add: path_of_def)
  moreover have "parse_args [nm, ''--data'', data] = \<lparr>positional = [nm], flags = [(''data'', data)]\<rparr>"
    using assms(5) by (simp add: parse_args_def)
  ultimately have "fst (cli_main lib api_env cenv [''invoke'', nm, ''--data'', data] w) =
      (if ir_status res = ''infra_error'' then fails (''error: '' @ ir_output res @ [LF])
       else Returns \<lparr>co_out = printed_invocation iid shown res, co_err = '''',
              co_exit = (if ir_status res = ''success'' then 0 else 1)\<rparr>)"
    using assms(1) doc(2) invoke_document_error [OF assms(15)] invoke_document_read [OF assms(15,17)]
    by (simp add: cli_main_def cmd_invoke_def with_api_def client_post_def or_throw_def)
  with call(2) assms(9) show ?thesis by auto
qed

text \<open>An example: the function is warm and answers \<^verbatim>\<open>hi\<close>; the library reads the one document there is.\<close>

definition demo_doc :: mj where
  "demo_doc = MO [(''invocation_id'', MS ''1''), (''status'', MS ''success''), (''result'', MS ''hi''),
     (''duration_ms'', MI 4), (''cold_start'', MB False)]"

definition cli_lib :: "mj json_lib" where
  "cli_lib = mj_lib\<lparr>j_parse := (\<lambda>s. if s = mj_dump demo_doc then Some demo_doc else None)\<rparr>"

definition demo_result :: invocation_result where
  "demo_result = \<lparr>ir_status = ''success'', ir_output = ''hi'', ir_duration_ms = 4, ir_cold_start = False\<rparr>"

definition demo_server :: "mem_db plane" where
  "demo_server = \<lparr>pl_db = snd (register_insert mem_api deployed_spec mem_empty), pl_mgr = demo_warm\<rparr>"

definition demo_fn :: function_rec where
  "demo_fn = \<lparr>fn_spec = deployed_spec, fn_status = FN_READY, fn_created_at = 1700000000\<rparr>"

definition demo_msg :: string where
  "demo_msg = request_bytes ''127.0.0.1'' ''POST'' (path_of [''functions'', ''hello'', ''invoke'']) ''x'' ''application/json''"

definition demo_served :: "conn_result \<times> mem_db plane" where
  "demo_served = handle_connection (api_routes cli_lib mem_api demo_env demo_be 60000) (whole demo_msg) demo_server"

lemma cli_lib_laws: "object_laws cli_lib"
  unfolding cli_lib_def by (rule mj_object_laws)

lemma demo_invoked:
  "registry_get mem_api ''hello'' (pl_db demo_server) = (Inr (Some demo_fn), pl_db demo_server)"
  "map_option fst (invoke demo_env demo_be (fn_spec demo_fn) ''x'' demo_warm) = Some demo_result"
  "fst (store_record mem_api ''hello'' ''x'' ''success'' ''hi'' 4 False (pl_db demo_server)) = Inr ''1''"
  "readable cli_lib (snd (invoke_body cli_lib ''1'' demo_result))"
  "j_dump cli_lib (parse_or_string cli_lib ''hi'') = Some (quoted ''hi'')"
  by code_simp+

lemma demo_sizes:
  "length demo_msg \<le> 4096" "demo_msg \<noteq> []"
  "head_length ''127.0.0.1'' ''POST'' (path_of [''functions'', ''hello'', ''invoke'']) ''x'' ''application/json'' + 4100 \<le> 2 ^ 20"
  by code_simp+

lemma demo_wired:
  "wired (e_peer (wire_to res) h host port) (whole demo_msg)
    (request_bytes ''127.0.0.1'' ''POST'' (path_of [''functions'', ''hello'', ''invoke'']) ''x'' ''application/json'') res"
  using wire_to_wired [OF demo_sizes(2,1)] by (simp add: demo_msg_def)

theorem cli_invoke_end_to_end_witness:
  "fst (cli_main cli_lib None (wire_to (fst demo_served)) [''invoke'', ''hello'', ''--data'', ''x''] init_world) =
      Returns \<lparr>co_out = printed_invocation ''1'' (quoted ''hi'') demo_result, co_err = '''', co_exit = 0\<rparr>"
proof -
  obtain mg' where inv: "invoke demo_env demo_be (fn_spec demo_fn) ''x'' (pl_mgr demo_server) = Some (demo_result, mg')"
    using demo_invoked(2) by (auto simp: demo_server_def)
  obtain d2 where rec: "store_record mem_api ''hello'' ''x'' (ir_status demo_result) (ir_output demo_result)
      (word_of_int (ir_duration_ms demo_result)) (ir_cold_start demo_result) (pl_db demo_server) = (Inr ''1'', d2)"
    using demo_invoked(3) by (cases "store_record mem_api ''hello'' ''x'' ''success'' ''hi'' 4 False (pl_db demo_server)")
      (simp add: demo_result_def)
  have input: "''x'' = (if ''x'' = [] then ''{}'' else ''x'')" by simp
  have shown: "j_dump cli_lib (parse_or_string cli_lib (ir_output demo_result)) = Some (quoted ''hi'')"
    using demo_invoked(5) by (simp add: demo_result_def)
  from cli_invoke_end_to_end [OF local_client hello_names(1-4) _ refl demo_sizes(3) demo_served_def demo_wired input demo_invoked(1) inv rec
      cli_lib_laws demo_invoked(4) shown, where w = init_world]
  show ?thesis by (simp add: demo_result_def)
qed

end
